(* ===== verification/Prelude.thy ===== *)
theory Prelude
  imports Main "HOL-Library.Word" "HOL-Library.AList" "HOL-Library.Multiset"
begin

text \<open>
  Shared vocabulary of the development: the machine types of the Go sources, results with
  errors as values, Go maps, byte strings and their big- and little-endian readings, and the
  generic lemmas on lists, words and integer division that the component theories use.

  \<^item> \<open>u8\<close>, \<open>u64\<close> are Go's \<open>uint8\<close>, \<open>uint64\<close> (arithmetic wraps); \<open>big.Int\<close> is \<open>int\<close>; a nil
    pointer is \<open>None\<close>.
  \<^item> \<open>address\<close> (20 bytes), \<open>hash\<close> (32 bytes) and \<open>blskey\<close> (48 bytes) are words of that width.
    \<open>bytes.Compare\<close> on equally long byte arrays is the unsigned order of the words.
  \<^item> A Go map is an association list with distinct keys (\<open>gm_wf\<close>); the order of the list
    stands for one of the orders in which Go may range over the map.
\<close>

unbundle bit_operations_syntax

section \<open>Machine types\<close>

type_synonym byte = "8 word"
type_synonym bytes = "byte list"
type_synonym u8 = "8 word"
type_synonym u64 = "64 word"
type_synonym address = "160 word"
type_synonym hash = "256 word"
type_synonym blskey = "384 word"
type_synonym blssig = "768 word"

named_theorems evals \<open>definitions unfolded when a model function is evaluated on a concrete input\<close>

text \<open>\<open>x.Uint64()\<close> of a \<open>big.Int\<close>: the low 64 bits of the magnitude.
  A nil pointer would panic; it is read as 0 here and ruled out where the code checks for it.\<close>

definition bigUint64 :: "int option \<Rightarrow> u64" where
  "bigUint64 n = (case n of None \<Rightarrow> 0 | Some k \<Rightarrow> word_of_int \<bar>k\<bar>)"

lemma bigUint64_simps [simp]:
  "bigUint64 None = 0"
  "bigUint64 (Some k) = word_of_int \<bar>k\<bar>"
  by (simp_all add: bigUint64_def)

lemma uint_bigUint64: "0 \<le> k \<Longrightarrow> k < 2 ^ 64 \<Longrightarrow> uint (bigUint64 (Some k)) = k"
  by (simp add: uint_word_of_int)

section \<open>Unsigned words and natural numbers\<close>

lemma u64_eq_iff_unat: "(a :: 'a::len word) = b \<longleftrightarrow> unat a = unat b"
  by (simp add: word_unat_eq_iff)

lemma unat_plus_if_lt:
  fixes a b :: "'a::len word"
  assumes "unat a + unat b < 2 ^ LENGTH('a)"
  shows "unat (a + b) = unat a + unat b"
  using assms by (simp add: unat_word_ariths)

lemma unat_minus_if_le:
  fixes a b :: "'a::len word"
  shows "b \<le> a \<Longrightarrow> unat (a - b) = unat a - unat b"
  by (rule unat_sub)

lemma unat_mult_if_lt:
  fixes a b :: "'a::len word"
  assumes "unat a * unat b < 2 ^ LENGTH('a)"
  shows "unat (a * b) = unat a * unat b"
  using assms by (simp add: unat_word_ariths)

lemma unat_of_nat_small: "n < 2 ^ LENGTH('a) \<Longrightarrow> unat (of_nat n :: 'a::len word) = n"
  by (simp add: unat_of_nat)

lemma unat_less_exp: "unat (x :: 'a::len word) < 2 ^ LENGTH('a)"
  by (rule unsigned_less)

lemma unat_of_nat_u64: "n < 2 ^ 64 \<Longrightarrow> unat (of_nat n :: u64) = n"
  by (rule unat_of_nat_small) simp

lemma unat_ucast_u8_u64 [simp]: "unat (ucast (x :: u8) :: u64) = unat x"
  using unat_less_exp [of x] by (simp add: unsigned_ucast_eq take_bit_nat_eq_self)

lemma unat_u64_less: "unat (x :: u64) < 2 ^ 64"
  using unat_less_exp [of x] by simp

lemma unat_u8_less: "unat (x :: u8) < 256"
  using unat_less_exp [of x] by simp

section \<open>Results: errors as values\<close>

text \<open>Sequencing of a step that may fail; \<open>Inl\<close> carries the error.\<close>

definition bindE :: "'e + 'a \<Rightarrow> ('a \<Rightarrow> 'e + 'b) \<Rightarrow> 'e + 'b" where
  "bindE m f = (case m of Inl e \<Rightarrow> Inl e | Inr a \<Rightarrow> f a)"

lemma bindE_simps [simp]:
  "bindE (Inl e) f = Inl e"
  "bindE (Inr a) f = f a"
  by (simp_all add: bindE_def)

lemma bindE_eq_Inr: "bindE m f = Inr b \<longleftrightarrow> (\<exists>a. m = Inr a \<and> f a = Inr b)"
  by (cases m) simp_all

lemma bindE_eq_Inl: "bindE m f = Inl e \<longleftrightarrow> m = Inl e \<or> (\<exists>a. m = Inr a \<and> f a = Inl e)"
  by (cases m) auto

lemma bindE_unit_eq_Inr: "bindE m (\<lambda>_ :: unit. x) = Inr b \<longleftrightarrow> m = Inr () \<and> x = Inr b"
  by (cases m) simp_all

lemma bindE_assoc: "bindE (bindE m f) g = bindE m (\<lambda>x. bindE (f x) g)"
  by (cases m) simp_all

lemma bindE_cong [fundef_cong]:
  "m = m' \<Longrightarrow> (\<And>a. m' = Inr a \<Longrightarrow> f a = g a) \<Longrightarrow> bindE m f = bindE m' g"
  by (cases m') simp_all

section \<open>Steps with state and errors\<close>

text \<open>A step reads and writes a state and may fail; what it wrote before it failed stays, as with Go's
  mutable structures.\<close>

type_synonym ('s, 'e, 'a) act = "'s \<Rightarrow> ('e + 'a) \<times> 's"

definition retA :: "'a \<Rightarrow> ('s, 'e, 'a) act" where
  "retA a s = (Inr a, s)"

definition liftA :: "'e + 'a \<Rightarrow> ('s, 'e, 'a) act" where
  "liftA r s = (r, s)"

definition bindA :: "('s, 'e, 'a) act \<Rightarrow> ('a \<Rightarrow> ('s, 'e, 'b) act) \<Rightarrow> ('s, 'e, 'b) act" where
  "bindA m f s = (case m s of (Inl e, s') \<Rightarrow> (Inl e, s') | (Inr a, s') \<Rightarrow> f a s')"

primrec foldA :: "('x \<Rightarrow> 'a \<Rightarrow> ('s, 'e, 'a) act) \<Rightarrow> 'x list \<Rightarrow> 'a \<Rightarrow> ('s, 'e, 'a) act" where
  "foldA f [] a = retA a"
| "foldA f (x # xs) a = bindA (f x a) (foldA f xs)"

lemma bindA_simps [simp]:
  "bindA (retA a) f = f a"
  "bindA (liftA (Inr a)) f = f a"
  "bindA (liftA (Inl e)) f = liftA (Inl e)"
  by (simp_all add: bindA_def retA_def liftA_def fun_eq_iff)

lemma bindA_assoc: "bindA (bindA m f) g = bindA m (\<lambda>a. bindA (f a) g)"
  by (auto simp: bindA_def fun_eq_iff split: prod.splits sum.splits)

lemma bindA_eq_Inr:
  "bindA m f s = (Inr b, s') \<longleftrightarrow> (\<exists>a t. m s = (Inr a, t) \<and> f a t = (Inr b, s'))"
  by (auto simp: bindA_def split: prod.splits sum.splits)

lemma retA_eq [simp]: "retA a s = (r, s') \<longleftrightarrow> r = Inr a \<and> s' = s"
  by (auto simp: retA_def)

lemma liftA_eq [simp]: "liftA r s = (r', s') \<longleftrightarrow> r' = r \<and> s' = s"
  by (auto simp: liftA_def)

lemma foldA_append: "foldA f (xs @ ys) a = bindA (foldA f xs a) (foldA f ys)"
proof (induction xs arbitrary: a)
  case (Cons x xs)
  then have "foldA f (xs @ ys) = (\<lambda>a. bindA (foldA f xs a) (foldA f ys))" by (simp add: fun_eq_iff)
  then show ?case by (simp add: bindA_assoc)
qed simp

text \<open>An invariant of the value is kept by a fold if every step keeps it.\<close>

lemma foldA_invariant:
  assumes "\<And>x a s b s'. x \<in> set xs \<Longrightarrow> I a \<Longrightarrow> f x a s = (Inr b, s') \<Longrightarrow> I b"
    and "I a" "foldA f xs a s = (Inr b, s')"
  shows "I b"
  using assms
proof (induction xs arbitrary: a s)
  case (Cons x xs)
  from Cons.prems(3) obtain a' t where step: "f x a s = (Inr a', t)" "foldA f xs a' t = (Inr b, s')"
    by (auto simp: bindA_eq_Inr)
  show ?case
  proof (rule Cons.IH)
    show "I a'" using Cons.prems(1) [OF _ Cons.prems(2) step(1)] by simp
    show "foldA f xs a' t = (Inr b, s')" by (rule step(2))
    show "I d" if "z \<in> set xs" "I c" "f z c u = (Inr d, v)" for z c u d v
      using Cons.prems(1) [OF _ that(2,3)] that(1) by simp
  qed
qed auto

section \<open>Go maps\<close>

type_synonym ('k, 'v) gomap = "('k \<times> 'v) list"

abbreviation gm_get :: "('k, 'v) gomap \<Rightarrow> 'k \<Rightarrow> 'v option" where
  "gm_get m k \<equiv> map_of m k"

abbreviation gm_put :: "'k \<Rightarrow> 'v \<Rightarrow> ('k, 'v) gomap \<Rightarrow> ('k, 'v) gomap" where
  "gm_put k v m \<equiv> AList.update k v m"

abbreviation gm_del :: "'k \<Rightarrow> ('k, 'v) gomap \<Rightarrow> ('k, 'v) gomap" where
  "gm_del k m \<equiv> AList.delete k m"

definition gm_wf :: "('k, 'v) gomap \<Rightarrow> bool" where
  "gm_wf m \<longleftrightarrow> distinct (map fst m)"

lemma gm_wf_Nil [simp, intro]: "gm_wf []"
  by (simp add: gm_wf_def)

lemma gm_wf_put [simp, intro]: "gm_wf m \<Longrightarrow> gm_wf (gm_put k v m)"
  by (simp add: gm_wf_def distinct_update)

lemma gm_wf_del [simp, intro]: "gm_wf m \<Longrightarrow> gm_wf (gm_del k m)"
  by (simp add: gm_wf_def distinct_delete)

lemma gm_wf_filter [simp, intro]: "gm_wf m \<Longrightarrow> gm_wf (filter P m)"
  by (simp add: gm_wf_def distinct_map_filter)

lemma gm_get_filter_key: "map_of (filter (\<lambda>kv. P (fst kv)) m) k = (if P k then map_of m k else None)"
  by (induction m) auto

lemma gm_get_SomeD: "gm_get m k = Some v \<Longrightarrow> (k, v) \<in> set m"
  by (rule map_of_SomeD)

lemma gm_get_iff: "gm_wf m \<Longrightarrow> gm_get m k = Some v \<longleftrightarrow> (k, v) \<in> set m"
  by (simp add: gm_wf_def)

lemma gm_keys_conv: "k \<in> fst ` set m \<longleftrightarrow> gm_get m k \<noteq> None"
  by (induction m) auto

text \<open>
  The contract a store of keyed values gives its clients: what a read returns after a write or
  a delete, and that both keep the store well formed. The snapshot and the vote pool only use
  their maps through it.
\<close>

locale keyed_store =
  fixes empty :: 'm
    and get :: "'m \<Rightarrow> 'k \<Rightarrow> 'v option"
    and put :: "'k \<Rightarrow> 'v \<Rightarrow> 'm \<Rightarrow> 'm"
    and del :: "'k \<Rightarrow> 'm \<Rightarrow> 'm"
    and wf :: "'m \<Rightarrow> bool"
  assumes get_empty: "get empty k = None"
    and get_put: "wf m \<Longrightarrow> get (put k v m) k' = (if k' = k then Some v else get m k')"
    and get_del: "wf m \<Longrightarrow> get (del k m) k' = (if k' = k then None else get m k')"
    and wf_empty: "wf empty"
    and wf_put: "wf m \<Longrightarrow> wf (put k v m)"
    and wf_del: "wf m \<Longrightarrow> wf (del k m)"
begin

lemma wf_del_all: "wf m \<Longrightarrow> wf (fold del ks m)"
  by (induction ks arbitrary: m) (auto intro: wf_del)

lemma get_del_all:
  "wf m \<Longrightarrow> get (fold del ks m) k = (if k \<in> set ks then None else get m k)"
  by (induction ks arbitrary: m) (auto simp: get_del wf_del)

lemma wf_put_all: "wf m \<Longrightarrow> wf (fold (\<lambda>(k, v). put k v) kvs m)"
  by (induction kvs arbitrary: m) (auto intro: wf_put)

lemma get_put_all:
  "wf m \<Longrightarrow> distinct (map fst kvs) \<Longrightarrow>
    get (fold (\<lambda>(k, v). put k v) kvs m) k =
      (case map_of kvs k of None \<Rightarrow> get m k | Some v \<Rightarrow> Some v)"
proof (induction kvs arbitrary: m)
  case (Cons kv kvs)
  obtain k0 v0 where kv: "kv = (k0, v0)" by fastforce
  with Cons.prems have "map_of kvs k0 = None"
    by (simp add: map_of_eq_None_iff)
  with Cons kv show ?case
    by (cases "map_of kvs k") (auto simp: get_put wf_put)
qed simp

lemma del_put_commute:
  "wf m \<Longrightarrow> k \<noteq> k' \<Longrightarrow> get (del k (put k' v m)) = get (put k' v (del k m))"
  by (auto simp: get_put get_del wf_put wf_del)

end

interpretation gm: keyed_store "[]" map_of AList.update AList.delete gm_wf
  by unfold_locales (auto simp: update_conv' delete_conv' gm_wf_def distinct_update distinct_delete)

lemma length_gm_put:
  "length (gm_put k v m) = (if gm_get m k = None then Suc (length m) else length m)"
  by (induction m) auto

lemma length_gm_del_le: "length (gm_del k m) \<le> length m"
  by (induction m) auto

section \<open>Bytes and numbers\<close>

text \<open>Big-endian reading and writing; \<open>be_bytes n\<close> keeps the low \<open>n\<close> bytes.\<close>

definition be_nat :: "bytes \<Rightarrow> nat" where
  "be_nat bs = foldl (\<lambda>a b. a * 256 + unat b) 0 bs"

primrec be_bytes :: "nat \<Rightarrow> nat \<Rightarrow> bytes" where
  "be_bytes 0 x = []"
| "be_bytes (Suc n) x = be_bytes n (x div 256) @ [of_nat (x mod 256)]"

text \<open>\<open>binary.LittleEndian.Uint64\<close> and \<open>PutUint64\<close>.\<close>

primrec le_nat :: "bytes \<Rightarrow> nat" where
  "le_nat [] = 0"
| "le_nat (b # bs) = unat b + 256 * le_nat bs"

primrec le_bytes :: "nat \<Rightarrow> nat \<Rightarrow> bytes" where
  "le_bytes 0 x = []"
| "le_bytes (Suc n) x = of_nat (x mod 256) # le_bytes n (x div 256)"

lemma length_be_bytes [simp]: "length (be_bytes n x) = n"
  by (induction n arbitrary: x) auto

lemma length_le_bytes [simp]: "length (le_bytes n x) = n"
  by (induction n arbitrary: x) auto

lemma be_nat_Nil [simp]: "be_nat [] = 0"
  by (simp add: be_nat_def)

lemma be_nat_snoc [simp]: "be_nat (bs @ [b]) = be_nat bs * 256 + unat b"
  by (simp add: be_nat_def)

lemma unat_byte_of_mod [simp]: "unat (of_nat (x mod 256) :: byte) = x mod 256"
  by (rule unat_of_nat_small) simp

lemma byte_of_nat_unat: "(of_nat ((k * 256 + unat b) mod 256) :: byte) = b"
proof -
  have "(k * 256 + unat b) mod 256 = unat b"
    using unat_u8_less [of b] by simp
  then show ?thesis by simp
qed

lemma be_nat_be_bytes: "be_nat (be_bytes n x) = x mod 256 ^ n"
proof (induction n arbitrary: x)
  case (Suc n)
  have "x mod (256 ^ n * 256) = 256 * (x div 256 mod 256 ^ n) + x mod 256"
    using mod_mult2_eq [of x 256 "256 ^ n"] by (simp add: mult.commute)
  with Suc show ?case by (simp add: mult.commute)
qed simp

lemma be_nat_less: "be_nat bs < 256 ^ length bs"
proof (induction bs rule: rev_induct)
  case (snoc b bs)
  have "be_nat bs * 256 + unat b < (be_nat bs + 1) * 256"
    using unat_u8_less [of b] by simp
  also have "\<dots> \<le> 256 ^ length bs * 256"
    using snoc by (intro mult_right_mono) auto
  finally show ?case by (simp add: mult.commute)
qed simp

lemma be_bytes_be_nat: "length bs = n \<Longrightarrow> be_bytes n (be_nat bs) = bs"
proof (induction bs arbitrary: n rule: rev_induct)
  case (snoc b bs)
  then obtain m where m: "n = Suc m" "length bs = m" by auto
  have "(be_nat bs * 256 + unat b) div 256 = be_nat bs"
    using unat_u8_less [of b] by simp
  with snoc.IH [OF m(2)] m(1) show ?case
    by (simp add: byte_of_nat_unat)
qed simp

lemma le_nat_le_bytes: "le_nat (le_bytes n x) = x mod 256 ^ n"
proof (induction n arbitrary: x)
  case (Suc n)
  have "x mod (256 * 256 ^ n) = 256 * (x div 256 mod 256 ^ n) + x mod 256"
    by (rule mod_mult2_eq)
  with Suc show ?case by simp
qed simp

text \<open>\<open>common.BytesToAddress\<close> crops from the left and pads with zeros on the left; \<open>Bytes()\<close>
  is the 20-byte big-endian form. BLS public keys are copied into 48 bytes.\<close>

definition BytesToAddress :: "bytes \<Rightarrow> address" where
  "BytesToAddress bs = of_nat (be_nat bs)"

definition addrBytes :: "address \<Rightarrow> bytes" where
  "addrBytes a = be_bytes 20 (unat a)"

definition BytesToBlsKey :: "bytes \<Rightarrow> blskey" where
  "BytesToBlsKey bs = of_nat (be_nat bs)"

definition blsBytes :: "blskey \<Rightarrow> bytes" where
  "blsBytes k = be_bytes 48 (unat k)"

lemma length_addrBytes [simp]: "length (addrBytes a) = 20"
  by (simp add: addrBytes_def)

lemma length_blsBytes [simp]: "length (blsBytes a) = 48"
  by (simp add: blsBytes_def)

lemma BytesToAddress_addrBytes [simp]: "BytesToAddress (addrBytes a) = a"
proof -
  have "unat a < 256 ^ 20" using unat_less_exp [of a] by simp
  then show ?thesis
    by (simp add: BytesToAddress_def addrBytes_def be_nat_be_bytes)
qed

lemma BytesToBlsKey_blsBytes [simp]: "BytesToBlsKey (blsBytes k) = k"
proof -
  have "unat k < 256 ^ 48" using unat_less_exp [of k] by simp
  then show ?thesis
    by (simp add: BytesToBlsKey_def blsBytes_def be_nat_be_bytes)
qed

section \<open>Slices\<close>

text \<open>\<open>xs[a:b]\<close>. Go panics unless \<open>a \<le> b \<le> len\<close>; \<open>slice\<close> is used where the guard of the code
  ensures that, \<open>sliceC\<close> where a caller can break it.\<close>

definition slice :: "'a list \<Rightarrow> nat \<Rightarrow> nat \<Rightarrow> 'a list" where
  "slice xs a b = take (b - a) (drop a xs)"

definition sliceC :: "'a list \<Rightarrow> nat \<Rightarrow> nat \<Rightarrow> 'a list option" where
  "sliceC xs a b = (if a \<le> b \<and> b \<le> length xs then Some (slice xs a b) else None)"

lemma length_slice: "a \<le> b \<Longrightarrow> b \<le> length xs \<Longrightarrow> length (slice xs a b) = b - a"
  by (simp add: slice_def)

lemma slice_append3:
  "length xs = a \<Longrightarrow> a + length ys = b \<Longrightarrow> slice (xs @ ys @ zs) a b = ys"
  by (auto simp: slice_def)

lemma slice_append_left:
  "b \<le> length xs \<Longrightarrow> slice (xs @ ys) a b = slice xs a b"
  by (simp add: slice_def)

end
