(* ===== verification/Rlp_Encode.thy ===== *)
theory Rlp_Encode
  imports Prelude
begin

text \<open>
  The RLP encoder (\<open>rlp/encode.go\<close>, \<open>rlp/encbuffer.go\<close>). A Go value that is RLP-encodable is an
  \<open>rval\<close>, its static type an \<open>rtype\<close>; \<open>makeWriter\<close> is the writer the package derives from the type
  by reflection. The buffer keeps string data and list headers apart (\<open>str\<close>, \<open>lheads\<close>) and merges
  them in \<open>copyTo\<close>. The lemmas show that this two-pass scheme produces the textbook encoding
  \<open>enc\<close>, in which the header of a list is written in front of its finished payload.

  Lengths of buffers are \<open>nat\<close>: they are Go \<open>int\<close>s bounded by the size of allocated memory. An
  \<open>rval\<close> slice is a non-nil slice.
\<close>

section \<open>Types, values, errors\<close>

datatype rtype =
    TUint nat
  | TBool
  | TBigInt
  | TBytes
  | TArray nat
  | TPtr rtype
  | TPtrNil rtype
  | TSlice rtype
  | TStruct "rtype list" nat

text \<open>\<open>TUint bits\<close> is an unsigned integer of that width, \<open>TBigInt\<close> is \<open>*big.Int\<close>, \<open>TBytes\<close> is
  \<open>[]byte\<close> (or \<open>string\<close>), \<open>TArray n\<close> is \<open>[n]byte\<close>, \<open>TPtrNil\<close> is a pointer field with the \<open>nil\<close>
  tag, and the fields of \<open>TStruct ts k\<close> from index \<open>k\<close> on are the ones with the \<open>optional\<close> tag.\<close>

datatype rval =
    VUint u64
  | VBool bool
  | VBigInt "int option"
  | VBytes bytes
  | VArray bytes
  | VPtr "rval option"
  | VSlice "rval list"
  | VStruct "rval list"

datatype rlp_error =
    EOL | ErrExpectedString | ErrExpectedList | ErrCanonInt | ErrCanonSize | ErrElemTooLarge
  | ErrValueTooLarge | ErrMoreThanOneValue | errNotInList | errNotAtEOL | errUintOverflow
  | EOF | ErrUnexpectedEOF | ErrNegativeBigInt | DecodeError string
  | IllTyped
  | OutOfFuel

text \<open>\<open>DecodeError msg\<close> is a \<open>decodeError\<close> without its type and context. \<open>IllTyped\<close> is a value
  that does not have the static type (reflection rules it out) and \<open>OutOfFuel\<close> the bound of a loop;
  both are shown never to occur.\<close>

section \<open>Integer and header encoding\<close>

text \<open>\<open>bits.Len64\<close> and \<open>BitLen\<close>: the number of bits without leading zeros.\<close>

fun bitLen :: "nat \<Rightarrow> nat" where
  "bitLen n = (if n = 0 then 0 else Suc (bitLen (n div 2)))"

declare bitLen.simps [simp del]

definition intsize :: "u64 \<Rightarrow> nat" where
  "intsize i = (if i = 0 then 1 else (bitLen (unat i) + 7) div 8)"

definition putint :: "u64 \<Rightarrow> bytes" where
  "putint i =
     (if i < 2 ^ 8 then [ucast i]
      else if i < 2 ^ 16 then [ucast (drop_bit 8 i), ucast i]
      else if i < 2 ^ 24 then [ucast (drop_bit 16 i), ucast (drop_bit 8 i), ucast i]
      else if i < 2 ^ 32 then
        [ucast (drop_bit 24 i), ucast (drop_bit 16 i), ucast (drop_bit 8 i), ucast i]
      else if i < 2 ^ 40 then
        [ucast (drop_bit 32 i), ucast (drop_bit 24 i), ucast (drop_bit 16 i), ucast (drop_bit 8 i),
         ucast i]
      else if i < 2 ^ 48 then
        [ucast (drop_bit 40 i), ucast (drop_bit 32 i), ucast (drop_bit 24 i), ucast (drop_bit 16 i),
         ucast (drop_bit 8 i), ucast i]
      else if i < 2 ^ 56 then
        [ucast (drop_bit 48 i), ucast (drop_bit 40 i), ucast (drop_bit 32 i), ucast (drop_bit 24 i),
         ucast (drop_bit 16 i), ucast (drop_bit 8 i), ucast i]
      else
        [ucast (drop_bit 56 i), ucast (drop_bit 48 i), ucast (drop_bit 40 i), ucast (drop_bit 32 i),
         ucast (drop_bit 24 i), ucast (drop_bit 16 i), ucast (drop_bit 8 i), ucast i])"

definition headsize :: "u64 \<Rightarrow> nat" where
  "headsize size' = (if size' < 56 then 1 else 1 + intsize size')"

definition puthead :: "byte \<Rightarrow> byte \<Rightarrow> u64 \<Rightarrow> bytes" where
  "puthead smalltag largetag size' =
     (if size' < 56 then [smalltag + ucast size']
      else (let b = putint size' in (largetag + of_nat (length b)) # b))"

section \<open>The encoder buffer\<close>

record listhead =
  lh_offset :: nat
  lh_size :: nat

record encBuffer =
  str :: bytes
  lheads :: "listhead list"
  lhsize :: nat

definition reset :: encBuffer where
  "reset = \<lparr> str = [], lheads = [], lhsize = 0 \<rparr>"

definition size_buf :: "encBuffer \<Rightarrow> nat" where
  "size_buf buf = length (str buf) + lhsize buf"

definition listhead_encode :: "listhead \<Rightarrow> bytes" where
  "listhead_encode h = puthead 0xC0 0xF7 (of_nat (lh_size h))"

fun copyLoop :: "bytes \<Rightarrow> nat \<Rightarrow> listhead list \<Rightarrow> bytes" where
  "copyLoop s strpos [] = drop strpos s"
| "copyLoop s strpos (head # heads) =
     slice s strpos (lh_offset head) @ listhead_encode head @ copyLoop s (lh_offset head) heads"

definition copyTo :: "encBuffer \<Rightarrow> bytes" where
  "copyTo buf = copyLoop (str buf) 0 (lheads buf)"

text \<open>The output has the size that the buffer has counted: what does not fit is not copied, what is not written stays zero.\<close>

definition makeBytes :: "encBuffer \<Rightarrow> bytes" where
  "makeBytes buf = (let out = copyTo buf; n = size_buf buf in take n out @ replicate (n - length out) 0)"

definition append_str :: "bytes \<Rightarrow> encBuffer \<Rightarrow> encBuffer" where
  "append_str b buf = buf\<lparr> str := str buf @ b \<rparr>"

definition encodeStringHeader :: "nat \<Rightarrow> encBuffer \<Rightarrow> encBuffer" where
  "encodeStringHeader n buf =
     (if n < 56 then append_str [0x80 + of_nat n] buf
      else (let b = putint (of_nat n) in append_str ((0xB7 + of_nat (length b)) # b) buf))"

definition writeBool :: "bool \<Rightarrow> encBuffer \<Rightarrow> encBuffer" where
  "writeBool b buf = append_str [if b then 0x01 else 0x80] buf"

definition writeUint64 :: "u64 \<Rightarrow> encBuffer \<Rightarrow> encBuffer" where
  "writeUint64 i buf =
     (if i = 0 then append_str [0x80] buf
      else if i < 128 then append_str [ucast i] buf
      else (let b = putint i in append_str ((0x80 + of_nat (length b)) # b) buf))"

definition writeBytes :: "bytes \<Rightarrow> encBuffer \<Rightarrow> encBuffer" where
  "writeBytes b buf =
     (if length b = 1 \<and> b ! 0 \<le> 0x7F then append_str [b ! 0] buf
      else append_str b (encodeStringHeader (length b) buf))"

text \<open>\<open>math.ReadBits\<close> fills the bytes from the little-endian words of the number, most significant
  byte first.\<close>

definition writeBigInt :: "int \<Rightarrow> encBuffer \<Rightarrow> encBuffer" where
  "writeBigInt i buf =
     (let bitlen = bitLen (nat \<bar>i\<bar>) in
      if bitlen \<le> 64 then writeUint64 (word_of_int \<bar>i\<bar>) buf
      else (let len = (bitlen + 7) div 8 in
        append_str (be_bytes len (nat \<bar>i\<bar>)) (encodeStringHeader len buf)))"

definition list_begin :: "encBuffer \<Rightarrow> nat \<times> encBuffer" where
  "list_begin buf =
     (let buf' = buf\<lparr> lheads := lheads buf @ [\<lparr> lh_offset = length (str buf), lh_size = lhsize buf \<rparr>] \<rparr>
      in (length (lheads buf') - 1, buf'))"

definition listEnd :: "nat \<Rightarrow> encBuffer \<Rightarrow> encBuffer" where
  "listEnd index buf =
     (let lh = lheads buf ! index;
          size' = size_buf buf - lh_offset lh - lh_size lh;
          buf' = buf\<lparr> lheads := (lheads buf)[index := lh\<lparr> lh_size := size' \<rparr>] \<rparr>
      in if size' < 56 then buf'\<lparr> lhsize := lhsize buf + 1 \<rparr>
         else buf'\<lparr> lhsize := lhsize buf + (1 + intsize (of_nat size')) \<rparr>)"

section \<open>Writers\<close>

text \<open>\<open>DefaultNilValue\<close>: what a nil pointer is written as.\<close>

definition typeNilKind :: "rtype \<Rightarrow> byte" where
  "typeNilKind t = (case t of TUint _ \<Rightarrow> 0x80 | TBool \<Rightarrow> 0x80 | TBytes \<Rightarrow> 0x80 | TArray _ \<Rightarrow> 0x80 | _ \<Rightarrow> 0xC0)"

text \<open>\<open>reflect.Value.IsZero\<close>.\<close>

fun isZero :: "rval \<Rightarrow> bool" where
  "isZero (VUint x) = (x = 0)"
| "isZero (VBool b) = (\<not> b)"
| "isZero (VBigInt i) = (i = None)"
| "isZero (VBytes b) = False"
| "isZero (VArray b) = (\<forall>x \<in> set b. x = 0)"
| "isZero (VPtr p) = (p = None)"
| "isZero (VSlice vs) = False"
| "isZero (VStruct vs) = list_all isZero vs"

type_synonym rlp_writer = "rval \<Rightarrow> encBuffer \<Rightarrow> rlp_error + encBuffer"

definition writeByteArray :: "bytes \<Rightarrow> encBuffer \<Rightarrow> encBuffer" where
  "writeByteArray b buf =
     (if length b = 0 then append_str [0x80] buf
      else if length b = 1 then
        (if b ! 0 \<le> 0x7f then append_str [b ! 0] buf else append_str [0x81, b ! 0] buf)
      else append_str b (encodeStringHeader (length b) buf))"

fun writeElems :: "rlp_writer \<Rightarrow> rval list \<Rightarrow> encBuffer \<Rightarrow> rlp_error + encBuffer" where
  "writeElems w [] buf = Inr buf"
| "writeElems w (v # vs) buf = bindE (w v buf) (writeElems w vs)"

fun writeFields :: "rlp_writer list \<Rightarrow> rval list \<Rightarrow> encBuffer \<Rightarrow> rlp_error + encBuffer" where
  "writeFields [] [] buf = Inr buf"
| "writeFields (w # ws) (v # vs) buf = bindE (w v buf) (writeFields ws vs)"
| "writeFields _ _ buf = Inl IllTyped"

text \<open>The number of fields that are written: trailing optional fields are dropped while they are
  zero.\<close>

fun lastField :: "rval list \<Rightarrow> nat \<Rightarrow> nat \<Rightarrow> nat" where
  "lastField vs firstOpt 0 = 0"
| "lastField vs firstOpt (Suc n) =
     (if firstOpt \<le> n \<and> isZero (vs ! n) then lastField vs firstOpt n else Suc n)"

fun makeWriter :: "rtype \<Rightarrow> rlp_writer" where
  "makeWriter (TUint bits) = (\<lambda>v buf. case v of VUint x \<Rightarrow> Inr (writeUint64 x buf) | _ \<Rightarrow> Inl IllTyped)"
| "makeWriter TBool = (\<lambda>v buf. case v of VBool b \<Rightarrow> Inr (writeBool b buf) | _ \<Rightarrow> Inl IllTyped)"
| "makeWriter TBigInt = (\<lambda>v buf. case v of
       VBigInt None \<Rightarrow> Inr (append_str [0x80] buf)
     | VBigInt (Some i) \<Rightarrow> if i < 0 then Inl ErrNegativeBigInt else Inr (writeBigInt i buf)
     | _ \<Rightarrow> Inl IllTyped)"
| "makeWriter TBytes = (\<lambda>v buf. case v of VBytes b \<Rightarrow> Inr (writeBytes b buf) | _ \<Rightarrow> Inl IllTyped)"
| "makeWriter (TArray n) = (\<lambda>v buf. case v of
       VArray b \<Rightarrow> if length b = n then Inr (writeByteArray b buf) else Inl IllTyped
     | _ \<Rightarrow> Inl IllTyped)"
| "makeWriter (TPtr t) = (\<lambda>v buf. case v of
       VPtr (Some x) \<Rightarrow> makeWriter t x buf
     | VPtr None \<Rightarrow> Inr (append_str [typeNilKind t] buf)
     | _ \<Rightarrow> Inl IllTyped)"
| "makeWriter (TPtrNil t) = (\<lambda>v buf. case v of
       VPtr (Some x) \<Rightarrow> makeWriter t x buf
     | VPtr None \<Rightarrow> Inr (append_str [typeNilKind t] buf)
     | _ \<Rightarrow> Inl IllTyped)"
| "makeWriter (TSlice t) = (\<lambda>v buf. case v of
       VSlice vs \<Rightarrow>
         if vs = [] then Inr (append_str [0xC0] buf)
         else (case list_begin buf of (lh, buf1) \<Rightarrow>
           bindE (writeElems (makeWriter t) vs buf1) (\<lambda>buf2. Inr (listEnd lh buf2)))
     | _ \<Rightarrow> Inl IllTyped)"
| "makeWriter (TStruct ts firstOpt) = (\<lambda>v buf. case v of
       VStruct vs \<Rightarrow>
         (let n = lastField vs firstOpt (length vs) in
          case list_begin buf of (lh, buf1) \<Rightarrow>
            if length vs \<noteq> length ts then Inl IllTyped
            else bindE (writeFields (take n (map makeWriter ts)) (take n vs) buf1)
                   (\<lambda>buf2. Inr (listEnd lh buf2)))
     | _ \<Rightarrow> Inl IllTyped)"

definition EncodeToBytes :: "rtype \<Rightarrow> rval \<Rightarrow> rlp_error + bytes" where
  "EncodeToBytes t v = bindE (makeWriter t v reset) (\<lambda>buf. Inr (makeBytes buf))"

section \<open>Minimal big-endian form\<close>

fun minBytes :: "nat \<Rightarrow> bytes" where
  "minBytes n = (if n = 0 then [] else minBytes (n div 256) @ [of_nat (n mod 256)])"

declare minBytes.simps [simp del]

lemma minBytes_0 [simp]: "minBytes 0 = []"
  by (subst minBytes.simps) simp

lemma minBytes_pos: "n \<noteq> 0 \<Longrightarrow> minBytes n = minBytes (n div 256) @ [of_nat (n mod 256)]"
  by (subst minBytes.simps) simp

lemma be_nat_minBytes [simp]: "be_nat (minBytes n) = n"
proof (induction n rule: minBytes.induct)
  case (1 n)
  then show ?case by (cases "n = 0") (simp_all add: minBytes_pos)
qed

lemma minBytes_Nil_iff [simp]: "minBytes n = [] \<longleftrightarrow> n = 0"
  by (cases "n = 0") (simp_all add: minBytes_pos)

lemma minBytes_unfold: "minBytes n = be_bytes (length (minBytes n)) n"
  using be_bytes_be_nat [of "minBytes n"] by simp

lemma length_minBytes_le: "length (minBytes n) \<le> k \<longleftrightarrow> n < 256 ^ k"
proof (induction n arbitrary: k rule: minBytes.induct)
  case (1 n)
  show ?case
  proof (cases "n = 0")
    case False
    then show ?thesis
    proof (cases k)
      case (Suc j)
      have "n div 256 < 256 ^ j \<longleftrightarrow> n < 256 ^ j * 256"
        by (rule div_less_iff_less_mult) simp
      with 1 [OF False, of j] False Suc show ?thesis by (simp add: minBytes_pos mult.commute)
    qed (simp add: minBytes_pos)
  qed simp
qed

lemma hd_minBytes: "n \<noteq> 0 \<Longrightarrow> hd (minBytes n) \<noteq> 0"
proof (induction n rule: minBytes.induct)
  case (1 n)
  show ?case
  proof (cases "n div 256 = 0")
    case True
    with 1(2) have "(of_nat (n mod 256) :: byte) \<noteq> 0" 
      by (metis be_nat_minBytes div_mult_mod_eq mod_div_trivial unat_byte_of_mod unat_0 add_0 mult_0)
    with True 1(2) show ?thesis by (simp add: minBytes_pos)
  next
    case False
    with 1 show ?thesis using minBytes_pos [of n] by (simp add: hd_append)
  qed
qed

lemma minBytes_be_nat: "bs = [] \<or> hd bs \<noteq> 0 \<Longrightarrow> minBytes (be_nat bs) = bs"
proof (induction bs rule: rev_induct)
  case (snoc b bs)
  have *: "(be_nat bs * 256 + unat b) div 256 = be_nat bs" "(be_nat bs * 256 + unat b) mod 256 = unat b"
    using unat_u8_less [of b] by simp_all
  show ?case
  proof (cases "bs = []")
    case True
    with snoc.prems have "unat b \<noteq> 0" by (simp add: unat_eq_0)
    with True * show ?thesis
      using minBytes_pos [of "unat b"] be_nat_snoc [of "[]" b] by simp
  next
    case False
    with snoc have IH: "minBytes (be_nat bs) = bs" by simp
    with False have "be_nat bs \<noteq> 0" by (metis minBytes_Nil_iff)
    with IH * show ?thesis by (simp add: minBytes_pos)
  qed
qed simp

lemma bitLen_le: "bitLen n \<le> k \<longleftrightarrow> n < 2 ^ k"
proof (induction n arbitrary: k rule: bitLen.induct)
  case (1 n)
  show ?case
  proof (cases "n = 0")
    case False
    then show ?thesis
    proof (cases k)
      case (Suc j)
      have "n div 2 < 2 ^ j \<longleftrightarrow> n < 2 ^ j * 2"
        by (rule div_less_iff_less_mult) simp
      with 1 [OF False, of j] False Suc show ?thesis
        by (subst bitLen.simps) (simp add: mult.commute)
    qed (subst bitLen.simps, simp)
  qed (simp add: bitLen.simps)
qed

lemma bitLen_bytes: "(bitLen n + 7) div 8 = length (minBytes n)"
proof -
  have "(bitLen n + 7) div 8 \<le> k \<longleftrightarrow> length (minBytes n) \<le> k" for k
  proof -
    have "(bitLen n + 7) div 8 \<le> k \<longleftrightarrow> bitLen n \<le> 8 * k" by linarith
    also have "\<dots> \<longleftrightarrow> n < 256 ^ k" by (simp add: bitLen_le power_mult)
    finally show ?thesis by (simp add: length_minBytes_le)
  qed
  then show ?thesis by (metis le_antisym order_refl)
qed

lemma intsize_eq: "i \<noteq> 0 \<Longrightarrow> intsize i = length (minBytes (unat i))"
  by (simp add: intsize_def bitLen_bytes)

lemma byte_of_nat_mod: "(of_nat (n mod 256) :: byte) = of_nat n"
  by (rule word_unat_eq_iff [THEN iffD2]) (simp add: unat_of_nat)

lemma unat_drop_bit: "unat (drop_bit k (i :: u64)) = unat i div 2 ^ k"
  using unat_drop_bit_eq [of k i] by (simp only: drop_bit_eq_div [where 'a = nat])

lemma ucast_drop_bit_byte: "(ucast (drop_bit k i) :: byte) = of_nat (unat (i :: u64) div 2 ^ k)"
  by (rule word_unat_eq_iff [THEN iffD2])
    (simp only: unat_of_nat unsigned_ucast_eq take_bit_eq_mod unat_drop_bit)

lemma ucast_byte: "(ucast i :: byte) = of_nat (unat (i :: u64))"
  using ucast_drop_bit_byte [of 0 i] by simp

lemma minBytes_range:
  assumes "256 ^ k \<le> n" "n < 256 ^ Suc k"
  shows "minBytes n = be_bytes (Suc k) n"
proof -
  have "length (minBytes n) = Suc k"
    using assms length_minBytes_le [of n k] length_minBytes_le [of n "Suc k"] by linarith
  then show ?thesis using minBytes_unfold by metis
qed

lemma be_bytes_numeral: "be_bytes (numeral n) x = be_bytes (pred_numeral n) (x div 256) @ [of_nat x]"
  by (simp add: numeral_eq_Suc [of n] byte_of_nat_mod)

lemmas putint_simps = putint_def word_less_nat_alt [where 'a = 64] ucast_byte unat_drop_bit
  byte_of_nat_mod be_bytes_numeral div_mult2_eq [symmetric]

lemma putint_range:
  assumes "k \<in> {0,1,2,3,4,5,6,7}" "256 ^ k \<le> unat i" "unat i < 256 ^ Suc k"
  shows "putint i = be_bytes (Suc k) (unat i)"
  using assms(1)
proof (elim insertE emptyE)
  assume "k = 0" with assms(2,3) show ?thesis by (simp add: putint_simps del: of_nat_unat)
next
  assume "k = 1" with assms(2,3) show ?thesis by (simp add: putint_simps del: of_nat_unat)
next
  assume "k = 2" with assms(2,3) show ?thesis by (simp add: putint_simps del: of_nat_unat)
next
  assume "k = 3" with assms(2,3) show ?thesis by (simp add: putint_simps del: of_nat_unat)
next
  assume "k = 4" with assms(2,3) show ?thesis by (simp add: putint_simps del: of_nat_unat)
next
  assume "k = 5" with assms(2,3) show ?thesis by (simp add: putint_simps del: of_nat_unat)
next
  assume "k = 6" with assms(2,3) show ?thesis by (simp add: putint_simps del: of_nat_unat)
next
  assume "k = 7" with assms(2,3) show ?thesis by (simp add: putint_simps del: of_nat_unat)
qed

lemma putint_eq:
  assumes "i \<noteq> 0"
  shows "putint i = minBytes (unat i)"
proof -
  obtain k where k: "length (minBytes (unat i)) = Suc k"
    using assms by (cases "length (minBytes (unat i))") (simp_all add: unat_eq_0)
  have "unat i < 256 ^ 8" using unat_u64_less [of i] by simp
  then have "k < 8" using length_minBytes_le [of "unat i" 8] k by simp
  then have "k \<in> {0,1,2,3,4,5,6,7}" by auto
  moreover have "256 ^ k \<le> unat i" "unat i < 256 ^ Suc k"
    using length_minBytes_le [of "unat i" k] length_minBytes_le [of "unat i" "Suc k"] k by linarith+
  ultimately show ?thesis
    using putint_range minBytes_range by metis
qed

section \<open>Reference encoding\<close>

definition encHead :: "byte \<Rightarrow> byte \<Rightarrow> nat \<Rightarrow> bytes" where
  "encHead smalltag largetag n =
     (if n < 56 then [smalltag + of_nat n]
      else (largetag + of_nat (length (minBytes n))) # minBytes n)"

definition encStr :: "bytes \<Rightarrow> bytes" where
  "encStr b = (if length b = 1 \<and> b ! 0 \<le> 0x7F then b else encHead 0x80 0xB7 (length b) @ b)"

definition encList :: "bytes \<Rightarrow> bytes" where
  "encList payload = encHead 0xC0 0xF7 (length payload) @ payload"

fun encFields :: "(rval \<Rightarrow> bytes) list \<Rightarrow> rval list \<Rightarrow> bytes" where
  "encFields (f # fs) (v # vs) = f v @ encFields fs vs"
| "encFields _ _ = []"

fun enc :: "rtype \<Rightarrow> rval \<Rightarrow> bytes" where
  "enc (TUint bits) = (\<lambda>v. case v of VUint x \<Rightarrow> encStr (minBytes (unat x)) | _ \<Rightarrow> [])"
| "enc TBool = (\<lambda>v. case v of VBool b \<Rightarrow> encStr (minBytes (if b then 1 else 0)) | _ \<Rightarrow> [])"
| "enc TBigInt = (\<lambda>v. case v of VBigInt i \<Rightarrow>
       encStr (minBytes (case i of None \<Rightarrow> 0 | Some k \<Rightarrow> nat k)) | _ \<Rightarrow> [])"
| "enc TBytes = (\<lambda>v. case v of VBytes b \<Rightarrow> encStr b | _ \<Rightarrow> [])"
| "enc (TArray n) = (\<lambda>v. case v of VArray b \<Rightarrow> encStr b | _ \<Rightarrow> [])"
| "enc (TPtr t) = (\<lambda>v. case v of VPtr (Some x) \<Rightarrow> enc t x | _ \<Rightarrow> [typeNilKind t])"
| "enc (TPtrNil t) = (\<lambda>v. case v of VPtr (Some x) \<Rightarrow> enc t x | _ \<Rightarrow> [typeNilKind t])"
| "enc (TSlice t) = (\<lambda>v. case v of VSlice vs \<Rightarrow> encList (concat (map (enc t) vs)) | _ \<Rightarrow> [])"
| "enc (TStruct ts firstOpt) = (\<lambda>v. case v of
       VStruct vs \<Rightarrow> (let n = lastField vs firstOpt (length vs) in
         encList (encFields (take n (map enc ts)) (take n vs)))
     | _ \<Rightarrow> [])"

fun hasFields :: "(rval \<Rightarrow> bool) list \<Rightarrow> rval list \<Rightarrow> bool" where
  "hasFields [] [] = True"
| "hasFields (p # ps) (v # vs) = (p v \<and> hasFields ps vs)"
| "hasFields _ _ = False"

fun hasType :: "rtype \<Rightarrow> rval \<Rightarrow> bool" where
  "hasType (TUint bits) = (\<lambda>v. case v of VUint x \<Rightarrow> unat x < 2 ^ bits | _ \<Rightarrow> False)"
| "hasType TBool = (\<lambda>v. case v of VBool b \<Rightarrow> True | _ \<Rightarrow> False)"
| "hasType TBigInt = (\<lambda>v. case v of
       VBigInt i \<Rightarrow> (case i of None \<Rightarrow> True | Some k \<Rightarrow> 0 \<le> k) | _ \<Rightarrow> False)"
| "hasType TBytes = (\<lambda>v. case v of VBytes b \<Rightarrow> True | _ \<Rightarrow> False)"
| "hasType (TArray n) = (\<lambda>v. case v of VArray b \<Rightarrow> length b = n | _ \<Rightarrow> False)"
| "hasType (TPtr t) = (\<lambda>v. case v of VPtr None \<Rightarrow> True | VPtr (Some x) \<Rightarrow> hasType t x | _ \<Rightarrow> False)"
| "hasType (TPtrNil t) = (\<lambda>v. case v of VPtr None \<Rightarrow> True | VPtr (Some x) \<Rightarrow> hasType t x | _ \<Rightarrow> False)"
| "hasType (TSlice t) = (\<lambda>v. case v of VSlice vs \<Rightarrow> list_all (hasType t) vs | _ \<Rightarrow> False)"
| "hasType (TStruct ts firstOpt) = (\<lambda>v. case v of
       VStruct vs \<Rightarrow> hasFields (map hasType ts) vs | _ \<Rightarrow> False)"

section \<open>The buffer renders the reference encoding\<close>

definition renders :: "nat \<Rightarrow> bytes \<Rightarrow> listhead list \<Rightarrow> bytes \<Rightarrow> bool" where
  "renders p s hs e \<longleftrightarrow>
     length s \<le> length e \<and> (\<forall>h \<in> set hs. p \<le> lh_offset h) \<and>
     (\<forall>P Z K. length P = p \<and> (\<forall>k \<in> set K. p + length s \<le> lh_offset k) \<longrightarrow>
        copyLoop (P @ s @ Z) p (hs @ K) = e @ copyLoop (P @ s @ Z) (p + length s) K)"

definition extended :: "encBuffer \<Rightarrow> bytes \<Rightarrow> listhead list \<Rightarrow> bytes \<Rightarrow> encBuffer" where
  "extended buf s hs e =
     \<lparr> str = str buf @ s, lheads = lheads buf @ hs, lhsize = lhsize buf + (length e - length s) \<rparr>"

definition emits :: "(encBuffer \<Rightarrow> rlp_error + encBuffer) \<Rightarrow> bytes \<Rightarrow> bool" where
  "emits w e \<longleftrightarrow> (\<forall>buf. \<exists>s hs. w buf = Inr (extended buf s hs e) \<and> renders (length (str buf)) s hs e)"

lemma emitsE:
  assumes "emits w e"
  obtains s hs where "w buf = Inr (extended buf s hs e)" "renders (length (str buf)) s hs e"
  using assms by (force simp: emits_def)

lemma emitsI:
  "(\<And>buf. \<exists>s hs. w buf = Inr (extended buf s hs e) \<and> renders (length (str buf)) s hs e) \<Longrightarrow> emits w e"
  by (simp add: emits_def)

lemma extended_simps [simp]:
  "str (extended buf s hs e) = str buf @ s"
  "lheads (extended buf s hs e) = lheads buf @ hs"
  "lhsize (extended buf s hs e) = lhsize buf + (length e - length s)"
  by (simp_all add: extended_def)

lemma slice_split: "a \<le> b \<Longrightarrow> b \<le> c \<Longrightarrow> slice xs a c = slice xs a b @ slice xs b c"
proof -
  assume "a \<le> b" "b \<le> c"
  then have "c - a = (b - a) + (c - b)" "b = (b - a) + a" by simp_all
  then show ?thesis
    unfolding slice_def by (metis drop_drop take_add)
qed

lemma copyLoop_skip:
  "p \<le> q \<Longrightarrow> \<forall>k \<in> set K. q \<le> lh_offset k \<Longrightarrow> copyLoop S p K = slice S p q @ copyLoop S q K"
proof (cases K)
  case Nil
  assume "p \<le> q"
  with Nil append_take_drop_id [of "q - p" "drop p S"] show ?thesis by (simp add: slice_def)
next
  case (Cons h hs)
  assume "p \<le> q" "\<forall>k \<in> set K. q \<le> lh_offset k"
  with Cons slice_split [of p q "lh_offset h" S] show ?thesis by simp
qed

lemma renders_string: "renders p s [] s"
  unfolding renders_def using copyLoop_skip [of p "p + length s"] by (simp add: slice_append3)

lemma renders_copyLoop:
  "renders p s hs e \<Longrightarrow> length P = p \<Longrightarrow> (\<And>k. k \<in> set K \<Longrightarrow> p + length s \<le> lh_offset k) \<Longrightarrow>
    copyLoop (P @ s @ Z) p (hs @ K) = e @ copyLoop (P @ s @ Z) (p + length s) K"
  by (simp add: renders_def)

lemma renders_offset: "renders p s hs e \<Longrightarrow> h \<in> set hs \<Longrightarrow> p \<le> lh_offset h"
  by (simp add: renders_def)

lemma renders_append:
  assumes "renders p s1 hs1 e1" "renders (p + length s1) s2 hs2 e2"
  shows "renders p (s1 @ s2) (hs1 @ hs2) (e1 @ e2)"
  unfolding renders_def
proof (intro conjI allI impI)
  show "length (s1 @ s2) \<le> length (e1 @ e2)" using assms by (simp add: renders_def add_mono)
  show "\<forall>h \<in> set (hs1 @ hs2). p \<le> lh_offset h" using assms by (force simp: renders_def)
  fix P Z :: bytes and K :: "listhead list"
  assume *: "length P = p \<and> (\<forall>k \<in> set K. p + length (s1 @ s2) \<le> lh_offset k)"
  have "copyLoop (P @ s1 @ s2 @ Z) p (hs1 @ hs2 @ K) = e1 @ copyLoop (P @ s1 @ s2 @ Z) (p + length s1) (hs2 @ K)"
    using * renders_offset [OF assms(2)] by (intro renders_copyLoop [OF assms(1)]) auto
  moreover have "copyLoop ((P @ s1) @ s2 @ Z) (p + length s1) (hs2 @ K)
      = e2 @ copyLoop ((P @ s1) @ s2 @ Z) (p + length s1 + length s2) K"
    using * by (intro renders_copyLoop [OF assms(2)]) auto
  ultimately show "copyLoop (P @ (s1 @ s2) @ Z) p ((hs1 @ hs2) @ K)
      = (e1 @ e2) @ copyLoop (P @ (s1 @ s2) @ Z) (p + length (s1 @ s2)) K"
    by (simp add: add.assoc)
qed

lemma renders_list:
  assumes "renders p s hs e"
  shows "renders p s (\<lparr> lh_offset = p, lh_size = n \<rparr> # hs) (listhead_encode \<lparr> lh_offset = p, lh_size = n \<rparr> @ e)"
  using assms by (auto simp: renders_def slice_def)

lemma emits_append_str: "emits (\<lambda>buf. Inr (append_str s buf)) s"
proof (rule emitsI)
  fix buf
  have "append_str s buf = extended buf s [] s"
    by (simp add: append_str_def extended_def)
  with renders_string show "\<exists>s' hs. Inr (append_str s buf) = Inr (extended buf s' hs s) \<and>
      renders (length (str buf)) s' hs s" by metis
qed

lemma emits_Inr: "emits Inr []"
proof -
  have "append_str [] = (\<lambda>buf. buf)" by (rule ext) (simp add: append_str_def)
  with emits_append_str [of "[]"] show ?thesis by simp
qed

lemma emits_bind:
  assumes "emits f e1" "emits g e2"
  shows "emits (\<lambda>buf. bindE (f buf) g) (e1 @ e2)"
proof (rule emitsI)
  fix buf
  obtain s1 hs1 where 1: "f buf = Inr (extended buf s1 hs1 e1)" "renders (length (str buf)) s1 hs1 e1"
    using assms(1) by (rule emitsE)
  obtain s2 hs2 where 2: "g (extended buf s1 hs1 e1) = Inr (extended (extended buf s1 hs1 e1) s2 hs2 e2)"
    "renders (length (str (extended buf s1 hs1 e1))) s2 hs2 e2"
    using assms(2) by (rule emitsE)
  have "length s1 \<le> length e1" "length s2 \<le> length e2" using 1(2) 2(2) by (auto simp: renders_def)
  then have "extended (extended buf s1 hs1 e1) s2 hs2 e2 = extended buf (s1 @ s2) (hs1 @ hs2) (e1 @ e2)"
    by (simp add: extended_def)
  moreover have "renders (length (str buf)) (s1 @ s2) (hs1 @ hs2) (e1 @ e2)"
    using 1(2) 2(2) by (auto intro: renders_append)
  ultimately show "\<exists>s hs. bindE (f buf) g = Inr (extended buf s hs (e1 @ e2)) \<and>
      renders (length (str buf)) s hs (e1 @ e2)"
    using 1(1) 2(1) by fastforce
qed

lemma emits_cong: "(\<And>buf. f buf = g buf) \<Longrightarrow> emits g e \<Longrightarrow> emits f e"
  by (simp add: emits_def)

lemma encHead_puthead:
  assumes "n < 2 ^ 64"
  shows "puthead sm lg (of_nat n) = encHead sm lg n"
proof -
  have u: "unat (of_nat n :: u64) = n" using assms by (rule unat_of_nat_u64)
  show ?thesis
  proof (cases "n < 56")
    case True
    with u have "(of_nat n :: u64) < 56" by (simp add: word_less_nat_alt)
    moreover have "(ucast (of_nat n :: u64) :: byte) = of_nat n" using u ucast_byte by metis
    ultimately show ?thesis using True by (simp add: puthead_def encHead_def)
  next
    case False
    with u have *: "\<not> (of_nat n :: u64) < 56" by (simp add: word_less_nat_alt)
    with False u have "(of_nat n :: u64) \<noteq> 0" by (metis unat_0 less_numeral_extra(3) not_less_iff_gr_or_eq zero_less_numeral)
    with * False u show ?thesis by (simp add: puthead_def encHead_def putint_eq Let_def)
  qed
qed

lemma length_encHead:
  assumes "n < 2 ^ 64"
  shows "length (encHead sm lg n) = (if n < 56 then 1 else 1 + intsize (of_nat n))"
proof -
  have u: "unat (of_nat n :: u64) = n" using assms by (rule unat_of_nat_u64)
  then have "(of_nat n :: u64) \<noteq> 0" if "\<not> n < 56" using that by fastforce
  with u show ?thesis by (simp add: encHead_def intsize_eq)
qed

lemma emits_list:
  assumes "emits f e" "length e < 2 ^ 64"
  shows "emits (\<lambda>buf. case list_begin buf of (lh, buf1) \<Rightarrow>
           bindE (f buf1) (\<lambda>buf2. Inr (listEnd lh buf2))) (encList e)"
proof (rule emitsI)
  fix buf :: encBuffer
  let ?b1 = "buf\<lparr> lheads := lheads buf @ [\<lparr> lh_offset = length (str buf), lh_size = lhsize buf \<rparr>] \<rparr>"
  let ?h = "\<lparr> lh_offset = length (str buf), lh_size = length e \<rparr>"
  obtain s hs where 1: "f ?b1 = Inr (extended ?b1 s hs e)" "renders (length (str ?b1)) s hs e"
    using assms(1) by (rule emitsE)
  have le: "length s \<le> length e" using 1(2) by (simp add: renders_def)
  have head: "listhead_encode ?h = encHead 0xC0 0xF7 (length e)"
    using encHead_puthead [OF assms(2)] by (simp add: listhead_encode_def)
  have "listEnd (length (lheads buf)) (extended ?b1 s hs e) = extended buf s (?h # hs) (encList e)"
    using le length_encHead [OF assms(2)]
    by (auto simp: listEnd_def extended_def size_buf_def encList_def Let_def nth_append list_update_append)
  moreover have "renders (length (str buf)) s (?h # hs) (encList e)"
    using renders_list [of "length (str buf)" s hs e "length e"] 1(2) head by (simp add: encList_def)
  ultimately show "\<exists>s hs. (case list_begin buf of (lh, buf1) \<Rightarrow>
         bindE (f buf1) (\<lambda>buf2. Inr (listEnd lh buf2))) = Inr (extended buf s hs (encList e)) \<and>
      renders (length (str buf)) s hs (encList e)"
    using 1(1) by (auto simp: list_begin_def Let_def)
qed

section \<open>Leaf writers\<close>

lemma append_str_append_str [simp]: "append_str a (append_str b buf) = append_str (b @ a) buf"
  by (simp add: append_str_def)

lemma encodeStringHeader_eq:
  "n < 2 ^ 64 \<Longrightarrow> encodeStringHeader n buf = append_str (encHead 0x80 0xB7 n) buf"
proof -
  assume n: "n < 2 ^ 64"
  then have u: "unat (of_nat n :: u64) = n" by (rule unat_of_nat_u64)
  then have "(of_nat n :: u64) \<noteq> 0" if "\<not> n < 56" using that by fastforce
  with u show ?thesis by (simp add: encodeStringHeader_def encHead_def putint_eq Let_def)
qed

lemma writeBytes_eq: "length b < 2 ^ 64 \<Longrightarrow> writeBytes b buf = append_str (encStr b) buf"
  by (auto simp: writeBytes_def encStr_def encodeStringHeader_eq length_Suc_conv)

lemma writeByteArray_eq: "length b < 2 ^ 64 \<Longrightarrow> writeByteArray b buf = append_str (encStr b) buf"
  by (auto simp: writeByteArray_def encStr_def encodeStringHeader_eq encHead_def length_Suc_conv)

lemma minBytes_small: "n < 256 \<Longrightarrow> n \<noteq> 0 \<Longrightarrow> minBytes n = [of_nat n]"
  by (simp add: minBytes_pos)

lemma byte_le_7F: "n < 256 \<Longrightarrow> (of_nat n :: byte) \<le> 0x7F \<longleftrightarrow> n < 128"
  using unat_of_nat_small [of n, where 'a = 8] by (simp add: word_le_nat_alt) linarith

lemma writeUint64_eq: "writeUint64 i buf = append_str (encStr (minBytes (unat i))) buf"
proof -
  have small: "length (minBytes (unat i)) \<le> 8"
    using unat_u64_less [of i] by (simp add: length_minBytes_le)
  consider "i = 0" | "i \<noteq> 0" "unat i < 128" | "i \<noteq> 0" "\<not> unat i < 128" by blast
  then show ?thesis
  proof cases
    case 1 then show ?thesis by (simp add: writeUint64_def encStr_def encHead_def)
  next
    case 2
    then have "minBytes (unat i) = [ucast i]" by (simp add: minBytes_small unat_eq_0)
    moreover have "(ucast i :: byte) \<le> 0x7F" using byte_le_7F [of "unat i"] 2 by simp
    ultimately show ?thesis using 2 by (simp add: writeUint64_def encStr_def word_less_nat_alt)
  next
    case 3
    have "\<not> (length (minBytes (unat i)) = 1 \<and> minBytes (unat i) ! 0 \<le> 0x7F)"
    proof
      assume *: "length (minBytes (unat i)) = 1 \<and> minBytes (unat i) ! 0 \<le> 0x7F"
      then have "unat i < 256" using length_minBytes_le [of "unat i" 1] by simp
      with * 3 show False by (simp add: minBytes_small unat_eq_0 byte_le_7F del: of_nat_unat)
    qed
    with 3 small show ?thesis
      by (auto simp: writeUint64_def encStr_def encHead_def word_less_nat_alt putint_eq Let_def)
  qed
qed

lemma writeBool_eq: "writeBool b buf = append_str (encStr (minBytes (if b then 1 else 0))) buf"
  by (simp add: writeBool_def encStr_def encHead_def minBytes_small)

lemma writeBigInt_eq:
  assumes "0 \<le> i" "length (minBytes (nat i)) < 2 ^ 64"
  shows "writeBigInt i buf = append_str (encStr (minBytes (nat i))) buf"
proof (cases "bitLen (nat i) \<le> 64")
  case True
  then have "i < 2 ^ 64" using bitLen_le [of "nat i" 64] assms(1) by simp
  then have "unat (word_of_int i :: u64) = nat i" using assms(1) by (simp add: unat_eq_nat_uint uint_word_of_int)
  with True assms(1) show ?thesis by (simp add: writeBigInt_def writeUint64_eq)
next
  case False
  then have "\<not> nat i < 256 ^ 8" using bitLen_le [of "nat i" 64] by simp
  then have "\<not> length (minBytes (nat i)) \<le> 8" using length_minBytes_le [of "nat i" 8] by blast
  with False assms show ?thesis
    using minBytes_unfold [of "nat i"]
    by (simp add: writeBigInt_def Let_def bitLen_bytes encodeStringHeader_eq encStr_def)
qed

section \<open>Writers emit the reference encoding\<close>

lemma encStr_length_ge: "length b \<le> length (encStr b)"
  by (simp add: encStr_def)

lemma encList_length_ge: "length b \<le> length (encList b)"
  by (simp add: encList_def)

lemma emits_elems:
  assumes "\<And>v. v \<in> set vs \<Longrightarrow> emits (w v) (f v)"
  shows "emits (writeElems w vs) (concat (map f vs))"
  using assms
proof (induction vs)
  case Nil
  then show ?case using emits_Inr by (auto intro: emits_cong)
next
  case (Cons v vs)
  then have "emits (\<lambda>buf. bindE (w v buf) (writeElems w vs)) (f v @ concat (map f vs))"
    by (intro emits_bind) auto
  then show ?case by (auto intro: emits_cong)
qed

lemma emits_fields:
  assumes "list_all2 (\<lambda>(w, f) v. emits (w v) (f v)) (zip ws fs) vs" "length ws = length fs"
  shows "emits (writeFields ws vs) (encFields fs vs)"
  using assms(2,1)
proof (induction ws fs arbitrary: vs rule: list_induct2)
  case Nil
  then show ?case using emits_Inr by (auto intro: emits_cong)
next
  case (Cons w ws f fs)
  then obtain v vs' where vs: "vs = v # vs'" "emits (w v) (f v)"
    "list_all2 (\<lambda>(w, f) v. emits (w v) (f v)) (zip ws fs) vs'"
    by (auto simp: list_all2_Cons1)
  with Cons.IH have "emits (\<lambda>buf. bindE (w v buf) (writeFields ws vs')) (f v @ encFields fs vs')"
    by (intro emits_bind) auto
  with vs(1) show ?case by (auto intro: emits_cong)
qed

lemma length_encFields_mem:
  "(f, v) \<in> set (zip fs vs) \<Longrightarrow> length (f v) \<le> length (encFields fs vs)"
  by (induction fs vs rule: encFields.induct) auto

lemma hasFields_conv:
  "hasFields ps vs \<longleftrightarrow> length ps = length vs \<and> (\<forall>(p, v) \<in> set (zip ps vs). p v)"
  by (induction ps vs rule: hasFields.induct) auto

lemma makeWriter_emits:
  "hasType t v \<Longrightarrow> length (enc t v) < 2 ^ 64 \<Longrightarrow> emits (makeWriter t v) (enc t v)"
proof (induction t arbitrary: v)
  case (TUint x)
  then show ?case by (auto simp: writeUint64_eq split: rval.splits intro!: emits_append_str)
next
  case TBool
  then show ?case by (auto simp: writeBool_eq split: rval.splits intro!: emits_append_str)
next
  case TBigInt
  from TBigInt.prems obtain i where v: "v = VBigInt i" "i = None \<or> (\<exists>k. i = Some k \<and> 0 \<le> k)"
    by (auto split: rval.splits option.splits)
  show ?case
  proof (cases i)
    case None
    with v(1) show ?thesis using emits_append_str [of "[0x80]"] by (simp add: encStr_def encHead_def)
  next
    case (Some k)
    with v TBigInt.prems(2) have "length (minBytes (nat k)) < 2 ^ 64"
      using encStr_length_ge [of "minBytes (nat k)"] by simp
    with v Some show ?thesis by (auto simp: writeBigInt_eq intro!: emits_append_str)
  qed
next
  case TBytes
  then obtain b where v: "v = VBytes b" by (auto split: rval.splits)
  with TBytes.prems(2) encStr_length_ge [of b] have "length b < 2 ^ 64" by simp
  with v show ?case by (auto simp: writeBytes_eq intro!: emits_append_str)
next
  case (TArray n)
  then obtain b where v: "v = VArray b" "length b = n" by (auto split: rval.splits)
  with TArray.prems(2) encStr_length_ge [of b] have "length b < 2 ^ 64" by simp
  with v show ?case by (auto simp: writeByteArray_eq intro!: emits_append_str)
next
  case (TPtr t)
  then show ?case by (auto split: rval.splits option.splits intro!: emits_append_str)
next
  case (TPtrNil t)
  then show ?case by (auto split: rval.splits option.splits intro!: emits_append_str)
next
  case (TSlice t)
  then obtain vs where v: "v = VSlice vs" "list_all (hasType t) vs" by (auto split: rval.splits)
  have len: "length (concat (map (enc t) vs)) < 2 ^ 64"
    using TSlice.prems(2) v(1) encList_length_ge [of "concat (map (enc t) vs)"] by simp
  have "length (enc t x) \<le> length (concat (map (enc t) vs))" if "x \<in> set vs" for x
    using that by (induction vs) auto
  then have "emits (writeElems (makeWriter t) vs) (concat (map (enc t) vs))"
    using v(2) len by (intro emits_elems TSlice.IH) (auto simp: list_all_iff intro: le_less_trans)
  from emits_list [OF this len] v(1) show ?case
    using emits_append_str [of "[0xC0]"] by (cases "vs = []") (simp_all add: encList_def encHead_def)
next
  case (TStruct ts k)
  then obtain vs where v: "v = VStruct vs" "hasFields (map hasType ts) vs" by (auto split: rval.splits)
  define n where "n = lastField vs k (length vs)"
  let ?fs = "take n (map enc ts)" and ?ws = "take n (map makeWriter ts)" and ?vs = "take n vs"
  have len: "length (encFields ?fs ?vs) < 2 ^ 64"
    using TStruct.prems(2) v(1) encList_length_ge [of "encFields ?fs ?vs"] by (simp add: n_def Let_def)
  have lts: "length ts = length vs" using v(2) by (simp add: hasFields_conv)
  have "emits (makeWriter (ts ! i) (vs ! i)) (enc (ts ! i) (vs ! i))" if i: "i < n" "i < length vs" for i
  proof (rule TStruct.IH)
    show "ts ! i \<in> set ts" using i lts by simp
    have "(hasType (ts ! i), vs ! i) \<in> set (zip (map hasType ts) vs)"
      using i lts by (auto simp: in_set_zip intro!: exI [of _ i])
    with v(2) show "hasType (ts ! i) (vs ! i)" by (auto simp: hasFields_conv)
    have "(enc (ts ! i), vs ! i) \<in> set (zip ?fs ?vs)"
      using i lts by (auto simp: in_set_zip intro!: exI [of _ i])
    from length_encFields_mem [OF this] len show "length (enc (ts ! i) (vs ! i)) < 2 ^ 64" by simp
  qed
  then have "emits (writeFields ?ws ?vs) (encFields ?fs ?vs)"
    using lts by (intro emits_fields) (auto simp: list_all2_conv_all_nth)
  from emits_list [OF this len] show ?case
    using v(1) lts by (auto simp: n_def Let_def intro: emits_cong)
qed

lemma EncodeToBytes_enc:
  assumes "hasType t v" "length (enc t v) < 2 ^ 64"
  shows "EncodeToBytes t v = Inr (enc t v)"
proof -
  obtain s hs where 1: "makeWriter t v reset = Inr (extended reset s hs (enc t v))"
    "renders (length (str reset)) s hs (enc t v)"
    using makeWriter_emits [OF assms] by (rule emitsE)
  have "length s \<le> length (enc t v)" using 1(2) by (simp add: renders_def)
  with renders_copyLoop [OF 1(2), of "[]" "[]" "[]"] 1(1) show ?thesis
    by (simp add: EncodeToBytes_def makeBytes_def copyTo_def size_buf_def reset_def)
qed

text \<open>C3. The encoder that keeps list headers apart from the string data and merges them at the end
  produces exactly the reference encoding, for every value of the given type whose encoding is
  shorter than \<open>2 ^ 64\<close> bytes.\<close>

theorem EncodeToBytes_correct:
  assumes "hasType t v" "length (enc t v) < 2 ^ 64"
  shows "EncodeToBytes t v = Inr (enc t v)"
  using assms by (rule EncodeToBytes_enc)

theorem EncodeToBytes_correct_witness:
  "EncodeToBytes (TStruct [TUint 64, TSlice TBytes] 2) (VStruct [VUint 1024, VSlice [VBytes [5], VBytes [200, 1]]])
   = Inr [0xC8, 0x82, 4, 0, 0xC4, 5, 0x82, 200, 1]"
proof -
  let ?t = "TStruct [TUint 64, TSlice TBytes] 2"
  let ?v = "VStruct [VUint 1024, VSlice [VBytes [5], VBytes [200, 1]]]"
  have "enc ?t ?v = [0xC8, 0x82, 4, 0, 0xC4, 5, 0x82, 200, 1]" by code_simp
  moreover have "hasType ?t ?v" by simp
  ultimately show ?thesis using EncodeToBytes_correct [of ?t ?v] by simp
qed

end
