(* ===== verification/Rlp_Roundtrip.thy ===== *)
theory Rlp_Roundtrip
  imports Rlp_Decode
begin

text \<open>
  Decoding an encoding gives the value back. \<open>reads dec bs v\<close> says that a reader, on any stream whose
  input starts with \<open>bs\<close> and whose limits leave room for it, returns \<open>v\<close> and moves behind \<open>bs\<close>; it is
  shown for the primitive readers, then for lists and structs, then for every type.
\<close>

section \<open>Moving through the input\<close>

definition ready :: "nat \<Rightarrow> Stream \<Rightarrow> bool" where
  "ready n s \<longleftrightarrow> n \<le> length (sr s) \<and> (limited s \<longrightarrow> n \<le> remaining s) \<and>
     (case stack s of [] \<Rightarrow> True | l # ls \<Rightarrow> n \<le> unat l)"

definition moved :: "nat \<Rightarrow> Stream \<Rightarrow> Stream \<Rightarrow> bool" where
  "moved n s s' \<longleftrightarrow> sr s' = drop n (sr s) \<and> limited s' = limited s \<and>
     (limited s \<longrightarrow> remaining s' = remaining s - n) \<and>
     stack s' = (case stack s of [] \<Rightarrow> [] | l # ls \<Rightarrow> (l - of_nat n) # ls)"

lemma unat_minus_of_nat: "n \<le> unat (l :: u64) \<Longrightarrow> unat (l - of_nat n) = unat l - n"
proof -
  assume n: "n \<le> unat l"
  then have "unat (of_nat n :: u64) = n" using unat_u64_less [of l] by (intro unat_of_nat_u64) linarith
  with n show ?thesis by (simp add: unat_sub word_le_nat_alt)
qed

lemma ready_moved: "ready (a + b) s \<Longrightarrow> moved a s s' \<Longrightarrow> ready b s'"
  by (auto simp: ready_def moved_def unat_minus_of_nat split: list.splits)

lemma moved_trans: "moved a s s' \<Longrightarrow> moved b s' s'' \<Longrightarrow> moved (a + b) s s''"
  by (auto simp: moved_def drop_drop add.commute algebra_simps split: list.splits)

lemma moved_0: "moved 0 s s' \<longleftrightarrow> sr s' = sr s \<and> limited s' = limited s \<and>
    (limited s \<longrightarrow> remaining s' = remaining s) \<and> stack s' = stack s"
  by (auto simp: moved_def split: list.splits)

lemma ready_mono: "ready n s \<Longrightarrow> m \<le> n \<Longrightarrow> ready m s"
  by (auto simp: ready_def split: list.splits)

lemma willRead_ready:
  "ready n s \<Longrightarrow> \<exists>s'. willRead n s = Inr s' \<and> moved n s (s'\<lparr> sr := drop n (sr s) \<rparr>) \<and> kind s' = None \<and> sr s' = sr s"
  by (auto simp: ready_def moved_def willRead_def Let_def listLimit_def set_top_def split: list.splits)

lemma readFull_ready:
  assumes "ready (length bs) s" "sr s = bs @ rest"
  shows "\<exists>s'. readFull (length bs) s = Inr (bs, s') \<and> moved (length bs) s s' \<and> kind s' = None"
  using willRead_ready [OF assms(1)] assms(2) by (auto simp: readFull_def)

lemma readByte_ready:
  assumes "ready 1 s" "sr s = b # rest"
  shows "\<exists>s'. readByte s = Inr (b, s') \<and> moved 1 s s' \<and> kind s' = None"
  using willRead_ready [OF assms(1)] assms(2) by (auto simp: readByte_def)

lemma moved_upd [simp]:
  "moved n s (s'\<lparr> kind := k \<rparr>) = moved n s s'"
  "moved n s (s'\<lparr> ssize := z \<rparr>) = moved n s s'"
  "moved n s (s'\<lparr> byteval := b \<rparr>) = moved n s s'"
  "moved n s (s'\<lparr> kinderr := e \<rparr>) = moved n s s'"
  by (simp_all add: moved_def)

lemma readUint_ready:
  assumes "ready (length bs) s" "sr s = bs @ rest" "length bs > 1 \<Longrightarrow> hd bs \<noteq> 0"
  shows "\<exists>s'. readUint (length bs) s = Inr (be_nat bs, s') \<and> moved (length bs) s s' \<and> kind s' = None"
proof -
  consider "bs = []" | b where "bs = [b]" | "length bs > 1" by (cases bs; cases "tl bs") auto
  then show ?thesis
  proof cases
    case 1 then show ?thesis by (auto simp: readUint_def moved_0)
  next
    case 2
    with assms readByte_ready [of s b rest] be_nat_snoc [of "[]" b] show ?thesis by (auto simp: readUint_def)
  next
    case 3
    then have "bs ! 0 \<noteq> 0" using assms(3) by (cases bs) auto
    with 3 readFull_ready [OF assms(1,2)] show ?thesis by (auto simp: readUint_def)
  qed
qed

section \<open>Reading headers\<close>

text \<open>The two header families: their tags and the kind they announce.\<close>

definition tags :: "Kind \<Rightarrow> byte \<times> byte" where
  "tags k = (if k = List then (0xC0, 0xF7) else (0x80, 0xB7))"

abbreviation tagHead :: "Kind \<Rightarrow> nat \<Rightarrow> bytes" where
  "tagHead k n \<equiv> encHead (fst (tags k)) (snd (tags k)) n"

lemma readKind_header:
  assumes "k \<noteq> Byte" "n < 2 ^ 64" "ready (length (tagHead k n)) s" "sr s = tagHead k n @ rest"
  shows "\<exists>s'. readKind s = Inr (k, n, s') \<and> moved (length (tagHead k n)) s s'"
proof (cases "n < 56")
  case True
  then have hd: "tagHead k n = [fst (tags k) + of_nat n]" by (simp add: encHead_def)
  obtain s' where s': "readByte s = Inr (fst (tags k) + of_nat n, s')" "moved 1 s s'"
    using readByte_ready [of s] assms(3,4) hd by auto
  have u: "unat (of_nat n :: byte) = n" using True by (intro unat_of_nat_small) simp
  have "unat (0x80 + of_nat n :: byte) = 128 + n" "unat (0xC0 + of_nat n :: byte) = 192 + n"
    using True u by (simp_all add: unat_word_ariths)
  with s' hd True u assms(1) show ?thesis
    by (cases k) (auto simp: readKind_def tags_def Let_def word_less_nat_alt unat_of_nat)
next
  case False
  then have hd: "tagHead k n = (snd (tags k) + of_nat (length (minBytes n))) # minBytes n" by (simp add: encHead_def)
  let ?m = "minBytes n"
  have m: "length ?m \<le> 8" "0 < length ?m" using assms(2) False length_minBytes_le [of n 8] by auto
  obtain s1 where s1: "readByte s = Inr (snd (tags k) + of_nat (length ?m), s1)" "moved 1 s s1"
    using readByte_ready [of s] assms(3,4) hd ready_mono [OF assms(3), of 1] by auto
  have r: "ready (length ?m) (s1\<lparr> byteval := 0 \<rparr>)"
    using ready_moved [of 1 "length ?m" s "s1\<lparr> byteval := 0 \<rparr>"] assms(3) hd s1(2) by simp
  have "sr (s1\<lparr> byteval := 0 \<rparr>) = ?m @ rest" using s1(2) assms(4) hd by (simp add: moved_def)
  from readUint_ready [OF r this] False obtain s2 where
    s2: "readUint (length ?m) (s1\<lparr> byteval := 0 \<rparr>) = Inr (n, s2)" "moved (length ?m) (s1\<lparr> byteval := 0 \<rparr>) s2"
    using hd_minBytes [of n] by auto
  have mv: "moved (1 + length ?m) s s2"
    using moved_trans [of 1 s "s1\<lparr> byteval := 0 \<rparr>" "length ?m" s2] s1(2) s2(2) by simp
  have u: "unat (of_nat (length ?m) :: byte) = length ?m" using m by (intro unat_of_nat_small) simp
  have "unat (0xB7 + of_nat (length ?m) :: byte) = 183 + length ?m" "unat (0xF7 + of_nat (length ?m) :: byte) = 247 + length ?m"
    using m u by (simp_all add: unat_word_ariths)
  with s1(1) s2(1) mv hd False m u assms(1) show ?thesis
    by (cases k) (auto simp: readKind_def tags_def Let_def word_less_nat_alt readLongSize_def unat_of_nat)
qed

lemma ready_listLimit: "ready n s \<Longrightarrow> 0 < n \<Longrightarrow> listLimit s \<noteq> Some 0"
  by (auto simp: ready_def listLimit_def split: list.splits)

lemma KindOf_header:
  assumes "kind s = None" "k \<noteq> Byte" "n < 2 ^ 64" "ready (length (tagHead k n) + n) s" "sr s = tagHead k n @ rest"
  shows "\<exists>s'. KindOf s = Inr (k, n, s') \<and> moved (length (tagHead k n)) s s'"
proof -
  have pos: "0 < length (tagHead k n)" by (simp add: encHead_def)
  obtain s1 where s1: "readKind s = Inr (k, n, s1)" "moved (length (tagHead k n)) s s1"
    using readKind_header [OF assms(2,3) _ assms(5)] ready_mono [OF assms(4)] by auto
  have "ready n s1" using ready_moved [OF assms(4) s1(2)] .
  moreover have "\<not> (case listLimit s of None \<Rightarrow> False | Some limit \<Rightarrow> n > unat limit)"
    using assms(4) by (auto simp: ready_def listLimit_def split: list.splits)
  ultimately show ?thesis
    using assms(1) s1 ready_listLimit [OF assms(4)] pos by (auto simp: KindOf_def ready_def)
qed

lemma KindOf_byte:
  assumes "kind s = None" "ready 1 s" "sr s = b # rest" "b \<le> 0x7F"
  shows "\<exists>s'. KindOf s = Inr (Byte, 0, s') \<and> moved 1 s s' \<and> byteval s' = b"
proof -
  obtain s1 where s1: "readByte s = Inr (b, s1)" "moved 1 s s1"
    using readByte_ready [OF assms(2,3)] by auto
  have b: "b < 0x80" using assms(4) by (simp add: word_le_nat_alt word_less_nat_alt)
  then have "readKind s = Inr (Byte, 0, s1\<lparr> byteval := 0 \<rparr>\<lparr> byteval := b \<rparr>)"
    using s1(1) by (simp add: readKind_def Let_def)
  with assms(1) s1(2) ready_listLimit [OF assms(2)] show ?thesis
    by (auto simp: KindOf_def listLimit_def split: list.splits)
qed

section \<open>Decoding an encoding\<close>

definition reads :: "(Stream \<Rightarrow> rlp_error + ('a \<times> Stream)) \<Rightarrow> bytes \<Rightarrow> 'a \<Rightarrow> bool" where
  "reads dec bs v \<longleftrightarrow> (\<forall>s rest. kind s = None \<and> ready (length bs) s \<and> sr s = bs @ rest \<longrightarrow>
     (\<exists>s'. dec s = Inr (v, s') \<and> moved (length bs) s s' \<and> kind s' = None))"

lemma readsI:
  "(\<And>s rest. kind s = None \<Longrightarrow> ready (length bs) s \<Longrightarrow> sr s = bs @ rest \<Longrightarrow>
     \<exists>s'. dec s = Inr (v, s') \<and> moved (length bs) s s' \<and> kind s' = None) \<Longrightarrow> reads dec bs v"
  by (simp add: reads_def)

lemma readsE:
  assumes "reads dec bs v" "kind s = None" "ready (length bs) s" "sr s = bs @ rest"
  obtains s' where "dec s = Inr (v, s')" "moved (length bs) s s'" "kind s' = None"
  using assms by (auto simp: reads_def)

text \<open>A string encoding is met as a single byte or as a header with its content behind it.\<close>

lemma reads_encStr:
  assumes "length b < 2 ^ 64"
    and byte: "\<And>s s'. KindOf s = Inr (Byte, 0, s') \<Longrightarrow> b = [byteval s'] \<Longrightarrow> byteval s' \<le> 0x7F \<Longrightarrow>
      dec s = Inr (v, rearm s')"
    and string: "\<And>s s' rest. KindOf s = Inr (String, length b, s') \<Longrightarrow> \<not> (length b = 1 \<and> b ! 0 \<le> 0x7F) \<Longrightarrow>
      ready (length b) s' \<Longrightarrow> sr s' = b @ rest \<Longrightarrow> \<exists>s''. dec s = Inr (v, s'') \<and> moved (length b) s' s'' \<and> kind s'' = None"
  shows "reads dec (encStr b) v"
proof (rule readsI)
  fix s rest assume s: "kind s = None" "ready (length (encStr b)) s" "sr s = encStr b @ rest"
  show "\<exists>s'. dec s = Inr (v, s') \<and> moved (length (encStr b)) s s' \<and> kind s' = None"
  proof (cases "length b = 1 \<and> b ! 0 \<le> 0x7F")
    case True
    then have e: "encStr b = b" "b = [b ! 0]" by (auto simp: encStr_def length_Suc_conv)
    then obtain s' where s': "KindOf s = Inr (Byte, 0, s')" "moved 1 s s'" "byteval s' = b ! 0"
      using KindOf_byte [of s "b ! 0" rest] s True by auto
    have "dec s = Inr (v, rearm s')"
      by (rule byte [OF s'(1)]) (use True e(2) s'(3) in simp_all)
    with s'(2) e(1) True show ?thesis by (auto simp: rearm_def)
  next
    case False
    then have e: "encStr b = tagHead String (length b) @ b" by (auto simp: encStr_def tags_def)
    obtain s' where s': "KindOf s = Inr (String, length b, s')" "moved (length (tagHead String (length b))) s s'"
      using KindOf_header [of s String "length b" "b @ rest"] s e assms(1) by auto
    have "ready (length b) s'" using ready_moved [OF _ s'(2)] s(2) e by simp
    moreover have "sr s' = b @ rest" using s'(2) s(3) e by (simp add: moved_def)
    ultimately obtain s'' where s'': "dec s = Inr (v, s'')" "moved (length b) s' s''" "kind s'' = None"
      using string [OF s'(1) False] by blast
    from moved_trans [OF s'(2) s''(2)] s'' e show ?thesis by auto
  qed
qed

lemma byte_lt_80: "(x :: byte) < 128 \<longleftrightarrow> x \<le> 0x7F"
  by (auto simp: word_less_nat_alt word_le_nat_alt)

lemma reads_Bytes: "length b < 2 ^ 64 \<Longrightarrow> reads Bytes (encStr b) b"
  by (rule reads_encStr) (auto simp: Bytes_def byte_lt_80 dest!: readFull_ready)

lemma reads_decodeByteArray: "length b < 2 ^ 64 \<Longrightarrow> reads (decodeByteArray (length b)) (encStr b) (VArray b)"
  by (rule reads_encStr) (auto simp: decodeByteArray_def byte_lt_80 dest!: readFull_ready)

lemma minBytes_single: "minBytes n = [b] \<Longrightarrow> n = unat b \<and> b \<noteq> 0"
  using be_nat_minBytes [of n] hd_minBytes [of n] be_nat_snoc [of "[]" b] by (cases "n = 0") auto

lemma minBytes_ge_128: "\<not> (length (minBytes n) = 1 \<and> minBytes n ! 0 \<le> 0x7F) \<Longrightarrow> n \<noteq> 0 \<Longrightarrow> 128 \<le> n"
  by (rule ccontr) (simp add: minBytes_small byte_le_7F)

lemma reads_uint_bits:
  assumes "n < 2 ^ bits" "8 dvd bits" "bits \<le> 64"
  shows "reads (uint_bits bits) (encStr (minBytes n)) n"
proof -
  have "(256 :: nat) ^ (bits div 8) = 2 ^ (8 * (bits div 8))" by (simp add: power_mult)
  then have len: "length (minBytes n) \<le> bits div 8"
    using assms(1,2) by (simp add: length_minBytes_le)
  show ?thesis
  proof (rule reads_encStr)
    show "length (minBytes n) < 2 ^ 64" using len assms(3) by simp
  next
    fix s s' assume "KindOf s = Inr (Byte, 0, s')" "minBytes n = [byteval s']"
    then show "uint_bits bits s = Inr (n, rearm s')"
      using minBytes_single [of n "byteval s'"] by (simp add: uint_bits_def)
  next
    fix s s' rest
    assume k: "KindOf s = Inr (String, length (minBytes n), s')" and ge: "\<not> (length (minBytes n) = 1 \<and> minBytes n ! 0 \<le> 0x7F)"
      and r: "ready (length (minBytes n)) s'" "sr s' = minBytes n @ rest"
    from readUint_ready [OF r] obtain s'' where "readUint (length (minBytes n)) s' = Inr (n, s'')"
      "moved (length (minBytes n)) s' s''" "kind s'' = None"
      using hd_minBytes [of n] by (cases "n = 0") auto
    with k len minBytes_ge_128 [OF ge] show "\<exists>s''. uint_bits bits s = Inr (n, s'') \<and>
        moved (length (minBytes n)) s' s'' \<and> kind s'' = None"
      by (auto simp: uint_bits_def)
  qed
qed

lemma reads_decodeBigIntBytes:
  assumes "length (minBytes n) < 2 ^ 64"
  shows "reads decodeBigIntBytes (encStr (minBytes n)) (minBytes n)"
proof (rule reads_encStr [OF assms])
  fix s s' assume "KindOf s = Inr (Byte, 0, s')" "minBytes n = [byteval s']"
  then show "decodeBigIntBytes s = Inr (minBytes n, rearm s')"
    using minBytes_single [of n "byteval s'"] by (simp add: decodeBigIntBytes_def)
next
  fix s s' rest
  assume k: "KindOf s = Inr (String, length (minBytes n), s')" and ge: "\<not> (length (minBytes n) = 1 \<and> minBytes n ! 0 \<le> 0x7F)"
    and r: "ready (length (minBytes n)) s'" "sr s' = minBytes n @ rest"
  have hd0: "minBytes n \<noteq> [] \<Longrightarrow> minBytes n ! 0 \<noteq> 0"
    using hd_minBytes [of n] by (simp add: hd_conv_nth)
  show "\<exists>s''. decodeBigIntBytes s = Inr (minBytes n, s'') \<and> moved (length (minBytes n)) s' s'' \<and> kind s'' = None"
  proof (cases "n = 0")
    case True
    with k show ?thesis by (auto simp: decodeBigIntBytes_def rearm_def moved_0)
  next
    case False
    with readFull_ready [OF r] k ge hd0 show ?thesis
      by (auto simp: decodeBigIntBytes_def byte_lt_80)
  qed
qed

lemma reads_wrapE: "reads dec bs a \<Longrightarrow> reads (\<lambda>s. wrapE (dec s) f) bs (f a)"
  by (fastforce simp: reads_def wrapE_def)

lemma reads_bind: "reads dec bs a \<Longrightarrow> reads (\<lambda>s. bindE (dec s) (\<lambda>(a, s). Inr (f a, s))) bs (f a)"
  by (fastforce simp: reads_def)

lemma reads_decodeBigInt:
  "length (minBytes n) < 2 ^ 64 \<Longrightarrow> reads decodeBigInt (encStr (minBytes n)) (int n)"
  using reads_bind [OF reads_decodeBigIntBytes, of n "\<lambda>b. int (be_nat b)"]
  by (simp add: decodeBigInt_def [abs_def])

lemma reads_Bool: "reads Bool (encStr (minBytes (if b then 1 else 0))) b"
  using reads_uint_bits [of "if b then 1 else 0" 8] by (fastforce simp: reads_def Bool_def)

section \<open>Lists\<close>

lemma list_frame:
  assumes s: "kind s = None" "ready (length (encList c)) s" "sr s = encList c @ rest" and c: "length c < 2 ^ 64"
  obtains s1 where "ListBegin s = Inr (length c, s1)" "kind s1 = None" "ready (length c) s1" "sr s1 = c @ rest"
    "listLimit s1 = Some (of_nat (length c))"
    "\<And>s2. moved (length c) s1 s2 \<Longrightarrow> listLimit s2 = Some 0 \<and>
       (\<exists>s3. ListEnd s2 = Inr s3 \<and> moved (length (encList c)) s s3 \<and> kind s3 = None)"
proof -
  let ?n = "length c" and ?h = "length (tagHead List (length c))"
  have e: "encList c = tagHead List ?n @ c" by (simp add: encList_def tags_def)
  obtain s0 where s0: "KindOf s = Inr (List, ?n, s0)" "moved ?h s s0"
    using KindOf_header [of s List ?n "c @ rest"] s c e by auto
  define s1 where "s1 = (case listLimit s0 of None \<Rightarrow> s0 | Some l \<Rightarrow> set_top (l - of_nat ?n) s0)
    \<lparr> stack := of_nat ?n # stack (case listLimit s0 of None \<Rightarrow> s0 | Some l \<Rightarrow> set_top (l - of_nat ?n) s0),
      kind := None, ssize := 0 \<rparr>"
  have st: "stack s1 = of_nat ?n # (case stack s0 of [] \<Rightarrow> [] | l # ls \<Rightarrow> (l - of_nat ?n) # ls)"
    "sr s1 = sr s0" "limited s1 = limited s0" "remaining s1 = remaining s0" "kind s1 = None"
    by (auto simp: s1_def listLimit_def set_top_def split: list.splits)
  have r0: "ready ?n s0" using ready_moved [OF _ s0(2)] s(2) e by simp
  show thesis
  proof (rule that)
    show "ListBegin s = Inr (?n, s1)" using s0(1) by (simp add: ListBegin_def s1_def Let_def)
    show "kind s1 = None" by (rule st)
    show "ready ?n s1" using r0 st unat_of_nat_u64 [OF c] by (simp add: ready_def)
    show "sr s1 = c @ rest" using st(2) s0(2) s(3) e by (simp add: moved_def)
    show "listLimit s1 = Some (of_nat ?n)" using st(1) by (simp add: listLimit_def)
    fix s2 assume s2: "moved ?n s1 s2"
    let ?s3 = "s2\<lparr> stack := tl (stack s2), kind := None, ssize := 0 \<rparr>"
    have "stack s2 = 0 # (case stack s0 of [] \<Rightarrow> [] | l # ls \<Rightarrow> (l - of_nat ?n) # ls)"
      using s2 st(1) by (simp add: moved_def)
    moreover from this have "moved ?n s0 ?s3" using s2 st by (simp add: moved_def)
    with s0(2) have "moved (?h + ?n) s ?s3" by (rule moved_trans)
    ultimately show "listLimit s2 = Some 0 \<and> (\<exists>s3. ListEnd s2 = Inr s3 \<and> moved (length (encList c)) s s3 \<and> kind s3 = None)"
      using e by (simp add: ListEnd_def listLimit_def)
  qed
qed

definition eol :: "(Stream \<Rightarrow> rlp_error + ('a \<times> Stream)) \<Rightarrow> bool" where
  "eol dec \<longleftrightarrow> (\<forall>s. kind s = None \<and> listLimit s = Some 0 \<longrightarrow> dec s = Inl EOL)"

lemma moved_listLimit:
  "moved a s s' \<Longrightarrow> listLimit s = Some (of_nat (a + b)) \<Longrightarrow> listLimit s' = Some (of_nat b)"
  by (auto simp: moved_def listLimit_def split: list.splits)

lemma reads_elems:
  assumes "\<And>v. v \<in> set vs \<Longrightarrow> reads dec (f v) v \<and> f v \<noteq> []" "eol dec"
    and "kind s = None" "ready (length (concat (map f vs))) s" "sr s = concat (map f vs) @ rest"
    and "listLimit s = Some (of_nat (length (concat (map f vs))))" "length vs < fuel"
  shows "\<exists>s'. decodeSliceElems fuel dec s = Inr (vs, s') \<and> moved (length (concat (map f vs))) s s'"
  using assms(1,3-)
proof (induction vs arbitrary: s fuel)
  case Nil
  then obtain fuel' where "fuel = Suc fuel'" by (cases fuel) auto
  moreover have "dec s = Inl EOL" using Nil assms(2) by (simp add: eol_def)
  ultimately show ?case by (auto simp: moved_0)
next
  case (Cons v vs)
  obtain fuel' where fuel: "fuel = Suc fuel'" using Cons.prems by (cases fuel) auto
  let ?a = "length (f v)" and ?b = "length (concat (map f vs))"
  obtain s1 where s1: "dec s = Inr (v, s1)" "moved ?a s s1" "kind s1 = None"
    using Cons.prems ready_mono [of "?a + ?b" s ?a] by (auto elim!: readsE [where rest = "concat (map f vs) @ rest"])
  have "\<exists>s'. decodeSliceElems fuel' dec s1 = Inr (vs, s') \<and> moved ?b s1 s'"
  proof (rule Cons.IH)
    show "ready ?b s1" using ready_moved [OF _ s1(2)] Cons.prems(3) by simp
    show "sr s1 = concat (map f vs) @ rest" using s1(2) Cons.prems(4) by (simp add: moved_def)
    show "listLimit s1 = Some (of_nat ?b)" using moved_listLimit [OF s1(2), of ?b] Cons.prems(5) by simp
  qed (use Cons.prems fuel s1 in auto)
  with s1 fuel moved_trans [OF s1(2)] show ?case by fastforce
qed

lemma length_concat_ge: "(\<And>v. v \<in> set vs \<Longrightarrow> f v \<noteq> []) \<Longrightarrow> length vs \<le> length (concat (map f vs))"
proof (induction vs)
  case (Cons v vs)
  then have "0 < length (f v)" "length vs \<le> length (concat (map f vs))" by simp_all
  then show ?case by (simp del: length_greater_0_conv)
qed simp

lemma reads_decodeListSlice:
  assumes "\<And>v. v \<in> set vs \<Longrightarrow> reads dec (f v) v \<and> f v \<noteq> []" "eol dec"
    and "length (concat (map f vs)) < 2 ^ 64"
  shows "reads (decodeListSlice dec) (encList (concat (map f vs))) (VSlice vs)"
proof (rule readsI)
  let ?c = "concat (map f vs)"
  fix s rest assume s: "kind s = None" "ready (length (encList ?c)) s" "sr s = encList ?c @ rest"
  obtain s1 where s1: "ListBegin s = Inr (length ?c, s1)" "kind s1 = None" "ready (length ?c) s1" "sr s1 = ?c @ rest"
    "listLimit s1 = Some (of_nat (length ?c))"
    and fin: "\<And>s2. moved (length ?c) s1 s2 \<Longrightarrow> listLimit s2 = Some 0 \<and>
       (\<exists>s3. ListEnd s2 = Inr s3 \<and> moved (length (encList ?c)) s s3 \<and> kind s3 = None)"
    using list_frame [OF s assms(3)] by blast
  have len: "length vs \<le> length ?c" using assms(1) by (intro length_concat_ge) blast
  show "\<exists>s'. decodeListSlice dec s = Inr (VSlice vs, s') \<and> moved (length (encList ?c)) s s' \<and> kind s' = None"
  proof (cases "length ?c = 0")
    case True
    with len have "vs = []" by simp
    with fin [of s1] True s1(1) show ?thesis by (auto simp: decodeListSlice_def moved_0)
  next
    case False
    obtain s2 where "decodeSliceElems (Suc (length (sr s1))) dec s1 = Inr (vs, s2)" "moved (length ?c) s1 s2"
      using reads_elems [OF assms(1,2) s1(2-5), of "Suc (length (sr s1))"] len s1(4) by auto
    with fin [of s2] False s1(1) show ?thesis by (auto simp: decodeListSlice_def)
  qed
qed

section \<open>Structs\<close>

lemma reads_fields:
  assumes "\<And>i. i < n \<Longrightarrow> reads (fst (flds ! i)) ((fs ! i) (vs ! i)) (vs ! i)"
    and "\<And>d. d \<in> set flds \<Longrightarrow> eol (fst d)"
    and "n \<le> length flds" "length fs = length flds" "length vs = length flds" "min nreq (length flds) \<le> n"
    and "drop n vs = map snd (drop n flds)"
    and "kind s = None" "ready (length (encFields (take n fs) (take n vs))) s"
    and "sr s = encFields (take n fs) (take n vs) @ rest"
    and "listLimit s = Some (of_nat (length (encFields (take n fs) (take n vs))))"
  shows "\<exists>s'. decodeFields flds nreq s = Inr (vs, s') \<and> moved (length (encFields (take n fs) (take n vs))) s s'"
  using assms
proof (induction flds arbitrary: n fs vs nreq s)
  case Nil
  then show ?case by (auto simp: moved_0)
next
  case (Cons fld flds)
  obtain dec z where fld: "fld = (dec, z)" by fastforce
  obtain f fs' v vs' where fv: "fs = f # fs'" "vs = v # vs'"
    using Cons.prems(4,5) by (cases fs; cases vs) auto
  show ?case
  proof (cases n)
    case 0
    then have "nreq = 0" using Cons.prems(6) by simp
    moreover have "dec s = Inl EOL" using Cons.prems(2) [of fld] Cons.prems(8,11) 0 fld by (simp add: eol_def)
    ultimately show ?thesis using Cons.prems(7) 0 fld fv by (auto simp: moved_0)
  next
    case (Suc m)
    let ?a = "length (f v)" and ?b = "length (encFields (take m fs') (take m vs'))"
    have rd: "reads dec (f v) v" using Cons.prems(1) [of 0] Suc fld fv by simp
    obtain s1 where s1: "dec s = Inr (v, s1)" "moved ?a s s1" "kind s1 = None"
      using readsE [OF rd Cons.prems(8), of "encFields (take m fs') (take m vs') @ rest"]
        ready_mono [OF Cons.prems(9), of ?a] Cons.prems(10) Suc fv by auto
    have "\<exists>s'. decodeFields flds (nreq - 1) s1 = Inr (vs', s') \<and> moved ?b s1 s'"
    proof (rule Cons.IH)
      show "reads (fst (flds ! i)) ((fs' ! i) (vs' ! i)) (vs' ! i)" if "i < m" for i
        using Cons.prems(1) [of "Suc i"] that Suc fv by simp
      show "ready ?b s1" using ready_moved [OF _ s1(2)] Cons.prems(9) Suc fv by simp
      show "sr s1 = encFields (take m fs') (take m vs') @ rest"
        using s1(2) Cons.prems(10) Suc fv by (simp add: moved_def)
      show "listLimit s1 = Some (of_nat ?b)" using moved_listLimit [OF s1(2), of ?b] Cons.prems(11) Suc fv by simp
    qed (use Cons.prems Suc fv s1 in auto)
    with s1 fld fv Suc moved_trans [OF s1(2)] show ?thesis by fastforce
  qed
qed

lemma reads_decodeStruct:
  assumes "\<And>i. i < n \<Longrightarrow> reads (fst (flds ! i)) ((fs ! i) (vs ! i)) (vs ! i)"
    and "\<And>d. d \<in> set flds \<Longrightarrow> eol (fst d)"
    and "n \<le> length flds" "length fs = length flds" "length vs = length flds" "min nreq (length flds) \<le> n"
    and "drop n vs = map snd (drop n flds)"
    and len: "length (encFields (take n fs) (take n vs)) < 2 ^ 64"
  shows "reads (decodeStruct flds nreq) (encList (encFields (take n fs) (take n vs))) (VStruct vs)"
proof (rule readsI)
  let ?c = "encFields (take n fs) (take n vs)"
  fix s rest assume s: "kind s = None" "ready (length (encList ?c)) s" "sr s = encList ?c @ rest"
  obtain s1 where s1: "ListBegin s = Inr (length ?c, s1)" "kind s1 = None" "ready (length ?c) s1" "sr s1 = ?c @ rest"
    "listLimit s1 = Some (of_nat (length ?c))"
    and fin: "\<And>s2. moved (length ?c) s1 s2 \<Longrightarrow> listLimit s2 = Some 0 \<and>
       (\<exists>s3. ListEnd s2 = Inr s3 \<and> moved (length (encList ?c)) s s3 \<and> kind s3 = None)"
    using list_frame [OF s len] by blast
  obtain s2 where "decodeFields flds nreq s1 = Inr (vs, s2)" "moved (length ?c) s1 s2"
    using reads_fields [OF assms(1-7) s1(2-5)] by blast
  with fin [of s2] s1(1) show "\<exists>s'. decodeStruct flds nreq s = Inr (VStruct vs, s') \<and>
      moved (length (encList ?c)) s s' \<and> kind s' = None"
    by (auto simp: decodeStruct_def)
qed

section \<open>Round trip\<close>

fun wfType :: "rtype \<Rightarrow> bool" where
  "wfType (TUint bits) = (bits \<in> {8, 16, 32, 64})"
| "wfType (TPtr t) = wfType t"
| "wfType (TPtrNil t) = wfType t"
| "wfType (TSlice t) = wfType t"
| "wfType (TStruct ts k) = list_all wfType ts"
| "wfType _ = True"

text \<open>Values the format can represent: no nil pointer where the decoder would allocate, and nothing
  encoded as an empty value behind a pointer with the \<open>nil\<close> tag.\<close>

fun decodable :: "rtype \<Rightarrow> rval \<Rightarrow> bool" where
  "decodable TBigInt = (\<lambda>v. v \<noteq> VBigInt None)"
| "decodable (TPtr t) = (\<lambda>v. case v of VPtr (Some x) \<Rightarrow> decodable t x | _ \<Rightarrow> False)"
| "decodable (TPtrNil t) = (\<lambda>v. case v of
       VPtr (Some x) \<Rightarrow> decodable t x \<and> hd (enc t x) \<noteq> 0x80 \<and> hd (enc t x) \<noteq> 0xC0
     | _ \<Rightarrow> True)"
| "decodable (TSlice t) = (\<lambda>v. case v of VSlice vs \<Rightarrow> list_all (decodable t) vs | _ \<Rightarrow> False)"
| "decodable (TStruct ts k) = (\<lambda>v. case v of
       VStruct vs \<Rightarrow> (let n = lastField vs k (length vs) in hasFields (take n (map decodable ts)) (take n vs))
     | _ \<Rightarrow> False)"
| "decodable _ = (\<lambda>v. True)"

lemma encStr_not_Nil [simp]: "encStr b \<noteq> []"
  by (auto simp: encStr_def encHead_def)

lemma encList_not_Nil [simp]: "encList b \<noteq> []"
  by (auto simp: encList_def encHead_def)

lemma enc_not_Nil: "hasType t v \<Longrightarrow> enc t v \<noteq> []"
  by (induction t arbitrary: v) (auto split: rval.splits option.splits simp: Let_def)

lemma KindOf_eol: "kind s = None \<Longrightarrow> listLimit s = Some 0 \<Longrightarrow> KindOf s = Inl EOL"
  by (simp add: KindOf_def)

lemma eol_makeDecoder: "eol (makeDecoder t)"
  by (induction t)
    (auto simp: eol_def wrapE_def wrapStreamError_def uint_bits_def Bool_def decodeBigInt_def
      decodeBigIntBytes_def Bytes_def decodeByteArray_def decodePtr_def decodeNilPtr_def
      decodeListSlice_def decodeStruct_def ListBegin_def KindOf_eol)

text \<open>A look at the next value does not change what a decoder reads.\<close>

definition peeks :: "(Stream \<Rightarrow> rlp_error + ('a \<times> Stream)) \<Rightarrow> bool" where
  "peeks dec \<longleftrightarrow> (\<forall>s s'. KindOf s = KindOf s' \<longrightarrow> dec s = dec s')"

lemma KindOf_idem: "KindOf s = Inr (k, n, s') \<Longrightarrow> KindOf s' = Inr (k, n, s')"
  by (auto simp: KindOf_def bindE_eq_Inr split: option.splits if_splits)

lemma ListBegin_peek: "KindOf s = KindOf s' \<Longrightarrow> ListBegin s = ListBegin s'"
  by (simp add: ListBegin_def)

lemma peeksI: "(\<And>s s'. KindOf s = KindOf s' \<Longrightarrow> dec s = dec s') \<Longrightarrow> peeks dec"
  unfolding peeks_def by blast

lemma peeksD: "peeks dec \<Longrightarrow> KindOf s = KindOf s' \<Longrightarrow> dec s = dec s'"
  unfolding peeks_def by blast

lemma peeks_makeDecoder: "peeks (makeDecoder t)"
proof (induction t)
  case (TUint bits) show ?case by (rule peeksI) (simp add: uint_bits_def)
next
  case TBool show ?case by (rule peeksI) (simp add: uint_bits_def Bool_def)
next
  case TBigInt show ?case by (rule peeksI) (simp add: decodeBigInt_def decodeBigIntBytes_def)
next
  case TBytes show ?case by (rule peeksI) (simp add: Bytes_def)
next
  case (TArray n) show ?case by (rule peeksI) (simp add: decodeByteArray_def)
next
  case (TPtr t)
  show ?case by (rule peeksI) (drule peeksD [OF TPtr], simp add: decodePtr_def)
next
  case (TPtrNil t) show ?case by (rule peeksI) (simp add: decodeNilPtr_def)
next
  case (TSlice t) show ?case by (rule peeksI) (drule ListBegin_peek, simp add: decodeListSlice_def)
next
  case (TStruct ts k) show ?case by (rule peeksI) (drule ListBegin_peek, simp add: decodeStruct_def)
qed

lemma KindOf_error: "KindOf s = Inl e \<Longrightarrow> \<exists>e'. makeDecoder t s = Inl e'"
  by (induction t)
    (auto simp: wrapE_def uint_bits_def Bool_def decodeBigInt_def
      decodeBigIntBytes_def Bytes_def decodeByteArray_def decodePtr_def decodeNilPtr_def
      decodeListSlice_def decodeStruct_def ListBegin_def)

lemma decoder_KindOf: "makeDecoder t s = Inr (v, s') \<Longrightarrow> \<exists>r. KindOf s = Inr r"
  using KindOf_error [of s _ t] by (cases "KindOf s") auto

lemma KindOf_empty:
  assumes "KindOf s = Inr (k, 0, s')" "k \<noteq> Byte" "kind s = None" "sr s = b # bs"
  shows "b = 0x80 \<or> b = 0xC0"
proof -
  obtain s'' where rk: "readKind s = Inr (k, 0, s'')"
    using assms(1,3) by (auto simp: KindOf_def bindE_eq_Inr split: if_splits)
  then obtain s1 where rb: "readByte s = Inr (b, s1)"
    using assms(4) by (auto simp: readKind_def readByte_def willRead_def Let_def bindE_eq_Inr set_top_def
        split: sum.splits option.splits if_splits list.splits)
  have "unat (b - 0x80) = 0 \<Longrightarrow> b = 0x80" "unat (b - 0xC0) = 0 \<Longrightarrow> b = 0xC0"
    by (simp_all add: unat_eq_0)
  with rk rb assms(2) show ?thesis
    by (auto simp: readKind_def Let_def readLongSize_def bindE_eq_Inr split: if_splits)
qed

lemma hasFields_nth: "hasFields ps vs \<Longrightarrow> i < length vs \<Longrightarrow> (ps ! i) (vs ! i)"
proof -
  assume h: "hasFields ps vs" and i: "i < length vs"
  then have "(ps ! i, vs ! i) \<in> set (zip ps vs)" by (auto simp: hasFields_conv in_set_zip)
  with h show ?thesis by (auto simp: hasFields_conv)
qed

lemma isZero_zeroVal: "hasType t v \<Longrightarrow> isZero v \<Longrightarrow> v = zeroVal t"
proof (induction t arbitrary: v)
  case (TArray n)
  then show ?case by (auto split: rval.splits intro: replicate_eqI)
next
  case (TStruct ts k)
  then obtain vs where v: "v = VStruct vs" "hasFields (map hasType ts) vs" "list_all isZero vs"
    by (auto split: rval.splits)
  have "vs = map zeroVal ts"
  proof (rule nth_equalityI)
    show "length vs = length (map zeroVal ts)" using v(2) by (simp add: hasFields_conv)
    fix i assume i: "i < length vs"
    moreover from v(2) have "length ts = length vs" by (simp add: hasFields_conv)
    ultimately have "hasType (ts ! i) (vs ! i)" "ts ! i \<in> set ts" "i < length ts"
      using hasFields_nth [OF v(2) i] by simp_all
    with TStruct.IH i v(3) show "vs ! i = map zeroVal ts ! i" by (simp add: list_all_length)
  qed
  with v(1) show ?case by simp
qed (auto split: rval.splits option.splits)

lemma lastField_facts:
  "lastField vs k n \<le> n \<and> min k n \<le> lastField vs k n \<and> (\<forall>i. lastField vs k n \<le> i \<and> i < n \<longrightarrow> isZero (vs ! i))"
  by (induction n) (auto simp: less_Suc_eq)

lemma encFields_nth_le:
  "i < length fs \<Longrightarrow> i < length vs \<Longrightarrow> length ((fs ! i) (vs ! i)) \<le> length (encFields fs vs)"
  by (rule length_encFields_mem) (auto simp: in_set_zip)

lemma typeNilKind_cases: "typeNilKind t = 0x80 \<or> typeNilKind t = 0xC0"
  by (cases t) (auto simp: typeNilKind_def)

lemma reads_decodeNilPtr_None: "reads (decodeNilPtr (typeNilKind t) dec) [typeNilKind t] (VPtr None)"
proof -
  define k where "k = (if typeNilKind t = 0xC0 then List else String)"
  have e: "[typeNilKind t] = tagHead k 0" "k \<noteq> Byte"
    using typeNilKind_cases [of t] by (auto simp: k_def tags_def encHead_def)
  have "reads (decodeNilPtr (typeNilKind t) dec) (tagHead k 0) (VPtr None)"
  proof (rule readsI)
    fix s rest assume "kind s = None" "ready (length (tagHead k 0)) s" "sr s = tagHead k 0 @ rest"
    then show "\<exists>s'. decodeNilPtr (typeNilKind t) dec s = Inr (VPtr None, s') \<and>
        moved (length (tagHead k 0)) s s' \<and> kind s' = None"
      using KindOf_header [of s k 0 rest] e(2) typeNilKind_cases [of t]
      by (auto simp: decodeNilPtr_def k_def rearm_def split: if_splits)
  qed
  with e(1) show ?thesis by simp
qed

lemma reads_decodeNilPtr_Some:
  assumes rd: "reads (makeDecoder t) e x" and hd: "e \<noteq> []" "hd e \<noteq> 0x80" "hd e \<noteq> 0xC0"
  shows "reads (decodeNilPtr nk (makeDecoder t)) e (VPtr (Some x))"
proof (rule readsI)
  fix s rest assume s: "kind s = None" "ready (length e) s" "sr s = e @ rest"
  obtain s1 where s1: "makeDecoder t s = Inr (x, s1)" "moved (length e) s s1" "kind s1 = None"
    using readsE [OF rd s] by blast
  obtain k n s0 where k: "KindOf s = Inr (k, n, s0)" using decoder_KindOf [OF s1(1)] by auto
  have "\<not> (k \<noteq> Byte \<and> n = 0)"
    using KindOf_empty [of s k s0 "hd e" "tl e @ rest"] k s(1,3) hd by auto
  moreover have "makeDecoder t s0 = makeDecoder t s"
    using k KindOf_idem [OF k] by (intro peeksD [OF peeks_makeDecoder]) simp
  ultimately show "\<exists>s'. decodeNilPtr nk (makeDecoder t) s = Inr (VPtr (Some x), s') \<and> moved (length e) s s' \<and> kind s' = None"
    using k s1 by (auto simp: decodeNilPtr_def)
qed

lemma reads_struct_step:
  assumes IH: "\<And>t v. t \<in> set ts \<Longrightarrow> wfType t \<Longrightarrow> hasType t v \<Longrightarrow> decodable t v \<Longrightarrow>
      length (enc t v) < 2 ^ 64 \<Longrightarrow> reads (makeDecoder t) (enc t v) v"
    and prems: "wfType (TStruct ts k)" "hasType (TStruct ts k) v" "decodable (TStruct ts k) v"
      "length (enc (TStruct ts k) v) < 2 ^ 64"
  shows "reads (makeDecoder (TStruct ts k)) (enc (TStruct ts k) v) v"
proof -
  from prems(2) obtain vs where v: "v = VStruct vs" "hasFields (map hasType ts) vs" by (auto split: rval.splits)
  define n where "n = lastField vs k (length vs)"
  have dec: "hasFields (take n (map decodable ts)) (take n vs)"
    using prems(3) v(1) by (simp add: n_def Let_def)
  have lts: "length ts = length vs" using v(2) by (simp add: hasFields_conv)
  have n: "n \<le> length vs" "min k (length vs) \<le> n" "\<And>i. n \<le> i \<Longrightarrow> i < length vs \<Longrightarrow> isZero (vs ! i)"
    using lastField_facts [of vs k "length vs"] by (auto simp: n_def)
  let ?c = "encFields (take n (map enc ts)) (take n vs)"
  have len: "length ?c < 2 ^ 64"
    using prems(4) v(1) encList_length_ge [of ?c] by (simp add: n_def Let_def)
  have ty: "hasType (ts ! i) (vs ! i)" if "i < length vs" for i
    using hasFields_nth [OF v(2) that] that lts by simp
  have rd: "reads (makeDecoder (ts ! i)) (enc (ts ! i) (vs ! i)) (vs ! i)" if i: "i < n" for i
  proof (rule IH)
    show "ts ! i \<in> set ts" using i n(1) lts by simp
    then show "wfType (ts ! i)" using prems(1) by (simp add: list_all_iff)
    show "hasType (ts ! i) (vs ! i)" using i n(1) by (intro ty) simp
    show "decodable (ts ! i) (vs ! i)" using hasFields_nth [OF dec, of i] i n(1) lts by simp
    show "length (enc (ts ! i) (vs ! i)) < 2 ^ 64"
      using encFields_nth_le [of i "take n (map enc ts)" "take n vs"] i n(1) lts len by simp
  qed
  have "drop n vs = map zeroVal (drop n ts)"
    using n(3) ty lts by (intro nth_equalityI) (auto intro: isZero_zeroVal)
  then have "reads (decodeStruct (map (\<lambda>t. (makeDecoder t, zeroVal t)) ts) k) (encList ?c) (VStruct vs)"
    using rd n lts len by (intro reads_decodeStruct) (auto simp: eol_makeDecoder o_def drop_map)
  then show ?thesis using v(1) by (simp add: n_def Let_def)
qed

lemma reads_makeDecoder:
  "wfType t \<Longrightarrow> hasType t v \<Longrightarrow> decodable t v \<Longrightarrow> length (enc t v) < 2 ^ 64 \<Longrightarrow>
    reads (makeDecoder t) (enc t v) v"
proof (induction t arbitrary: v)
  case (TUint bits)
  then obtain x where v: "v = VUint x" "unat x < 2 ^ bits" by (auto split: rval.splits)
  from TUint.prems(1) have "8 dvd bits" "bits \<le> 64" by auto
  with reads_wrapE [OF reads_uint_bits [OF v(2)], of "\<lambda>n. VUint (of_nat n)"] v(1) show ?case by simp
next
  case TBool
  then obtain b where v: "v = VBool b" by (auto split: rval.splits)
  with reads_wrapE [OF reads_Bool, of VBool b] show ?case by simp
next
  case TBigInt
  then obtain i where v: "v = VBigInt (Some i)" "0 \<le> i" by (auto split: rval.splits option.splits)
  with TBigInt.prems(4) have "length (minBytes (nat i)) < 2 ^ 64"
    using encStr_length_ge [of "minBytes (nat i)"] by simp
  with reads_wrapE [OF reads_decodeBigInt, of "nat i" "\<lambda>i. VBigInt (Some i)"] v show ?case by simp
next
  case TBytes
  then obtain b where v: "v = VBytes b" by (auto split: rval.splits)
  with TBytes.prems(4) encStr_length_ge [of b] have "length b < 2 ^ 64" by simp
  with reads_wrapE [OF reads_Bytes, of b VBytes] v show ?case by simp
next
  case (TArray n)
  then obtain b where v: "v = VArray b" "length b = n" by (auto split: rval.splits)
  with TArray.prems(4) encStr_length_ge [of b] have "length b < 2 ^ 64" by simp
  with reads_decodeByteArray [of b] v show ?case by simp
next
  case (TPtr t)
  then obtain x where v: "v = VPtr (Some x)" "hasType t x" "decodable t x" by (auto split: rval.splits option.splits)
  with TPtr have "reads (makeDecoder t) (enc t x) x" by simp
  from reads_bind [OF this, of "\<lambda>v. VPtr (Some v)"] v(1) show ?case by (simp add: decodePtr_def [abs_def])
next
  case (TPtrNil t)
  show ?case
  proof (cases "v = VPtr None")
    case True
    with reads_decodeNilPtr_None show ?thesis by simp
  next
    case False
    with TPtrNil.prems obtain x where v: "v = VPtr (Some x)" "hasType t x" "decodable t x"
      "hd (enc t x) \<noteq> 0x80" "hd (enc t x) \<noteq> 0xC0" by (auto split: rval.splits option.splits)
    then have "reads (makeDecoder t) (enc t x) x" using TPtrNil by simp
    from reads_decodeNilPtr_Some [OF this enc_not_Nil [OF v(2)] v(4,5)] v(1) show ?thesis by simp
  qed
next
  case (TSlice t)
  then obtain vs where v: "v = VSlice vs" "list_all (hasType t) vs" "list_all (decodable t) vs"
    by (auto split: rval.splits)
  have len: "length (concat (map (enc t) vs)) < 2 ^ 64"
    using TSlice.prems(4) v(1) encList_length_ge [of "concat (map (enc t) vs)"] by simp
  have le: "length (enc t x) \<le> length (concat (map (enc t) vs))" if "x \<in> set vs" for x
    using that by (induction vs) auto
  have "reads (makeDecoder t) (enc t x) x \<and> enc t x \<noteq> []" if x: "x \<in> set vs" for x
    using TSlice v x le [OF x] len enc_not_Nil by (auto simp: list_all_iff)
  from reads_decodeListSlice [OF this eol_makeDecoder len] v(1) show ?case by simp
next
  case (TStruct ts k)
  then show ?case by (rule reads_struct_step)
qed

lemma DecodeBytes_enc:
  assumes "wfType t" "hasType t v" "decodable t v" "length (enc t v) < 2 ^ 64"
  shows "DecodeBytes t (enc t v) = Inr v"
proof -
  let ?s = "Reset (enc t v) (length (enc t v)) False"
  have "kind ?s = None" "ready (length (enc t v)) ?s" "sr ?s = enc t v @ []"
    using enc_not_Nil [OF assms(2)] by (simp_all add: Reset_def ready_def)
  from readsE [OF reads_makeDecoder [OF assms] this] obtain s' where
    "makeDecoder t ?s = Inr (v, s')" "moved (length (enc t v)) ?s s'" by blast
  then show ?thesis by (simp add: DecodeBytes_def moved_def Reset_def)
qed

text \<open>C4. What the encoder writes the decoder reads back: for every value of a type that the format can
  represent, decoding its encoding succeeds and returns the value, with no trailing bytes.\<close>

theorem rlp_roundtrip:
  assumes "wfType t" "hasType t v" "decodable t v" "length (enc t v) < 2 ^ 64"
  shows "bindE (EncodeToBytes t v) (DecodeBytes t) = Inr v"
  using EncodeToBytes_enc [OF assms(2,4)] DecodeBytes_enc [OF assms] by simp

theorem rlp_roundtrip_witness:
  "bindE (EncodeToBytes (TStruct [TUint 64, TPtrNil (TArray 2), TSlice TBigInt, TPtr (TUint 8)] 3)
      (VStruct [VUint 1024, VPtr (Some (VArray [1, 2])), VSlice [VBigInt (Some 7), VBigInt (Some 300)], VPtr None]))
    (DecodeBytes (TStruct [TUint 64, TPtrNil (TArray 2), TSlice TBigInt, TPtr (TUint 8)] 3))
   = Inr (VStruct [VUint 1024, VPtr (Some (VArray [1, 2])), VSlice [VBigInt (Some 7), VBigInt (Some 300)], VPtr None])"
proof -
  let ?t = "TStruct [TUint 64, TPtrNil (TArray 2), TSlice TBigInt, TPtr (TUint 8)] 3"
  let ?v = "VStruct [VUint 1024, VPtr (Some (VArray [1, 2])), VSlice [VBigInt (Some 7), VBigInt (Some 300)], VPtr None]"
  have "enc ?t ?v = [0xCB, 0x82, 4, 0, 0x82, 1, 2, 0xC4, 7, 0x82, 1, 44]" by code_simp
  then have "length (enc ?t ?v) < 2 ^ 64" by simp
  moreover have "wfType ?t" "hasType ?t ?v" by simp_all
  moreover have "decodable ?t ?v" by code_simp
  ultimately show ?thesis by (intro rlp_roundtrip)
qed

end
