(* ===== verification/Params.thy ===== *)
theory Params
  imports Prelude
begin

text \<open>
  The chain configuration (\<open>params/config.go\<close>, \<open>params/forks/forks.go\<close>,
  \<open>params/protocol_params.go\<close>): which hard fork is active at a block, the check that a
  configuration schedules its forks in order (\<open>CheckConfigForkOrder\<close>), the check that a new
  configuration does not change the past of a stored chain (\<open>CheckCompatible\<close>), the blob schedule
  and the rule set handed to the EVM.

  A fork is scheduled by block number (\<open>*big.Int\<close>) or by timestamp (\<open>*uint64\<close>); nil, here
  \<open>None\<close>, is "not scheduled".
\<close>

section \<open>Protocol constants\<close>

definition GasLimitBoundDivisor :: u64 where "GasLimitBoundDivisor = 1024"
definition MinGasLimit :: u64 where "MinGasLimit = 5000"
definition SystemTxsGasHardLimit :: u64 where "SystemTxsGasHardLimit = 20000000"
definition SystemTxsGasSoftLimit :: u64 where "SystemTxsGasSoftLimit = 1000000"
definition DefaultBaseFeeChangeDenominator :: u64 where "DefaultBaseFeeChangeDenominator = 8"
definition DefaultElasticityMultiplier :: u64 where "DefaultElasticityMultiplier = 2"
definition InitialBaseFee :: int where "InitialBaseFee = 1000000000"
definition InitialBaseFeeForBSC :: int where "InitialBaseFeeForBSC = 2500000000000"
definition BlobTxBlobGasPerBlob :: u64 where "BlobTxBlobGasPerBlob = 131072"
definition BlobTxMinBlobGasprice :: int where "BlobTxMinBlobGasprice = 1"
definition BlobTxMinBlobGaspriceForBSC :: int where "BlobTxMinBlobGaspriceForBSC = 150000000000"
definition BlobBaseCost :: int where "BlobBaseCost = 8192"
definition BlobEligibleBlockInterval :: u64 where "BlobEligibleBlockInterval = 5"
definition BreatheBlockInterval :: u64 where "BreatheBlockInterval = 86400"
definition FullImmutabilityThreshold :: nat where "FullImmutabilityThreshold = 600000"

lemmas params_consts =
  GasLimitBoundDivisor_def MinGasLimit_def SystemTxsGasHardLimit_def SystemTxsGasSoftLimit_def
  DefaultBaseFeeChangeDenominator_def DefaultElasticityMultiplier_def InitialBaseFee_def
  InitialBaseFeeForBSC_def BlobTxBlobGasPerBlob_def BlobTxMinBlobGasprice_def
  BlobTxMinBlobGaspriceForBSC_def BlobBaseCost_def BlobEligibleBlockInterval_def
  BreatheBlockInterval_def FullImmutabilityThreshold_def

declare params_consts [evals]

text \<open>\<open>common/math.CeilDiv\<close>; Go's \<open>int\<close> division truncates, the arguments here are never negative.\<close>

definition CeilDiv :: "nat \<Rightarrow> nat \<Rightarrow> nat" where
  "CeilDiv x y = (if y = 0 then 0 else (x + y - 1) div y)"

section \<open>The configuration record\<close>

record ParliaConfig =
  Period :: u64
  Epoch :: u64

record CliqueConfig =
  CliquePeriod :: u64
  CliqueEpoch :: u64

record BlobConfig =
  Target :: int
  Max :: int
  UpdateFraction :: u64

record BlobScheduleConfig =
  CancunBlob :: "BlobConfig option"
  PragueBlob :: "BlobConfig option"
  OsakaBlob :: "BlobConfig option"
  VerkleBlob :: "BlobConfig option"
  BPO1Blob :: "BlobConfig option"
  BPO2Blob :: "BlobConfig option"
  BPO3Blob :: "BlobConfig option"
  BPO4Blob :: "BlobConfig option"
  BPO5Blob :: "BlobConfig option"
  AmsterdamBlob :: "BlobConfig option"

record ChainConfig =
  ChainID :: "int option"
  HomesteadBlock :: "int option"
  DAOForkBlock :: "int option"
  DAOForkSupport :: bool
  EIP150Block :: "int option"
  EIP155Block :: "int option"
  EIP158Block :: "int option"
  ByzantiumBlock :: "int option"
  ConstantinopleBlock :: "int option"
  PetersburgBlock :: "int option"
  IstanbulBlock :: "int option"
  MuirGlacierBlock :: "int option"
  BerlinBlock :: "int option"
  YoloV3Block :: "int option"
  CatalystBlock :: "int option"
  LondonBlock :: "int option"
  ArrowGlacierBlock :: "int option"
  GrayGlacierBlock :: "int option"
  MergeNetsplitBlock :: "int option"
  RuntimeUpgradeBlock :: "int option"
  DeployOriginBlock :: "int option"
  DeploymentHookFixBlock :: "int option"
  DeployerFactoryBlock :: "int option"
  Dragon8Time :: "u64 option"
  Dragon8FixTime :: "u64 option"
  Snake8Time :: "u64 option"
  Pepper8Time :: "u64 option"
  Pipe8Time :: "u64 option"
  DeployerProxySunsetTime :: "u64 option"
  ShanghaiTime :: "u64 option"
  KeplerTime :: "u64 option"
  FeynmanTime :: "u64 option"
  FeynmanFixTime :: "u64 option"
  CancunTime :: "u64 option"
  HaberTime :: "u64 option"
  HaberFixTime :: "u64 option"
  BohrTime :: "u64 option"
  PascalTime :: "u64 option"
  PragueTime :: "u64 option"
  LorentzTime :: "u64 option"
  MaxwellTime :: "u64 option"
  FermiTime :: "u64 option"
  OsakaTime :: "u64 option"
  MendelTime :: "u64 option"
  BPO1Time :: "u64 option"
  BPO2Time :: "u64 option"
  BPO3Time :: "u64 option"
  BPO4Time :: "u64 option"
  BPO5Time :: "u64 option"
  AmsterdamTime :: "u64 option"
  PasteurTime :: "u64 option"
  VerkleTime :: "u64 option"
  TerminalTotalDifficulty :: "int option"
  TerminalTotalDifficultyPassed :: bool
  DepositContractAddress :: address
  EnableVerkleAtGenesis :: bool
  RamanujanBlock :: "int option"
  NielsBlock :: "int option"
  MirrorSyncBlock :: "int option"
  BrunoBlock :: "int option"
  EulerBlock :: "int option"
  GibbsBlock :: "int option"
  NanoBlock :: "int option"
  MoranBlock :: "int option"
  PlanckBlock :: "int option"
  LubanBlock :: "int option"
  PlatoBlock :: "int option"
  HertzBlock :: "int option"
  HertzfixBlock :: "int option"
  Ethash :: "unit option"
  Clique :: "CliqueConfig option"
  Parlia :: "ParliaConfig option"
  BlobSchedule :: "BlobScheduleConfig option"

section \<open>Fork activation\<close>

definition isBlockForked :: "int option \<Rightarrow> int option \<Rightarrow> bool" where
  "isBlockForked s head =
     (case (s, head) of (Some s', Some h) \<Rightarrow> s' \<le> h | _ \<Rightarrow> False)"

definition isTimestampForked :: "u64 option \<Rightarrow> u64 \<Rightarrow> bool" where
  "isTimestampForked s head = (case s of None \<Rightarrow> False | Some s' \<Rightarrow> s' \<le> head)"

definition configBlockEqual :: "int option \<Rightarrow> int option \<Rightarrow> bool" where
  "configBlockEqual x y =
     (case x of None \<Rightarrow> y = None
      | Some x' \<Rightarrow> (case y of None \<Rightarrow> False | Some y' \<Rightarrow> x' = y'))"

definition configTimestampEqual :: "u64 option \<Rightarrow> u64 option \<Rightarrow> bool" where
  "configTimestampEqual x y =
     (case x of None \<Rightarrow> y = None
      | Some x' \<Rightarrow> (case y of None \<Rightarrow> False | Some y' \<Rightarrow> x' = y'))"

definition isForkBlockIncompatible :: "int option \<Rightarrow> int option \<Rightarrow> int option \<Rightarrow> bool" where
  "isForkBlockIncompatible s1 s2 head =
     ((isBlockForked s1 head \<or> isBlockForked s2 head) \<and> \<not> configBlockEqual s1 s2)"

definition isForkTimestampIncompatible :: "u64 option \<Rightarrow> u64 option \<Rightarrow> u64 \<Rightarrow> bool" where
  "isForkTimestampIncompatible s1 s2 head =
     ((isTimestampForked s1 head \<or> isTimestampForked s2 head) \<and> \<not> configTimestampEqual s1 s2)"

lemma configBlockEqual_iff [simp]: "configBlockEqual x y \<longleftrightarrow> x = y"
  by (auto simp: configBlockEqual_def split: option.splits)

lemma configTimestampEqual_iff [simp]: "configTimestampEqual x y \<longleftrightarrow> x = y"
  by (auto simp: configTimestampEqual_def split: option.splits)

lemma isBlockForked_simps [simp]:
  "isBlockForked None h = False"
  "isBlockForked s None = False"
  "isBlockForked (Some s') (Some h') = (s' \<le> h')"
  by (auto simp: isBlockForked_def split: option.splits)

lemma isTimestampForked_simps [simp]:
  "isTimestampForked None h = False"
  "isTimestampForked (Some s') h = (s' \<le> h)"
  by (auto simp: isTimestampForked_def)

lemma isBlockForked_mono: "isBlockForked s (Some h) \<Longrightarrow> h \<le> h' \<Longrightarrow> isBlockForked s (Some h')"
  by (cases s) auto

lemma isTimestampForked_mono: "isTimestampForked s t \<Longrightarrow> t \<le> t' \<Longrightarrow> isTimestampForked s t'"
  by (cases s) auto

subsection \<open>Forks scheduled by block number\<close>

definition IsHomestead :: "ChainConfig \<Rightarrow> int option \<Rightarrow> bool" where
  "IsHomestead c num = isBlockForked (HomesteadBlock c) num"

definition IsDAOFork :: "ChainConfig \<Rightarrow> int option \<Rightarrow> bool" where
  "IsDAOFork c num = isBlockForked (DAOForkBlock c) num"

definition IsEIP150 :: "ChainConfig \<Rightarrow> int option \<Rightarrow> bool" where
  "IsEIP150 c num = isBlockForked (EIP150Block c) num"

definition IsEIP155 :: "ChainConfig \<Rightarrow> int option \<Rightarrow> bool" where
  "IsEIP155 c num = isBlockForked (EIP155Block c) num"

definition IsEIP158 :: "ChainConfig \<Rightarrow> int option \<Rightarrow> bool" where
  "IsEIP158 c num = isBlockForked (EIP158Block c) num"

definition IsByzantium :: "ChainConfig \<Rightarrow> int option \<Rightarrow> bool" where
  "IsByzantium c num = isBlockForked (ByzantiumBlock c) num"

definition IsConstantinople :: "ChainConfig \<Rightarrow> int option \<Rightarrow> bool" where
  "IsConstantinople c num = isBlockForked (ConstantinopleBlock c) num"

definition IsRamanujan :: "ChainConfig \<Rightarrow> int option \<Rightarrow> bool" where
  "IsRamanujan c num = isBlockForked (RamanujanBlock c) num"

definition IsNiels :: "ChainConfig \<Rightarrow> int option \<Rightarrow> bool" where
  "IsNiels c num = isBlockForked (NielsBlock c) num"

definition IsMirrorSync :: "ChainConfig \<Rightarrow> int option \<Rightarrow> bool" where
  "IsMirrorSync c num = isBlockForked (MirrorSyncBlock c) num"

definition IsBruno :: "ChainConfig \<Rightarrow> int option \<Rightarrow> bool" where
  "IsBruno c num = isBlockForked (BrunoBlock c) num"

definition IsEuler :: "ChainConfig \<Rightarrow> int option \<Rightarrow> bool" where
  "IsEuler c num = isBlockForked (EulerBlock c) num"

definition IsLuban :: "ChainConfig \<Rightarrow> int option \<Rightarrow> bool" where
  "IsLuban c num = isBlockForked (LubanBlock c) num"

definition IsPlato :: "ChainConfig \<Rightarrow> int option \<Rightarrow> bool" where
  "IsPlato c num = isBlockForked (PlatoBlock c) num"

definition IsHertz :: "ChainConfig \<Rightarrow> int option \<Rightarrow> bool" where
  "IsHertz c num = isBlockForked (HertzBlock c) num"

definition IsHertzfix :: "ChainConfig \<Rightarrow> int option \<Rightarrow> bool" where
  "IsHertzfix c num = isBlockForked (HertzfixBlock c) num"

definition IsMuirGlacier :: "ChainConfig \<Rightarrow> int option \<Rightarrow> bool" where
  "IsMuirGlacier c num = isBlockForked (MuirGlacierBlock c) num"

definition IsIstanbul :: "ChainConfig \<Rightarrow> int option \<Rightarrow> bool" where
  "IsIstanbul c num = isBlockForked (IstanbulBlock c) num"

definition IsBerlin :: "ChainConfig \<Rightarrow> int option \<Rightarrow> bool" where
  "IsBerlin c num = isBlockForked (BerlinBlock c) num"

definition IsLondon :: "ChainConfig \<Rightarrow> int option \<Rightarrow> bool" where
  "IsLondon c num = isBlockForked (LondonBlock c) num"

definition IsArrowGlacier :: "ChainConfig \<Rightarrow> int option \<Rightarrow> bool" where
  "IsArrowGlacier c num = isBlockForked (ArrowGlacierBlock c) num"

definition IsGrayGlacier :: "ChainConfig \<Rightarrow> int option \<Rightarrow> bool" where
  "IsGrayGlacier c num = isBlockForked (GrayGlacierBlock c) num"

definition IsGibbs :: "ChainConfig \<Rightarrow> int option \<Rightarrow> bool" where
  "IsGibbs c num = isBlockForked (GibbsBlock c) num"

definition IsNano :: "ChainConfig \<Rightarrow> int option \<Rightarrow> bool" where
  "IsNano c num = isBlockForked (NanoBlock c) num"

definition IsMoran :: "ChainConfig \<Rightarrow> int option \<Rightarrow> bool" where
  "IsMoran c num = isBlockForked (MoranBlock c) num"

definition IsPlanck :: "ChainConfig \<Rightarrow> int option \<Rightarrow> bool" where
  "IsPlanck c num = isBlockForked (PlanckBlock c) num"

definition IsOnRamanujan :: "ChainConfig \<Rightarrow> int option \<Rightarrow> bool" where
  "IsOnRamanujan c num = configBlockEqual (RamanujanBlock c) num"

definition IsOnNiels :: "ChainConfig \<Rightarrow> int option \<Rightarrow> bool" where
  "IsOnNiels c num = configBlockEqual (NielsBlock c) num"

definition IsOnMirrorSync :: "ChainConfig \<Rightarrow> int option \<Rightarrow> bool" where
  "IsOnMirrorSync c num = configBlockEqual (MirrorSyncBlock c) num"

definition IsOnBruno :: "ChainConfig \<Rightarrow> int option \<Rightarrow> bool" where
  "IsOnBruno c num = configBlockEqual (BrunoBlock c) num"

definition IsOnEuler :: "ChainConfig \<Rightarrow> int option \<Rightarrow> bool" where
  "IsOnEuler c num = configBlockEqual (EulerBlock c) num"

definition IsOnLuban :: "ChainConfig \<Rightarrow> int option \<Rightarrow> bool" where
  "IsOnLuban c num = configBlockEqual (LubanBlock c) num"

definition IsOnPlato :: "ChainConfig \<Rightarrow> int option \<Rightarrow> bool" where
  "IsOnPlato c num = configBlockEqual (PlatoBlock c) num"

definition IsOnHertz :: "ChainConfig \<Rightarrow> int option \<Rightarrow> bool" where
  "IsOnHertz c num = configBlockEqual (HertzBlock c) num"

definition IsOnHertzfix :: "ChainConfig \<Rightarrow> int option \<Rightarrow> bool" where
  "IsOnHertzfix c num = configBlockEqual (HertzfixBlock c) num"

definition IsOnGibbs :: "ChainConfig \<Rightarrow> int option \<Rightarrow> bool" where
  "IsOnGibbs c num = configBlockEqual (GibbsBlock c) num"

definition IsOnNano :: "ChainConfig \<Rightarrow> int option \<Rightarrow> bool" where
  "IsOnNano c num = configBlockEqual (NanoBlock c) num"

definition IsOnMoran :: "ChainConfig \<Rightarrow> int option \<Rightarrow> bool" where
  "IsOnMoran c num = configBlockEqual (MoranBlock c) num"

definition IsOnPlanck :: "ChainConfig \<Rightarrow> int option \<Rightarrow> bool" where
  "IsOnPlanck c num = configBlockEqual (PlanckBlock c) num"

definition IsPetersburg :: "ChainConfig \<Rightarrow> int option \<Rightarrow> bool" where
  "IsPetersburg c num =
     (isBlockForked (PetersburgBlock c) num \<or>
      PetersburgBlock c = None \<and> isBlockForked (ConstantinopleBlock c) num)"

definition NeedBadSharedStorage :: "ChainConfig \<Rightarrow> int option \<Rightarrow> bool" where
  "NeedBadSharedStorage c num =
     (if IsHertzfix c num \<or> ChainID c = None then False
      else if ChainID c = Some 56 \<and> num = Some 33851236 then True
      else if ChainID c = Some 97 \<and> (num = Some 35547779 \<or> num = Some 35548081) then True
      else False)"

definition IsTerminalPoWBlock :: "ChainConfig \<Rightarrow> int \<Rightarrow> int \<Rightarrow> bool" where
  "IsTerminalPoWBlock c parentTotalDiff totalDiff =
     (case TerminalTotalDifficulty c of None \<Rightarrow> False
      | Some ttd \<Rightarrow> parentTotalDiff < ttd \<and> ttd \<le> totalDiff)"

definition IsPostMerge :: "ChainConfig \<Rightarrow> u64 \<Rightarrow> u64 \<Rightarrow> bool" where
  "IsPostMerge c blockNum timestamp =
     (TerminalTotalDifficulty c = Some 0 \<or>
      MergeNetsplitBlock c \<noteq> None \<and> bigUint64 (MergeNetsplitBlock c) \<le> blockNum \<or>
      isTimestampForked (ShanghaiTime c) timestamp)"

subsection \<open>Forks of the Chiliz chain scheduled by timestamp alone\<close>

definition IsDragon8 :: "ChainConfig \<Rightarrow> u64 \<Rightarrow> bool" where
  "IsDragon8 c time = isTimestampForked (Dragon8Time c) time"

definition IsDragon8Fix :: "ChainConfig \<Rightarrow> u64 \<Rightarrow> bool" where
  "IsDragon8Fix c time = isTimestampForked (Dragon8FixTime c) time"

definition IsSnake8 :: "ChainConfig \<Rightarrow> u64 \<Rightarrow> bool" where
  "IsSnake8 c time = isTimestampForked (Snake8Time c) time"

definition IsPepper8Time :: "ChainConfig \<Rightarrow> u64 \<Rightarrow> bool" where
  "IsPepper8Time c time = isTimestampForked (Pepper8Time c) time"

definition IsPipe8Time :: "ChainConfig \<Rightarrow> u64 \<Rightarrow> bool" where
  "IsPipe8Time c time = isTimestampForked (Pipe8Time c) time"

definition IsDeployerProxySunsetTime :: "ChainConfig \<Rightarrow> u64 \<Rightarrow> bool" where
  "IsDeployerProxySunsetTime c time = isTimestampForked (DeployerProxySunsetTime c) time"

subsection \<open>Forks scheduled by timestamp after London\<close>

definition IsShanghai :: "ChainConfig \<Rightarrow> int option \<Rightarrow> u64 \<Rightarrow> bool" where
  "IsShanghai c num time = (IsLondon c num \<and> isTimestampForked (ShanghaiTime c) time)"

definition IsKepler :: "ChainConfig \<Rightarrow> int option \<Rightarrow> u64 \<Rightarrow> bool" where
  "IsKepler c num time = (IsLondon c num \<and> isTimestampForked (KeplerTime c) time)"

definition IsFeynman :: "ChainConfig \<Rightarrow> int option \<Rightarrow> u64 \<Rightarrow> bool" where
  "IsFeynman c num time = (IsLondon c num \<and> isTimestampForked (FeynmanTime c) time)"

definition IsFeynmanFix :: "ChainConfig \<Rightarrow> int option \<Rightarrow> u64 \<Rightarrow> bool" where
  "IsFeynmanFix c num time = (IsLondon c num \<and> isTimestampForked (FeynmanFixTime c) time)"

definition IsCancun :: "ChainConfig \<Rightarrow> int option \<Rightarrow> u64 \<Rightarrow> bool" where
  "IsCancun c num time = (IsLondon c num \<and> isTimestampForked (CancunTime c) time)"

definition IsHaber :: "ChainConfig \<Rightarrow> int option \<Rightarrow> u64 \<Rightarrow> bool" where
  "IsHaber c num time = (IsLondon c num \<and> isTimestampForked (HaberTime c) time)"

definition IsHaberFix :: "ChainConfig \<Rightarrow> int option \<Rightarrow> u64 \<Rightarrow> bool" where
  "IsHaberFix c num time = (IsLondon c num \<and> isTimestampForked (HaberFixTime c) time)"

definition IsBohr :: "ChainConfig \<Rightarrow> int option \<Rightarrow> u64 \<Rightarrow> bool" where
  "IsBohr c num time = (IsLondon c num \<and> isTimestampForked (BohrTime c) time)"

definition IsPascal :: "ChainConfig \<Rightarrow> int option \<Rightarrow> u64 \<Rightarrow> bool" where
  "IsPascal c num time = (IsLondon c num \<and> isTimestampForked (PascalTime c) time)"

definition IsPrague :: "ChainConfig \<Rightarrow> int option \<Rightarrow> u64 \<Rightarrow> bool" where
  "IsPrague c num time = (IsLondon c num \<and> isTimestampForked (PragueTime c) time)"

definition IsLorentz :: "ChainConfig \<Rightarrow> int option \<Rightarrow> u64 \<Rightarrow> bool" where
  "IsLorentz c num time = (IsLondon c num \<and> isTimestampForked (LorentzTime c) time)"

definition IsMaxwell :: "ChainConfig \<Rightarrow> int option \<Rightarrow> u64 \<Rightarrow> bool" where
  "IsMaxwell c num time = (IsLondon c num \<and> isTimestampForked (MaxwellTime c) time)"

definition IsFermi :: "ChainConfig \<Rightarrow> int option \<Rightarrow> u64 \<Rightarrow> bool" where
  "IsFermi c num time = (IsLondon c num \<and> isTimestampForked (FermiTime c) time)"

definition IsOsaka :: "ChainConfig \<Rightarrow> int option \<Rightarrow> u64 \<Rightarrow> bool" where
  "IsOsaka c num time = (IsLondon c num \<and> isTimestampForked (OsakaTime c) time)"

definition IsMendel :: "ChainConfig \<Rightarrow> int option \<Rightarrow> u64 \<Rightarrow> bool" where
  "IsMendel c num time = (IsLondon c num \<and> isTimestampForked (MendelTime c) time)"

definition IsBPO1 :: "ChainConfig \<Rightarrow> int option \<Rightarrow> u64 \<Rightarrow> bool" where
  "IsBPO1 c num time = (IsLondon c num \<and> isTimestampForked (BPO1Time c) time)"

definition IsBPO2 :: "ChainConfig \<Rightarrow> int option \<Rightarrow> u64 \<Rightarrow> bool" where
  "IsBPO2 c num time = (IsLondon c num \<and> isTimestampForked (BPO2Time c) time)"

definition IsBPO3 :: "ChainConfig \<Rightarrow> int option \<Rightarrow> u64 \<Rightarrow> bool" where
  "IsBPO3 c num time = (IsLondon c num \<and> isTimestampForked (BPO3Time c) time)"

definition IsBPO4 :: "ChainConfig \<Rightarrow> int option \<Rightarrow> u64 \<Rightarrow> bool" where
  "IsBPO4 c num time = (IsLondon c num \<and> isTimestampForked (BPO4Time c) time)"

definition IsBPO5 :: "ChainConfig \<Rightarrow> int option \<Rightarrow> u64 \<Rightarrow> bool" where
  "IsBPO5 c num time = (IsLondon c num \<and> isTimestampForked (BPO5Time c) time)"

definition IsAmsterdam :: "ChainConfig \<Rightarrow> int option \<Rightarrow> u64 \<Rightarrow> bool" where
  "IsAmsterdam c num time = (IsLondon c num \<and> isTimestampForked (AmsterdamTime c) time)"

definition IsPasteur :: "ChainConfig \<Rightarrow> int option \<Rightarrow> u64 \<Rightarrow> bool" where
  "IsPasteur c num time = (IsLondon c num \<and> isTimestampForked (PasteurTime c) time)"

definition IsVerkle :: "ChainConfig \<Rightarrow> int option \<Rightarrow> u64 \<Rightarrow> bool" where
  "IsVerkle c num time = (IsLondon c num \<and> isTimestampForked (VerkleTime c) time)"

definition IsVerkleGenesis :: "ChainConfig \<Rightarrow> bool" where
  "IsVerkleGenesis c = EnableVerkleAtGenesis c"

definition IsEIP4762 :: "ChainConfig \<Rightarrow> int option \<Rightarrow> u64 \<Rightarrow> bool" where
  "IsEIP4762 c num time = IsVerkle c num time"

definition IsInBSC :: "ChainConfig \<Rightarrow> bool" where
  "IsInBSC c = (Parlia c \<noteq> None)"

definition IsNotInBSC :: "ChainConfig \<Rightarrow> bool" where
  "IsNotInBSC c = (Parlia c = None)"

subsection \<open>First block of a fork\<close>

text \<open>The number of the parent, as every \<open>IsOn\<close> predicate computes it (0 stays 0).\<close>

definition lastBlockNumber :: "int option \<Rightarrow> int option" where
  "lastBlockNumber cur =
     (case cur of None \<Rightarrow> Some 0 | Some n \<Rightarrow> Some (if 1 \<le> n then n - 1 else 0))"

definition IsOnShanghai :: "ChainConfig \<Rightarrow> int option \<Rightarrow> u64 \<Rightarrow> u64 \<Rightarrow> bool" where
  "IsOnShanghai c currentBlockNumber lastBlockTime currentBlockTime = 
     (\<not> IsShanghai c (lastBlockNumber currentBlockNumber) lastBlockTime \<and>
      IsShanghai c currentBlockNumber currentBlockTime)"

definition IsOnKepler :: "ChainConfig \<Rightarrow> int option \<Rightarrow> u64 \<Rightarrow> u64 \<Rightarrow> bool" where
  "IsOnKepler c currentBlockNumber lastBlockTime currentBlockTime = 
     (\<not> IsKepler c (lastBlockNumber currentBlockNumber) lastBlockTime \<and>
      IsKepler c currentBlockNumber currentBlockTime)"

definition IsOnFeynman :: "ChainConfig \<Rightarrow> int option \<Rightarrow> u64 \<Rightarrow> u64 \<Rightarrow> bool" where
  "IsOnFeynman c currentBlockNumber lastBlockTime currentBlockTime = 
     (\<not> IsFeynman c (lastBlockNumber currentBlockNumber) lastBlockTime \<and>
      IsFeynman c currentBlockNumber currentBlockTime)"

definition IsOnFeynmanFix :: "ChainConfig \<Rightarrow> int option \<Rightarrow> u64 \<Rightarrow> u64 \<Rightarrow> bool" where
  "IsOnFeynmanFix c currentBlockNumber lastBlockTime currentBlockTime = 
     (\<not> IsFeynmanFix c (lastBlockNumber currentBlockNumber) lastBlockTime \<and>
      IsFeynmanFix c currentBlockNumber currentBlockTime)"

definition IsOnHaberFix :: "ChainConfig \<Rightarrow> int option \<Rightarrow> u64 \<Rightarrow> u64 \<Rightarrow> bool" where
  "IsOnHaberFix c currentBlockNumber lastBlockTime currentBlockTime = 
     (\<not> IsHaberFix c (lastBlockNumber currentBlockNumber) lastBlockTime \<and>
      IsHaberFix c currentBlockNumber currentBlockTime)"

definition IsOnBohr :: "ChainConfig \<Rightarrow> int option \<Rightarrow> u64 \<Rightarrow> u64 \<Rightarrow> bool" where
  "IsOnBohr c currentBlockNumber lastBlockTime currentBlockTime = 
     (\<not> IsBohr c (lastBlockNumber currentBlockNumber) lastBlockTime \<and>
      IsBohr c currentBlockNumber currentBlockTime)"

definition IsOnPascal :: "ChainConfig \<Rightarrow> int option \<Rightarrow> u64 \<Rightarrow> u64 \<Rightarrow> bool" where
  "IsOnPascal c currentBlockNumber lastBlockTime currentBlockTime = 
     (\<not> IsPascal c (lastBlockNumber currentBlockNumber) lastBlockTime \<and>
      IsPascal c currentBlockNumber currentBlockTime)"

definition IsOnPrague :: "ChainConfig \<Rightarrow> int option \<Rightarrow> u64 \<Rightarrow> u64 \<Rightarrow> bool" where
  "IsOnPrague c currentBlockNumber lastBlockTime currentBlockTime = 
     (\<not> IsPrague c (lastBlockNumber currentBlockNumber) lastBlockTime \<and>
      IsPrague c currentBlockNumber currentBlockTime)"

definition IsOnLorentz :: "ChainConfig \<Rightarrow> int option \<Rightarrow> u64 \<Rightarrow> u64 \<Rightarrow> bool" where
  "IsOnLorentz c currentBlockNumber lastBlockTime currentBlockTime = 
     (\<not> IsLorentz c (lastBlockNumber currentBlockNumber) lastBlockTime \<and>
      IsLorentz c currentBlockNumber currentBlockTime)"

definition IsOnMaxwell :: "ChainConfig \<Rightarrow> int option \<Rightarrow> u64 \<Rightarrow> u64 \<Rightarrow> bool" where
  "IsOnMaxwell c currentBlockNumber lastBlockTime currentBlockTime = 
     (\<not> IsMaxwell c (lastBlockNumber currentBlockNumber) lastBlockTime \<and>
      IsMaxwell c currentBlockNumber currentBlockTime)"

definition IsOnFermi :: "ChainConfig \<Rightarrow> int option \<Rightarrow> u64 \<Rightarrow> u64 \<Rightarrow> bool" where
  "IsOnFermi c currentBlockNumber lastBlockTime currentBlockTime = 
     (\<not> IsFermi c (lastBlockNumber currentBlockNumber) lastBlockTime \<and>
      IsFermi c currentBlockNumber currentBlockTime)"

definition IsOnOsaka :: "ChainConfig \<Rightarrow> int option \<Rightarrow> u64 \<Rightarrow> u64 \<Rightarrow> bool" where
  "IsOnOsaka c currentBlockNumber lastBlockTime currentBlockTime = 
     (\<not> IsOsaka c (lastBlockNumber currentBlockNumber) lastBlockTime \<and>
      IsOsaka c currentBlockNumber currentBlockTime)"

definition IsOnMendel :: "ChainConfig \<Rightarrow> int option \<Rightarrow> u64 \<Rightarrow> u64 \<Rightarrow> bool" where
  "IsOnMendel c currentBlockNumber lastBlockTime currentBlockTime = 
     (\<not> IsMendel c (lastBlockNumber currentBlockNumber) lastBlockTime \<and>
      IsMendel c currentBlockNumber currentBlockTime)"

definition IsOnPasteur :: "ChainConfig \<Rightarrow> int option \<Rightarrow> u64 \<Rightarrow> u64 \<Rightarrow> bool" where
  "IsOnPasteur c currentBlockNumber lastBlockTime currentBlockTime = 
     (\<not> IsPasteur c (lastBlockNumber currentBlockNumber) lastBlockTime \<and>
      IsPasteur c currentBlockNumber currentBlockTime)"

section \<open>The order of forks\<close>

record fork =
  fname :: string
  fblock :: "int option"
  ftimestamp :: "u64 option"
  foptional :: bool

definition forkEntry :: "string \<Rightarrow> int option \<Rightarrow> u64 option \<Rightarrow> bool \<Rightarrow> fork" where
  "forkEntry n b t opt = \<lparr>fname = n, fblock = b, ftimestamp = t, foptional = opt\<rparr>"

datatype ForkOrderError =
    NotEnabled string string        \<comment> \<open>the first is not scheduled, the second is\<close>
  | BlockOrder string string        \<comment> \<open>scheduled at a later block than its successor\<close>
  | TimeOrder string string         \<comment> \<open>scheduled at a later time than its successor\<close>
  | BlockAfterTime string string    \<comment> \<open>back to block numbers after a timestamp\<close>
  | BlobInvalid string string       \<comment> \<open>a malformed blob schedule entry\<close>
  | BlobMissing string              \<comment> \<open>no blob schedule entry for a scheduled fork\<close>

definition forkSet :: "fork \<Rightarrow> bool" where
  "forkSet f = (fblock f \<noteq> None \<or> ftimestamp f \<noteq> None)"

text \<open>The \<open>switch\<close> of the loop body: what is wrong between the last fork that counts and the
  current one.\<close>

definition forkStepError :: "fork \<Rightarrow> fork \<Rightarrow> ForkOrderError option" where
  "forkStepError lst cur =
     (if fblock lst = None \<and> ftimestamp lst = None \<and> (fblock cur \<noteq> None \<or> ftimestamp cur \<noteq> None)
      then Some (NotEnabled (fname lst) (fname cur))
      else if (fblock lst \<noteq> None \<and> fblock cur \<noteq> None) \<or> (ftimestamp lst \<noteq> None \<and> ftimestamp cur \<noteq> None)
      then (if (case (fblock lst, fblock cur) of (Some a, Some b) \<Rightarrow> a > b | _ \<Rightarrow> False)
            then Some (BlockOrder (fname lst) (fname cur))
            else if (case (ftimestamp lst, ftimestamp cur) of (Some a, Some b) \<Rightarrow> a > b | _ \<Rightarrow> False)
            then Some (TimeOrder (fname lst) (fname cur))
            else if ftimestamp lst \<noteq> None \<and> fblock cur \<noteq> None
            then Some (BlockAfterTime (fname lst) (fname cur))
            else None)
      else None)"

fun checkForkOrder :: "fork option \<Rightarrow> fork list \<Rightarrow> ForkOrderError option" where
  "checkForkOrder lst [] = None"
| "checkForkOrder lst (cur # rest) =
     (case (case lst of None \<Rightarrow> None | Some l \<Rightarrow> forkStepError l cur) of
        Some e \<Rightarrow> Some e
      | None \<Rightarrow> checkForkOrder (if \<not> foptional cur \<or> forkSet cur then Some cur else lst) rest)"

definition forkOrderList :: "ChainConfig \<Rightarrow> fork list" where
  "forkOrderList c =
     [forkEntry ''mirrorSyncBlock'' (MirrorSyncBlock c) None False,
      forkEntry ''brunoBlock'' (BrunoBlock c) None False,
      forkEntry ''gibbsBlock'' (GibbsBlock c) None False,
      forkEntry ''planckBlock'' (PlanckBlock c) None False,
      forkEntry ''hertzBlock'' (HertzBlock c) None False,
      forkEntry ''hertzfixBlock'' (HertzfixBlock c) None False,
      forkEntry ''keplerTime'' None (KeplerTime c) False,
      forkEntry ''cancunTime'' None (CancunTime c) False,
      forkEntry ''pascalTime'' None (PascalTime c) False,
      forkEntry ''pragueTime'' None (PragueTime c) False,
      forkEntry ''lorentzTime'' None (LorentzTime c) False,
      forkEntry ''maxwellTime'' None (MaxwellTime c) False,
      forkEntry ''fermiTime'' None (FermiTime c) False,
      forkEntry ''osakaTime'' None (OsakaTime c) False,
      forkEntry ''mendelTime'' None (MendelTime c) False,
      forkEntry ''verkleTime'' None (VerkleTime c) True,
      forkEntry ''bpo1'' None (BPO1Time c) True,
      forkEntry ''bpo2'' None (BPO2Time c) True,
      forkEntry ''bpo3'' None (BPO3Time c) True,
      forkEntry ''bpo4'' None (BPO4Time c) True,
      forkEntry ''bpo5'' None (BPO5Time c) True,
      forkEntry ''amsterdam'' None (AmsterdamTime c) True,
      forkEntry ''pasteurTime'' None (PasteurTime c) True]"

definition validateBlob :: "BlobConfig \<Rightarrow> string option" where
  "validateBlob bc =
     (if Max bc < 0 then Some ''max < 0''
      else if Target bc < 0 then Some ''target < 0''
      else if UpdateFraction bc = 0 then Some ''update fraction must be defined and non-zero''
      else None)"

fun checkBlobSchedule :: "(string \<times> u64 option \<times> BlobConfig option) list \<Rightarrow> ForkOrderError option" where
  "checkBlobSchedule [] = None"
| "checkBlobSchedule ((name, timestamp, config) # rest) =
     (case (case config of None \<Rightarrow> None | Some bc \<Rightarrow> validateBlob bc) of
        Some e \<Rightarrow> Some (BlobInvalid name e)
      | None \<Rightarrow>
          if timestamp \<noteq> None \<and> config = None then Some (BlobMissing name)
          else checkBlobSchedule rest)"

definition emptyBlobSchedule :: BlobScheduleConfig where
  "emptyBlobSchedule =
     \<lparr>CancunBlob = None, PragueBlob = None, OsakaBlob = None, VerkleBlob = None, BPO1Blob = None,
      BPO2Blob = None, BPO3Blob = None, BPO4Blob = None, BPO5Blob = None, AmsterdamBlob = None\<rparr>"

definition CheckConfigForkOrder :: "ChainConfig \<Rightarrow> ForkOrderError option" where
  "CheckConfigForkOrder c =
     (if IsNotInBSC c then None
      else case checkForkOrder None (forkOrderList c) of
        Some e \<Rightarrow> Some e
      | None \<Rightarrow>
          (let bsc = (case BlobSchedule c of None \<Rightarrow> emptyBlobSchedule | Some b \<Rightarrow> b)
           in checkBlobSchedule
                [(''cancun'', CancunTime c, CancunBlob bsc),
                 (''prague'', PragueTime c, PragueBlob bsc),
                 (''osaka'', OsakaTime c, OsakaBlob bsc),
                 (''bpo1'', BPO1Time c, BPO1Blob bsc),
                 (''bpo2'', BPO2Time c, BPO2Blob bsc),
                 (''bpo3'', BPO3Time c, BPO3Blob bsc),
                 (''bpo4'', BPO4Time c, BPO4Blob bsc),
                 (''bpo5'', BPO5Time c, BPO5Blob bsc),
                 (''amsterdam'', AmsterdamTime c, AmsterdamBlob bsc)]))"

section \<open>Compatibility with a stored configuration\<close>

record ConfigCompatError =
  What :: string
  StoredBlock :: "int option"
  NewBlock :: "int option"
  StoredTime :: "u64 option"
  NewTime :: "u64 option"
  RewindToBlock :: u64
  RewindToTime :: u64

definition newBlockCompatError :: "string \<Rightarrow> int option \<Rightarrow> int option \<Rightarrow> ConfigCompatError" where
  "newBlockCompatError what storedblock newblock =
     (let rew = (case storedblock of None \<Rightarrow> newblock
                 | Some s \<Rightarrow> (case newblock of None \<Rightarrow> storedblock
                             | Some n \<Rightarrow> if s < n then storedblock else newblock))
      in \<lparr>What = what, StoredBlock = storedblock, NewBlock = newblock, StoredTime = None, NewTime = None,
          RewindToBlock = (case rew of None \<Rightarrow> 0
                           | Some r \<Rightarrow> if r > 0 then bigUint64 (Some r) - 1 else 0),
          RewindToTime = 0\<rparr>)"

definition newTimestampCompatError :: "string \<Rightarrow> u64 option \<Rightarrow> u64 option \<Rightarrow> ConfigCompatError" where
  "newTimestampCompatError what storedtime newtime =
     (let rew = (case storedtime of None \<Rightarrow> newtime
                 | Some s \<Rightarrow> (case newtime of None \<Rightarrow> storedtime
                             | Some n \<Rightarrow> if s < n then storedtime else newtime))
      in \<lparr>What = what, StoredBlock = None, NewBlock = None, StoredTime = storedtime, NewTime = newtime,
          RewindToBlock = 0,
          RewindToTime = (case rew of None \<Rightarrow> 0 | Some r \<Rightarrow> if r \<noteq> 0 then r - 1 else 0)\<rparr>)"

text \<open>The checks run in the order of the source; the first that reports an error decides.\<close>

fun firstError :: "'e option list \<Rightarrow> 'e option" where
  "firstError [] = None"
| "firstError (Some e # rest) = Some e"
| "firstError (None # rest) = firstError rest"

definition checkCompatible ::
  "ChainConfig \<Rightarrow> ChainConfig \<Rightarrow> int option \<Rightarrow> u64 \<Rightarrow> ConfigCompatError option" where
  "checkCompatible c newcfg headNumber headTimestamp =
     (let blk = (\<lambda>what fld. if isForkBlockIncompatible (fld c) (fld newcfg) headNumber
                            then Some (newBlockCompatError what (fld c) (fld newcfg)) else None);
          tim = (\<lambda>what fld. if isForkTimestampIncompatible (fld c) (fld newcfg) headTimestamp
                            then Some (newTimestampCompatError what (fld c) (fld newcfg)) else None)
      in firstError
     [blk ''Homestead fork block'' HomesteadBlock,
      blk ''DAO fork block'' DAOForkBlock,
      (if IsDAOFork c headNumber \<and> DAOForkSupport c \<noteq> DAOForkSupport newcfg
       then Some (newBlockCompatError ''DAO fork support flag'' (DAOForkBlock c) (DAOForkBlock newcfg))
       else None),
      blk ''EIP150 fork block'' EIP150Block,
      blk ''EIP155 fork block'' EIP155Block,
      blk ''EIP158 fork block'' EIP158Block,
      (if IsEIP158 c headNumber \<and> \<not> configBlockEqual (ChainID c) (ChainID newcfg)
       then Some (newBlockCompatError ''EIP158 chain ID'' (EIP158Block c) (EIP158Block newcfg))
       else None),
      blk ''Byzantium fork block'' ByzantiumBlock,
      blk ''Constantinople fork block'' ConstantinopleBlock,
      (if isForkBlockIncompatible (PetersburgBlock c) (PetersburgBlock newcfg) headNumber \<and>
          isForkBlockIncompatible (ConstantinopleBlock c) (PetersburgBlock newcfg) headNumber
       then Some (newBlockCompatError ''Petersburg fork block'' (PetersburgBlock c) (PetersburgBlock newcfg))
       else None),
      blk ''Istanbul fork block'' IstanbulBlock,
      blk ''Muir Glacier fork block'' MuirGlacierBlock,
      blk ''Berlin fork block'' BerlinBlock,
      blk ''London fork block'' LondonBlock,
      blk ''Arrow Glacier fork block'' ArrowGlacierBlock,
      blk ''Gray Glacier fork block'' GrayGlacierBlock,
      blk ''Merge Start fork block'' MergeNetsplitBlock,
      blk ''ramanujan fork block'' RamanujanBlock,
      blk ''mirrorSync fork block'' MirrorSyncBlock,
      blk ''bruno fork block'' BrunoBlock,
      blk ''euler fork block'' EulerBlock,
      blk ''gibbs fork block'' GibbsBlock,
      blk ''nano fork block'' NanoBlock,
      blk ''moran fork block'' MoranBlock,
      blk ''planck fork block'' PlanckBlock,
      blk ''luban fork block'' LubanBlock,
      blk ''plato fork block'' PlatoBlock,
      blk ''hertz fork block'' HertzBlock,
      blk ''hertzfix fork block'' HertzfixBlock,
      tim ''Shanghai fork timestamp'' ShanghaiTime,
      tim ''Kepler fork timestamp'' KeplerTime,
      tim ''Feynman fork timestamp'' FeynmanTime,
      tim ''FeynmanFix fork timestamp'' FeynmanFixTime,
      tim ''Cancun fork timestamp'' CancunTime,
      tim ''Haber fork timestamp'' HaberTime,
      tim ''HaberFix fork timestamp'' HaberFixTime,
      tim ''Bohr fork timestamp'' BohrTime,
      tim ''Pascal fork timestamp'' PascalTime,
      tim ''Prague fork timestamp'' PragueTime,
      tim ''Lorentz fork timestamp'' LorentzTime,
      tim ''Maxwell fork timestamp'' MaxwellTime,
      tim ''FermiTime fork timestamp'' FermiTime,
      tim ''Osaka fork timestamp'' OsakaTime,
      tim ''Mendel fork timestamp'' MendelTime,
      tim ''Verkle fork timestamp'' VerkleTime,
      tim ''BPO1 fork timestamp'' BPO1Time,
      tim ''BPO2 fork timestamp'' BPO2Time,
      tim ''BPO3 fork timestamp'' BPO3Time,
      tim ''BPO4 fork timestamp'' BPO4Time,
      tim ''BPO5 fork timestamp'' BPO5Time,
      tim ''Amsterdam fork timestamp'' AmsterdamTime,
      tim ''Pasteur fork timestamp'' PasteurTime])"

text \<open>The loop of \<open>CheckCompatible\<close>: rewind to the reported conflict and look again, until there is
  none or the same rewind target is reported twice. The outer \<open>None\<close> is "does not return".\<close>

partial_function (option) compatLoop ::
  "ChainConfig \<Rightarrow> ChainConfig \<Rightarrow> u64 \<Rightarrow> u64 \<Rightarrow> ConfigCompatError option \<Rightarrow> ConfigCompatError option option"
where
  "compatLoop c newcfg bhead btime lasterr =
     (case checkCompatible c newcfg (Some (uint bhead)) btime of
        None \<Rightarrow> Some lasterr
      | Some err \<Rightarrow>
          if (case lasterr of None \<Rightarrow> False
              | Some le \<Rightarrow> RewindToBlock err = RewindToBlock le \<and> RewindToTime err = RewindToTime le)
          then Some lasterr
          else if RewindToTime err > 0 then compatLoop c newcfg bhead (RewindToTime err) (Some err)
          else compatLoop c newcfg (RewindToBlock err) btime (Some err))"

definition CheckCompatible ::
  "ChainConfig \<Rightarrow> ChainConfig \<Rightarrow> u64 \<Rightarrow> u64 \<Rightarrow> ConfigCompatError option option" where
  "CheckCompatible c newcfg height time = compatLoop c newcfg height time None"

section \<open>Fork names, blob schedule, system contracts\<close>

datatype Fork =
  Frontier | FrontierThawing | Homestead | DAO | TangerineWhistle
  | SpuriousDragon | Byzantium | Constantinople | Petersburg | Istanbul | MuirGlacier | Berlin
  | London | ArrowGlacier | GrayGlacier | Paris | Shanghai | Cancun
  | Prague | Lorentz | Maxwell | Fermi | Osaka | Mendel | Pasteur
  | BPO1 | BPO2 | BPO3 | BPO4 | BPO5 | Amsterdam

text \<open>Forks are compared by their \<open>iota\<close> value.\<close>

primrec forkIota :: "Fork \<Rightarrow> nat" where
  "forkIota Frontier = 0"
| "forkIota FrontierThawing = 1"
| "forkIota Homestead = 2"
| "forkIota DAO = 3"
| "forkIota TangerineWhistle = 4"
| "forkIota SpuriousDragon = 5"
| "forkIota Byzantium = 6"
| "forkIota Constantinople = 7"
| "forkIota Petersburg = 8"
| "forkIota Istanbul = 9"
| "forkIota MuirGlacier = 10"
| "forkIota Berlin = 11"
| "forkIota London = 12"
| "forkIota ArrowGlacier = 13"
| "forkIota GrayGlacier = 14"
| "forkIota Paris = 15"
| "forkIota Shanghai = 16"
| "forkIota Cancun = 17"
| "forkIota Prague = 18"
| "forkIota Lorentz = 19"
| "forkIota Maxwell = 20"
| "forkIota Fermi = 21"
| "forkIota Osaka = 22"
| "forkIota Mendel = 23"
| "forkIota Pasteur = 24"
| "forkIota BPO1 = 25"
| "forkIota BPO2 = 26"
| "forkIota BPO3 = 27"
| "forkIota BPO4 = 28"
| "forkIota BPO5 = 29"
| "forkIota Amsterdam = 30"

lemma forkIota_inj: "forkIota x = forkIota y \<Longrightarrow> x = y"
  by (cases x; cases y) simp_all

instantiation Fork :: linorder
begin

definition less_eq_Fork :: "Fork \<Rightarrow> Fork \<Rightarrow> bool" where
  "x \<le> y \<longleftrightarrow> forkIota x \<le> forkIota y"

definition less_Fork :: "Fork \<Rightarrow> Fork \<Rightarrow> bool" where
  "x < y \<longleftrightarrow> forkIota x < forkIota y"

instance
  by standard (auto simp: less_eq_Fork_def less_Fork_def intro: forkIota_inj)

end

definition LatestFork :: "ChainConfig \<Rightarrow> u64 \<Rightarrow> Fork" where
  "LatestFork c time =
     (let london = LondonBlock c in
      if IsPasteur c london time then Pasteur
      else if IsAmsterdam c london time then Amsterdam
      else if IsBPO5 c london time then BPO5
      else if IsBPO4 c london time then BPO4
      else if IsBPO3 c london time then BPO3
      else if IsBPO2 c london time then BPO2
      else if IsBPO1 c london time then BPO1
      else if IsMendel c london time then Mendel
      else if IsOsaka c london time then Osaka
      else if IsFermi c london time then Fermi
      else if IsMaxwell c london time then Maxwell
      else if IsLorentz c london time then Lorentz
      else if IsPrague c london time then Prague
      else if IsCancun c london time then Cancun
      else if IsShanghai c london time then Shanghai
      else Paris)"

text \<open>\<open>ChainConfig.BlobConfig\<close>; a missing blob schedule would be a nil dereference, read as nil.\<close>

definition BlobConfigOf :: "ChainConfig \<Rightarrow> Fork \<Rightarrow> BlobConfig option" where
  "BlobConfigOf c fork =
     (case BlobSchedule c of None \<Rightarrow> None
      | Some s \<Rightarrow>
        (case fork of
           BPO5 \<Rightarrow> BPO5Blob s
         | BPO4 \<Rightarrow> BPO4Blob s
         | BPO3 \<Rightarrow> BPO3Blob s
         | BPO2 \<Rightarrow> BPO2Blob s
         | BPO1 \<Rightarrow> BPO1Blob s
         | Osaka \<Rightarrow> OsakaBlob s
         | Fermi \<Rightarrow> PragueBlob s
         | Maxwell \<Rightarrow> PragueBlob s
         | Lorentz \<Rightarrow> PragueBlob s
         | Prague \<Rightarrow> PragueBlob s
         | Cancun \<Rightarrow> CancunBlob s
         | _ \<Rightarrow> None))"

definition BeaconRootsAddress :: address where
  "BeaconRootsAddress = 0x000F3df6D732807Ef1319fB7B8bB8522d0Beac02"
definition HistoryStorageAddress :: address where
  "HistoryStorageAddress = 0x0000F90827F1C53a10cb7A02335B175320002935"
definition WithdrawalQueueAddress :: address where
  "WithdrawalQueueAddress = 0x00000961Ef480Eb55e80D19ad83579A64c007002"
definition ConsolidationQueueAddress :: address where
  "ConsolidationQueueAddress = 0x0000BBdDc7CE488642fb579F8B00f3a590007251"

definition ActiveSystemContracts :: "ChainConfig \<Rightarrow> u64 \<Rightarrow> (string, address) gomap" where
  "ActiveSystemContracts c time =
     (let fork = LatestFork c time in
      if IsInBSC c
      then (if Prague \<le> fork then gm_put ''HISTORY_STORAGE_ADDRESS'' HistoryStorageAddress [] else [])
      else (let active =
              (if Prague \<le> fork
               then gm_put ''WITHDRAWAL_REQUEST_PREDEPLOY_ADDRESS'' WithdrawalQueueAddress
                     (gm_put ''HISTORY_STORAGE_ADDRESS'' HistoryStorageAddress
                       (gm_put ''DEPOSIT_CONTRACT_ADDRESS'' (DepositContractAddress c)
                         (gm_put ''CONSOLIDATION_REQUEST_PREDEPLOY_ADDRESS'' ConsolidationQueueAddress [])))
               else [])
            in if Cancun \<le> fork then gm_put ''BEACON_ROOTS_ADDRESS'' BeaconRootsAddress active
               else active))"

definition Timestamp :: "ChainConfig \<Rightarrow> Fork \<Rightarrow> u64 option" where
  "Timestamp c fork =
     (case fork of
        Pasteur \<Rightarrow> PasteurTime c
      | Amsterdam \<Rightarrow> AmsterdamTime c
      | BPO5 \<Rightarrow> BPO5Time c
      | BPO4 \<Rightarrow> BPO4Time c
      | BPO3 \<Rightarrow> BPO3Time c
      | BPO2 \<Rightarrow> BPO2Time c
      | BPO1 \<Rightarrow> BPO1Time c
      | Mendel \<Rightarrow> MendelTime c
      | Osaka \<Rightarrow> OsakaTime c
      | Fermi \<Rightarrow> FermiTime c
      | Maxwell \<Rightarrow> MaxwellTime c
      | Lorentz \<Rightarrow> LorentzTime c
      | Prague \<Rightarrow> PragueTime c
      | Cancun \<Rightarrow> CancunTime c
      | Shanghai \<Rightarrow> ShanghaiTime c
      | _ \<Rightarrow> None)"

definition BaseFeeChangeDenominator :: "ChainConfig \<Rightarrow> u64" where
  "BaseFeeChangeDenominator c = DefaultBaseFeeChangeDenominator"

definition ElasticityMultiplier :: "ChainConfig \<Rightarrow> u64" where
  "ElasticityMultiplier c = DefaultElasticityMultiplier"

section \<open>Rules\<close>

record Rules =
  rChainID :: int
  rIsHomestead :: bool
  rIsEIP150 :: bool
  rIsEIP155 :: bool
  rIsEIP158 :: bool
  rIsByzantium :: bool
  rIsConstantinople :: bool
  rIsPetersburg :: bool
  rIsIstanbul :: bool
  rIsBerlin :: bool
  rIsEIP2929 :: bool
  rIsLondon :: bool
  rIsMerge :: bool
  rIsNano :: bool
  rIsMoran :: bool
  rIsPlanck :: bool
  rIsLuban :: bool
  rIsPlato :: bool
  rIsHertz :: bool
  rIsHertzfix :: bool
  rIsShanghai :: bool
  rIsKepler :: bool
  rIsFeynman :: bool
  rIsCancun :: bool
  rIsHaber :: bool
  rIsBohr :: bool
  rIsPascal :: bool
  rIsPrague :: bool
  rIsLorentz :: bool
  rIsMaxwell :: bool
  rIsFermi :: bool
  rIsOsaka :: bool
  rIsMendel :: bool
  rIsAmsterdam :: bool
  rIsPasteur :: bool
  rIsVerkle :: bool
  rHasRuntimeUpgrade :: bool
  rHasDeployOrigin :: bool
  rHasDeploymentHookFix :: bool
  rDeployerFactory :: bool
  rDragon8 :: bool
  rDragon8Fix :: bool
  rSnake8 :: bool
  rDeployerProxySunset :: bool
  rIsEIP4762 :: bool

definition RulesOf :: "ChainConfig \<Rightarrow> int option \<Rightarrow> bool \<Rightarrow> u64 \<Rightarrow> Rules" where
  "RulesOf c num isMerge0 timestamp =
     (let chainID = (case ChainID c of None \<Rightarrow> 0 | Some i \<Rightarrow> i);
          isMerge = (isMerge0 \<and> IsLondon c num);
          isVerkle = (isMerge \<and> IsVerkle c num timestamp)
      in \<lparr>rChainID = chainID,
         rIsHomestead = IsHomestead c num,
         rIsEIP150 = IsEIP150 c num,
         rIsEIP155 = IsEIP155 c num,
         rIsEIP158 = IsEIP158 c num,
         rIsByzantium = IsByzantium c num,
         rIsConstantinople = IsConstantinople c num,
         rIsPetersburg = IsPetersburg c num,
         rIsIstanbul = IsIstanbul c num,
         rIsBerlin = IsBerlin c num,
         rIsEIP2929 = (IsBerlin c num \<and> \<not> isVerkle),
         rIsLondon = IsLondon c num,
         rIsMerge = isMerge,
         rIsNano = IsNano c num,
         rIsMoran = IsMoran c num,
         rIsPlanck = IsPlanck c num,
         rIsLuban = IsLuban c num,
         rIsPlato = IsPlato c num,
         rIsHertz = IsHertz c num,
         rIsHertzfix = IsHertzfix c num,
         rIsShanghai = ((isMerge \<or> IsInBSC c) \<and> IsShanghai c num timestamp),
         rIsKepler = IsKepler c num timestamp,
         rIsFeynman = IsFeynman c num timestamp,
         rIsCancun = ((isMerge \<or> IsInBSC c) \<and> IsCancun c num timestamp),
         rIsHaber = IsHaber c num timestamp,
         rIsBohr = IsBohr c num timestamp,
         rIsPascal = IsPascal c num timestamp,
         rIsPrague = ((isMerge \<or> IsInBSC c) \<and> IsPrague c num timestamp),
         rIsLorentz = IsLorentz c num timestamp,
         rIsMaxwell = IsMaxwell c num timestamp,
         rIsFermi = IsFermi c num timestamp,
         rIsOsaka = ((isMerge \<or> IsInBSC c) \<and> IsOsaka c num timestamp),
         rIsMendel = IsMendel c num timestamp,
         rIsAmsterdam = ((isMerge \<or> IsInBSC c) \<and> IsAmsterdam c num timestamp),
         rIsPasteur = IsPasteur c num timestamp,
         rIsVerkle = IsVerkle c num timestamp,
         rHasRuntimeUpgrade = isBlockForked (RuntimeUpgradeBlock c) num,
         rHasDeployOrigin = isBlockForked (DeployOriginBlock c) num,
         rHasDeploymentHookFix = isBlockForked (DeploymentHookFixBlock c) num,
         rDeployerFactory = isBlockForked (DeployerFactoryBlock c) num,
         rDragon8 = IsDragon8 c timestamp,
         rDragon8Fix = IsDragon8Fix c timestamp,
         rSnake8 = IsSnake8 c timestamp,
         rDeployerProxySunset = IsDeployerProxySunsetTime c timestamp,
         rIsEIP4762 = isVerkle\<rparr>)"
section \<open>What the fork-order check guarantees\<close>

lemmas time_fork_defs = IsShanghai_def IsKepler_def IsFeynman_def IsFeynmanFix_def IsCancun_def IsHaber_def
  IsHaberFix_def IsBohr_def IsPascal_def IsPrague_def IsLorentz_def IsMaxwell_def IsFermi_def
  IsOsaka_def IsMendel_def IsBPO1_def IsBPO2_def IsBPO3_def IsBPO4_def IsBPO5_def IsAmsterdam_def
  IsPasteur_def IsVerkle_def IsLondon_def

lemma forkStepError_unset:
  "forkStepError l cur = None \<Longrightarrow> \<not> forkSet l \<Longrightarrow> \<not> forkSet cur"
  by (auto simp: forkStepError_def forkSet_def split: if_splits)

lemma forkStepError_time:
  "forkStepError l cur = None \<Longrightarrow> ftimestamp l = Some t \<Longrightarrow> ftimestamp cur = Some t' \<Longrightarrow> t \<le> t'"
  by (auto simp: forkStepError_def split: if_splits)

lemma checkForkOrder_Cons:
  "checkForkOrder (Some l) (cur # rest) = None \<longleftrightarrow>
     forkStepError l cur = None \<and>
     checkForkOrder (if \<not> foptional cur \<or> forkSet cur then Some cur else Some l) rest = None"
  by (auto split: option.splits)

lemma checkForkOrder_unset:
  "checkForkOrder (Some l) xs = None \<Longrightarrow> \<not> forkSet l \<Longrightarrow> f \<in> set xs \<Longrightarrow> \<not> forkSet f"
proof (induction xs arbitrary: l)
  case (Cons cur rest)
  then have "\<not> forkSet cur" 
    by (auto simp only: checkForkOrder_Cons dest: forkStepError_unset)
  with Cons show ?case
    by (auto simp only: checkForkOrder_Cons set_ConsD split: if_splits) auto
qed simp

lemma checkForkOrder_time_le:
  assumes "checkForkOrder (Some l) xs = None" "ftimestamp l = Some t"
    and "\<And>g. g \<in> set xs \<Longrightarrow> fblock g = None"
    and "f \<in> set xs" "ftimestamp f = Some t'"
  shows "t \<le> t'"
  using assms
proof (induction xs arbitrary: l t)
  case (Cons cur rest)
  note step = Cons.prems(1) [unfolded checkForkOrder_Cons]
  show ?case
  proof (cases "ftimestamp cur")
    case (Some tc)
    with step Cons.prems(2) have "t \<le> tc" "checkForkOrder (Some cur) rest = None"
      by (auto simp: forkSet_def dest: forkStepError_time)
    note tc = this
    show ?thesis
    proof (cases "f = cur")
      case True
      with tc(1) Some Cons.prems(5) show ?thesis by simp
    next
      case False
      with Cons.prems(4) have "f \<in> set rest" by simp
      from Cons.IH [OF tc(2) Some _ this Cons.prems(5)] Cons.prems(3) tc(1) show ?thesis
        by simp
    qed
  next
    case None
    then have unset: "\<not> forkSet cur" using Cons.prems(3) [of cur] by (simp add: forkSet_def)
    from None Cons.prems have f: "f \<in> set rest" by auto
    show ?thesis
    proof (cases "foptional cur")
      case True
      with step unset have "checkForkOrder (Some l) rest = None" by simp
      with Cons f show ?thesis by simp
    next
      case False
      with step have "checkForkOrder (Some cur) rest = None" by simp
      from checkForkOrder_unset [OF this unset f] Cons.prems(5) show ?thesis
        by (simp add: forkSet_def)
    qed
  qed
qed simp

lemma checkForkOrder_suffix:
  "checkForkOrder lst (xs @ e # ys) = None \<Longrightarrow> \<not> foptional e \<Longrightarrow> checkForkOrder (Some e) ys = None"
  by (induction xs arbitrary: lst) (auto split: option.splits)

lemma checkForkOrder_active:
  assumes "checkForkOrder lst (xs @ e # ys) = None" "\<not> foptional e" "fblock e = None"
    and "\<And>g. g \<in> set ys \<Longrightarrow> fblock g = None" "f \<in> set ys"
    and act: "isTimestampForked (ftimestamp f) time"
  shows "isTimestampForked (ftimestamp e) time"
proof -
  from checkForkOrder_suffix [OF assms(1,2)] have ys: "checkForkOrder (Some e) ys = None" .
  from act obtain t' where t': "ftimestamp f = Some t'" "t' \<le> time"
    by (cases "ftimestamp f") auto
  show ?thesis
  proof (cases "ftimestamp e")
    case None
    with assms(3) checkForkOrder_unset [OF ys _ assms(5)] t'(1) show ?thesis
      by (auto simp: forkSet_def)
  next
    case (Some t)
    from checkForkOrder_time_le [OF ys Some assms(4,5) t'(1)] t'(2) Some show ?thesis by simp
  qed
qed

lemma forkOrderList_facts:
  "length (forkOrderList c) = 23"
  "g \<in> set (drop 6 (forkOrderList c)) \<Longrightarrow> fblock g = None"
  "g \<in> set (take 15 (forkOrderList c)) \<Longrightarrow> \<not> foptional g"
  by (auto simp: forkOrderList_def forkEntry_def)

lemma forkOrderList_nth:
  "ftimestamp (forkOrderList c ! 6) = KeplerTime c"
  "ftimestamp (forkOrderList c ! 7) = CancunTime c"
  "ftimestamp (forkOrderList c ! 8) = PascalTime c"
  "ftimestamp (forkOrderList c ! 9) = PragueTime c"
  "ftimestamp (forkOrderList c ! 10) = LorentzTime c"
  "ftimestamp (forkOrderList c ! 11) = MaxwellTime c"
  "ftimestamp (forkOrderList c ! 12) = FermiTime c"
  "ftimestamp (forkOrderList c ! 13) = OsakaTime c"
  "ftimestamp (forkOrderList c ! 14) = MendelTime c"
  by (simp_all add: forkOrderList_def forkEntry_def)

lemma forkOrderList_active:
  assumes "checkForkOrder None (forkOrderList c) = None" "6 \<le> i" "i < j" "i < 15" "j < 23"
    and "isTimestampForked (ftimestamp (forkOrderList c ! j)) t"
  shows "isTimestampForked (ftimestamp (forkOrderList c ! i)) t"
proof -
  let ?xs = "forkOrderList c"
  have drop6: "set (drop i ?xs) \<subseteq> set (drop 6 ?xs)"
    using assms(2) by (rule set_drop_subset_set_drop)
  have split: "?xs = take i ?xs @ ?xs ! i # drop (Suc i) ?xs"
    using assms by (intro id_take_nth_drop) (simp add: forkOrderList_facts)
  have "drop i ?xs = ?xs ! i # drop (Suc i) ?xs"
    using assms by (intro Cons_nth_drop_Suc [symmetric]) (simp add: forkOrderList_facts)
  with drop6 have blk: "fblock g = None" if "g \<in> insert (?xs ! i) (set (drop (Suc i) ?xs))" for g
    using that forkOrderList_facts(2) [of g c] by auto
  have mand: "\<not> foptional (?xs ! i)"
    using assms by (intro forkOrderList_facts(3)) (auto simp: in_set_conv_nth forkOrderList_facts(1))
  have j: "?xs ! j \<in> set (drop (Suc i) ?xs)"
    using assms by (auto simp: in_set_conv_nth forkOrderList_facts(1) intro!: exI [of _ "j - Suc i"])
  have "checkForkOrder None (take i ?xs @ ?xs ! i # drop (Suc i) ?xs) = None"
    using assms(1) by (simp only: split [symmetric])
  then show ?thesis
    by (rule checkForkOrder_active [OF _ mand blk blk j assms(6)]) simp_all
qed

section \<open>The compatibility check terminates\<close>

lemma firstError_SomeD: "firstError xs = Some e \<Longrightarrow> Some e \<in> set xs"
  by (induction xs rule: firstError.induct) auto

lemma newBlockCompatError_rewind:
  assumes "isBlockForked s1 (Some (uint h)) \<or> isBlockForked s2 (Some (uint (h :: u64)))"
  shows "RewindToTime (newBlockCompatError w s1 s2) = 0 \<and>
    (RewindToBlock (newBlockCompatError w s1 s2) = 0 \<or> RewindToBlock (newBlockCompatError w s1 s2) < h)"
proof -
  have *: "word_of_int r - 1 < h" if "0 < r" "r \<le> uint h" for r
  proof -
    have "uint (word_of_int r :: u64) = r"
      using that uint_lt2p [of h] by (simp add: uint_word_of_int)
    with that show ?thesis
      by (simp add: word_less_def uint_sub_if')
  qed
  from assms show ?thesis
    by (cases s1; cases s2) (auto simp: newBlockCompatError_def Let_def intro!: *)
qed

lemma newTimestampCompatError_rewind:
  assumes "isTimestampForked s1 t \<or> isTimestampForked s2 t"
  shows "RewindToBlock (newTimestampCompatError w s1 s2) = 0 \<and>
    (RewindToTime (newTimestampCompatError w s1 s2) = 0 \<or> RewindToTime (newTimestampCompatError w s1 s2) < t)"
proof -
  have *: "r - 1 < t" if "r \<noteq> 0" "r \<le> t" for r :: u64
    using that by (simp add: word_less_def word_le_def uint_sub_if' word_neq_0_conv)
  from assms show ?thesis
    by (cases s1; cases s2) (auto simp: newTimestampCompatError_def Let_def word_gt_0 intro!: *)
qed

definition okErr :: "u64 \<Rightarrow> u64 \<Rightarrow> ConfigCompatError option \<Rightarrow> bool" where
  "okErr h t x = (case x of None \<Rightarrow> True | Some e \<Rightarrow>
     (RewindToTime e = 0 \<or> RewindToTime e < t) \<and> (RewindToBlock e = 0 \<or> RewindToBlock e < h))"

lemma okErr_checks:
  "okErr h t (if isForkBlockIncompatible s1 s2 (Some (uint h)) then Some (newBlockCompatError w s1 s2) else None)"
  "okErr h t (if isForkTimestampIncompatible u1 u2 t then Some (newTimestampCompatError w u1 u2) else None)"
  "okErr h t (if isForkBlockIncompatible s1 s2 (Some (uint h)) \<and> b then Some (newBlockCompatError w s1 s2) else None)"
  "okErr h t (if IsDAOFork c (Some (uint h)) \<and> b then Some (newBlockCompatError w (DAOForkBlock c) s2) else None)"
  "okErr h t (if IsEIP158 c (Some (uint h)) \<and> b then Some (newBlockCompatError w (EIP158Block c) s2) else None)"
  using newBlockCompatError_rewind [of s1 h s2 w] newTimestampCompatError_rewind [of u1 t u2 w]
    newBlockCompatError_rewind [of "DAOForkBlock c" h s2 w] newBlockCompatError_rewind [of "EIP158Block c" h s2 w]
  by (auto simp: okErr_def isForkBlockIncompatible_def isForkTimestampIncompatible_def IsDAOFork_def IsEIP158_def)

lemma firstError_list_all: "list_all (okErr h t) xs \<Longrightarrow> okErr h t (firstError xs)"
  by (induction xs rule: firstError.induct) (auto simp: okErr_def)

lemma checkCompatible_rewind:
  assumes "checkCompatible c n (Some (uint h)) t = Some err"
  shows "(RewindToTime err = 0 \<or> RewindToTime err < t) \<and> (RewindToBlock err = 0 \<or> RewindToBlock err < h)"
proof -
  have "okErr h t (checkCompatible c n (Some (uint h)) t)"
    unfolding checkCompatible_def Let_def
    by (rule firstError_list_all) (simp only: list.pred_inject okErr_checks simp_thms)
  with assms show ?thesis by (simp add: okErr_def)
qed

lemma compatLoop_total: "\<exists>r. compatLoop c n h t lasterr = Some r"
proof (induction "unat h + unat t" arbitrary: h t lasterr rule: less_induct)
  case less
  show ?case
  proof (cases "checkCompatible c n (Some (uint h)) t")
    case None
    then show ?thesis by (subst compatLoop.simps) simp
  next
    case (Some err)
    note rw = checkCompatible_rewind [OF Some]
    have time: "\<exists>r. compatLoop c n h (RewindToTime err) (Some err) = Some r" if "0 < RewindToTime err"
      using rw that by (intro less) (auto simp: word_less_nat_alt)
    have block: "\<exists>r. compatLoop c n (RewindToBlock err) t (Some err) = Some r"
    proof (cases "RewindToBlock err < h")
      case True
      then show ?thesis by (intro less) (simp add: word_less_nat_alt)
    next
      case False
      with rw have "RewindToBlock err = h" by (auto simp: word_gt_0)
      then have "compatLoop c n (RewindToBlock err) t (Some err) = Some (Some err)"
        using Some by (subst compatLoop.simps) simp
      then show ?thesis by blast
    qed
    show ?thesis
      using Some time block by (subst compatLoop.simps) (auto split: option.splits)
  qed
qed

lemma compatLoop_Some: "compatLoop c n h t (Some e) = Some r \<Longrightarrow> r \<noteq> None"
proof -
  assume ret: "compatLoop c n h t (Some e) = Some r"
  have "(lasterr \<noteq> None \<longrightarrow> r \<noteq> None)" if "compatLoop c n h t lasterr = Some r" for c n h t lasterr r
    by (rule compatLoop.raw_induct [where P = "\<lambda>c n h t le r. le \<noteq> None \<longrightarrow> r \<noteq> None", OF _ that])
      (auto split: option.splits if_splits)
  from this [OF ret] show ?thesis by simp
qed

text \<open>C2. \<open>CheckCompatible\<close> runs \<open>checkCompatible\<close> again and again with a rewound head, until no
  conflict is left or the conflict repeats. The loop ends for every pair of configurations and every
  head, and it reports no conflict exactly when the first check found none.\<close>

theorem CheckCompatible_decides:
  "\<exists>r. CheckCompatible c n height time = Some r \<and>
    (r = None \<longleftrightarrow> checkCompatible c n (Some (uint height)) time = None)"
proof -
  obtain r where r: "compatLoop c n height time None = Some r"
    using compatLoop_total by blast
  have "r = None \<longleftrightarrow> checkCompatible c n (Some (uint height)) time = None"
    using r [simplified compatLoop.simps [of c n height time None]]
    by (cases "checkCompatible c n (Some (uint height)) time")
       (auto split: if_splits dest: compatLoop_Some)
  with r show ?thesis by (simp add: CheckCompatible_def)
qed

end
