(* ===== verification/Chain_Types.thy ===== *)
theory Chain_Types
  imports Rlp_Roundtrip Params
begin

text \<open>
  Block headers and fast-finality votes (\<open>core/types/block.go\<close>, \<open>core/types/gen_header_rlp.go\<close>,
  \<open>core/types/vote.go\<close>), the interface of the chain to the consensus engine, the error values of the
  engine and the cryptographic primitives it calls.

  The primitives are not part of the repository; they are the fields of \<open>crypto\<close>, which every
  definition that hashes or verifies takes as an argument. A hash of a header or of vote data is the
  Keccak hash of its RLP encoding, and the encoding is the one of \<open>Rlp_Encode\<close>.
\<close>

section \<open>Errors\<close>

datatype parlia_error =
    ErrUnknownAncestor | ErrFutureBlock | errUnknownBlock | errMissingVanity | errMissingSignature
  | errExtraValidators | errInvalidSpanValidators | errInvalidTurnLength | errInvalidSnake8Extra
  | errMismatchedSnake8ParentTime | errInvalidMixDigest | errInvalidUncleHash
  | errMismatchingEpochValidators | errMismatchingEpochTurnLength | errInvalidDifficulty
  | errWrongDifficulty | errOutOfRangeChain | errBlockHashInconsistent
  | errUnauthorizedValidator address | errCoinBaseMisMatch | errRecentlySigned
  | errRecoverFailed | errNotFound
  | RlpError rlp_error
  | ErrMsg string
  | Panic
  | NoReturn

text \<open>\<open>ErrMsg\<close> is an error made with \<open>errors.New\<close> or \<open>fmt.Errorf\<close>, without its arguments. \<open>Panic\<close> is a
  run-time panic: an index out of range, a division by zero, a nil dereference. \<open>NoReturn\<close> stands for a loop
  that has not ended within its fuel.\<close>

type_synonym 'a result = "parlia_error + 'a"

text \<open>Integer division and remainder panic on a zero divisor.\<close>

definition divC :: "u64 \<Rightarrow> u64 \<Rightarrow> u64 result" where
  "divC a b = (if b = 0 then Inl Panic else Inr (a div b))"

definition modC :: "u64 \<Rightarrow> u64 \<Rightarrow> u64 result" where
  "modC a b = (if b = 0 then Inl Panic else Inr (a mod b))"

lemma divC_pos [simp]: "b \<noteq> 0 \<Longrightarrow> divC a b = Inr (a div b)"
  by (simp add: divC_def)

lemma modC_pos [simp]: "b \<noteq> 0 \<Longrightarrow> modC a b = Inr (a mod b)"
  by (simp add: modC_def)

section \<open>Cryptographic primitives\<close>

record crypto =
  keccak256 :: "bytes \<Rightarrow> hash"
  Ecrecover :: "hash \<Rightarrow> bytes \<Rightarrow> bytes option"
  sha256 :: "bytes \<Rightarrow> hash"
  blsPublicKeyOK :: "blskey \<Rightarrow> bool"
  blsSignatureOK :: "blssig \<Rightarrow> bool"
  blsVerify :: "blskey \<Rightarrow> hash \<Rightarrow> blssig \<Rightarrow> bool"
  FastAggregateVerify :: "blskey list \<Rightarrow> hash \<Rightarrow> blssig \<Rightarrow> bool"
  AggregateSignatures :: "blssig list \<Rightarrow> blssig"
  MultipleSignaturesOK :: "blssig list \<Rightarrow> bool"

section \<open>Headers\<close>

record Header =
  ParentHash :: hash
  UncleHash :: hash
  Coinbase :: address
  Root :: hash
  TxHash :: hash
  ReceiptHash :: hash
  Bloom :: bytes
  Difficulty :: "int option"
  Number :: "int option"
  GasLimit :: u64
  GasUsed :: u64
  Time :: u64
  Extra :: bytes
  MixDigest :: hash
  Nonce :: u64
  BaseFee :: "int option"
  WithdrawalsHash :: "hash option"
  BlobGasUsed :: "u64 option"
  ExcessBlobGas :: "u64 option"
  ParentBeaconRoot :: "hash option"
  RequestsHash :: "hash option"

abbreviation numOf :: "Header \<Rightarrow> u64" where
  "numOf h \<equiv> bigUint64 (Number h)"

definition SetMilliseconds :: "u64 \<Rightarrow> Header \<Rightarrow> Header" where
  "SetMilliseconds milliseconds h = h\<lparr> MixDigest := ucast (milliseconds mod 1000) \<rparr>"

definition MilliTimestamp :: "Header \<Rightarrow> u64" where
  "MilliTimestamp h =
     (let milliseconds = (if MixDigest h \<noteq> 0 then ucast (MixDigest h) else 0)
      in Time h * 1000 + milliseconds)"

definition hashBytes :: "hash \<Rightarrow> bytes" where
  "hashBytes h = be_bytes 32 (unat h)"

definition nonceBytes :: "u64 \<Rightarrow> bytes" where
  "nonceBytes n = be_bytes 8 (unat n)"

definition sigBytes :: "blssig \<Rightarrow> bytes" where
  "sigBytes s = be_bytes 96 (unat s)"

text \<open>The generated encoder of a header.\<close>

definition writeBigOrEmpty :: "int option \<Rightarrow> encBuffer \<Rightarrow> rlp_error + encBuffer" where
  "writeBigOrEmpty x buf = (case x of
       None \<Rightarrow> Inr (append_str [0x80] buf)
     | Some i \<Rightarrow> if i < 0 then Inl ErrNegativeBigInt else Inr (writeBigInt i buf))"

definition writeHashOrEmpty :: "hash option \<Rightarrow> encBuffer \<Rightarrow> rlp_error + encBuffer" where
  "writeHashOrEmpty x buf = (case x of
       None \<Rightarrow> Inr (append_str [0x80] buf) | Some h \<Rightarrow> Inr (writeBytes (hashBytes h) buf))"

definition writeUintOrEmpty :: "u64 option \<Rightarrow> encBuffer \<Rightarrow> rlp_error + encBuffer" where
  "writeUintOrEmpty x buf = (case x of
       None \<Rightarrow> Inr (append_str [0x80] buf) | Some i \<Rightarrow> Inr (writeUint64 i buf))"

definition whenE :: "bool \<Rightarrow> (encBuffer \<Rightarrow> rlp_error + encBuffer) \<Rightarrow> encBuffer \<Rightarrow> rlp_error + encBuffer" where
  "whenE c f buf = (if c then f buf else Inr buf)"

definition Header_EncodeRLP :: "Header \<Rightarrow> encBuffer \<Rightarrow> rlp_error + encBuffer" where
  "Header_EncodeRLP obj w0 =
     (case list_begin w0 of (tmp0, w) \<Rightarrow>
      let w = writeBytes (hashBytes (ParentHash obj)) w;
          w = writeBytes (hashBytes (UncleHash obj)) w;
          w = writeBytes (addrBytes (Coinbase obj)) w;
          w = writeBytes (hashBytes (Root obj)) w;
          w = writeBytes (hashBytes (TxHash obj)) w;
          w = writeBytes (hashBytes (ReceiptHash obj)) w;
          w = writeBytes (Bloom obj) w in
      bindE (writeBigOrEmpty (Difficulty obj) w) (\<lambda>w.
      bindE (writeBigOrEmpty (Number obj) w) (\<lambda>w.
      let w = writeUint64 (GasLimit obj) w;
          w = writeUint64 (GasUsed obj) w;
          w = writeUint64 (Time obj) w;
          w = writeBytes (Extra obj) w;
          w = writeBytes (hashBytes (MixDigest obj)) w;
          w = writeBytes (nonceBytes (Nonce obj)) w;
          tmp1 = BaseFee obj \<noteq> None;
          tmp2 = WithdrawalsHash obj \<noteq> None;
          tmp3 = BlobGasUsed obj \<noteq> None;
          tmp4 = ExcessBlobGas obj \<noteq> None;
          tmp5 = ParentBeaconRoot obj \<noteq> None;
          tmp6 = RequestsHash obj \<noteq> None in
      bindE (whenE (tmp1 \<or> tmp2 \<or> tmp3 \<or> tmp4 \<or> tmp5 \<or> tmp6) (writeBigOrEmpty (BaseFee obj)) w) (\<lambda>w.
      bindE (whenE (tmp2 \<or> tmp3 \<or> tmp4 \<or> tmp5 \<or> tmp6) (writeHashOrEmpty (WithdrawalsHash obj)) w) (\<lambda>w.
      bindE (whenE (tmp3 \<or> tmp4 \<or> tmp5 \<or> tmp6) (writeUintOrEmpty (BlobGasUsed obj)) w) (\<lambda>w.
      bindE (whenE (tmp4 \<or> tmp5 \<or> tmp6) (writeUintOrEmpty (ExcessBlobGas obj)) w) (\<lambda>w.
      bindE (whenE (tmp5 \<or> tmp6) (writeHashOrEmpty (ParentBeaconRoot obj)) w) (\<lambda>w.
      bindE (whenE tmp6 (writeHashOrEmpty (RequestsHash obj)) w) (\<lambda>w.
      Inr (listEnd tmp0 w))))))))))"

definition headerRLP :: "Header \<Rightarrow> rlp_error + bytes" where
  "headerRLP h = bindE (Header_EncodeRLP h reset) (\<lambda>buf. Inr (makeBytes buf))"

text \<open>\<open>rlpHash\<close> ignores an encoding error: nothing is written to the hasher then.\<close>

definition rlpHash :: "crypto \<Rightarrow> rlp_error + bytes \<Rightarrow> hash" where
  "rlpHash C e = keccak256 C (case e of Inl _ \<Rightarrow> [] | Inr b \<Rightarrow> b)"

definition Hash :: "crypto \<Rightarrow> Header \<Rightarrow> hash" where
  "Hash C h = rlpHash C (headerRLP h)"

text \<open>What the seal signs: a list of values of different types, encoded one by one. The slice expression panics when the extra data is shorter than the seal.\<close>

abbreviation extraSeal :: nat where "extraSeal \<equiv> 65"
abbreviation extraVanity :: nat where "extraVanity \<equiv> 32"

definition sigHeaderFields :: "Header \<Rightarrow> int option \<Rightarrow> (rtype \<times> rval) list" where
  "sigHeaderFields h chainId =
     [(TBigInt, VBigInt chainId),
      (TArray 32, VArray (hashBytes (ParentHash h))), (TArray 32, VArray (hashBytes (UncleHash h))),
      (TArray 20, VArray (addrBytes (Coinbase h))), (TArray 32, VArray (hashBytes (Root h))),
      (TArray 32, VArray (hashBytes (TxHash h))), (TArray 32, VArray (hashBytes (ReceiptHash h))),
      (TArray 256, VArray (Bloom h)), (TBigInt, VBigInt (Difficulty h)), (TBigInt, VBigInt (Number h)),
      (TUint 64, VUint (GasLimit h)), (TUint 64, VUint (GasUsed h)), (TUint 64, VUint (Time h)),
      (TBytes, VBytes (take (length (Extra h) - extraSeal) (Extra h))),
      (TArray 32, VArray (hashBytes (MixDigest h))), (TArray 8, VArray (nonceBytes (Nonce h)))] @
     (case ParentBeaconRoot h of None \<Rightarrow> []
      | Some root \<Rightarrow>
          [(TBigInt, VBigInt (BaseFee h)),
           (TPtr (TArray 32), VPtr (map_option (\<lambda>x. VArray (hashBytes x)) (WithdrawalsHash h))),
           (TPtr (TUint 64), VPtr (map_option VUint (BlobGasUsed h))),
           (TPtr (TUint 64), VPtr (map_option VUint (ExcessBlobGas h))),
           (TPtr (TArray 32), VPtr (Some (VArray (hashBytes root))))] @
          (case RequestsHash h of None \<Rightarrow> []
           | Some r \<Rightarrow> [(TPtr (TArray 32), VPtr (Some (VArray (hashBytes r))))]))"

definition EncodeSigHeader :: "Header \<Rightarrow> int option \<Rightarrow> bytes result" where
  "EncodeSigHeader h chainId =
     (if length (Extra h) < extraSeal then Inl Panic
      else (let flds = sigHeaderFields h chainId in
        case EncodeToBytes (TStruct (map fst flds) (length flds)) (VStruct (map snd flds)) of
          Inl _ \<Rightarrow> Inl Panic
        | Inr b \<Rightarrow> Inr b))"

definition SealHash :: "crypto \<Rightarrow> Header \<Rightarrow> int option \<Rightarrow> hash result" where
  "SealHash C h chainId = bindE (EncodeSigHeader h chainId) (\<lambda>b. Inr (keccak256 C b))"

definition SanityCheck :: "Header \<Rightarrow> unit result" where
  "SanityCheck h =
     (if (case Number h of None \<Rightarrow> False | Some n \<Rightarrow> \<not> (0 \<le> n \<and> n < 2 ^ 64))
      then Inl (ErrMsg ''too large block number'')
      else if (case Difficulty h of None \<Rightarrow> False | Some d \<Rightarrow> 80 < bitLen (nat \<bar>d\<bar>))
      then Inl (ErrMsg ''too large block difficulty'')
      else if 100 * 1024 < length (Extra h) then Inl (ErrMsg ''too large block extradata'')
      else if (case BaseFee h of None \<Rightarrow> False | Some b \<Rightarrow> 256 < bitLen (nat \<bar>b\<bar>))
      then Inl (ErrMsg ''too large base fee'')
      else Inr ())"

definition EmptyTxsHash :: hash where
  "EmptyTxsHash = 0x56e81f171bcc55a6ff8345e692c0f86e5b48e01b996cadc001622fb5e363b421"

definition EmptyReceiptsHash :: hash where
  "EmptyReceiptsHash = 0x56e81f171bcc55a6ff8345e692c0f86e5b48e01b996cadc001622fb5e363b421"

definition EmptyWithdrawalsHash :: hash where
  "EmptyWithdrawalsHash = 0x56e81f171bcc55a6ff8345e692c0f86e5b48e01b996cadc001622fb5e363b421"

definition EmptyRequestsHash :: hash where
  "EmptyRequestsHash = 0xe3b0c44298fc1c149afbf4c8996fb92427ae41e4649b934ca495991b7852b855"

text \<open>The hash of a nil slice of headers, which is encoded as the empty list.\<close>

definition EmptyUncleHash :: "crypto \<Rightarrow> hash" where
  "EmptyUncleHash C = rlpHash C (EncodeToBytes (TSlice (TPtr (TStruct [] 0))) (VSlice []))"

definition EmptyBody :: "crypto \<Rightarrow> Header \<Rightarrow> bool" where
  "EmptyBody C h \<longleftrightarrow>
     (let emptyWithdrawals = (WithdrawalsHash h = None \<or> WithdrawalsHash h = Some EmptyWithdrawalsHash)
      in TxHash h = EmptyTxsHash \<and> UncleHash h = EmptyUncleHash C \<and> emptyWithdrawals)"

definition EmptyReceipts :: "Header \<Rightarrow> bool" where
  "EmptyReceipts h \<longleftrightarrow> ReceiptHash h = EmptyReceiptsHash"

definition Header_EmptyWithdrawalsHash :: "Header \<Rightarrow> bool" where
  "Header_EmptyWithdrawalsHash h \<longleftrightarrow> WithdrawalsHash h = Some EmptyWithdrawalsHash"

section \<open>Votes\<close>

record VoteData =
  SourceNumber :: u64
  SourceHash :: hash
  TargetNumber :: u64
  TargetHash :: hash

record VoteEnvelope =
  VoteAddress :: blskey
  Signature :: blssig
  EnvData :: "VoteData option"

record VoteAttestation =
  VoteAddressSet :: u64
  AggSignature :: blssig
  AttData :: "VoteData option"
  AttExtra :: bytes

definition voteDataType :: rtype where
  "voteDataType = TStruct [TUint 64, TArray 32, TUint 64, TArray 32] 4"

definition voteDataVal :: "VoteData \<Rightarrow> rval" where
  "voteDataVal d = VStruct [VUint (SourceNumber d), VArray (hashBytes (SourceHash d)),
     VUint (TargetNumber d), VArray (hashBytes (TargetHash d))]"

text \<open>The receiver is a pointer; a nil one is encoded as an empty list.\<close>

definition VoteData_Hash :: "crypto \<Rightarrow> VoteData option \<Rightarrow> hash" where
  "VoteData_Hash C d = rlpHash C (EncodeToBytes (TPtr voteDataType) (VPtr (map_option voteDataVal d)))"

definition voteEnvelopeType :: rtype where
  "voteEnvelopeType = TStruct [TArray 48, TArray 96, TPtr voteDataType] 3"

definition calcVoteHash :: "crypto \<Rightarrow> VoteEnvelope \<Rightarrow> hash" where
  "calcVoteHash C v = rlpHash C (EncodeToBytes voteEnvelopeType
     (VStruct [VArray (blsBytes (VoteAddress v)), VArray (sigBytes (Signature v)),
       VPtr (map_option voteDataVal (EnvData v))]))"

definition VoteEnvelope_Verify :: "crypto \<Rightarrow> VoteEnvelope \<Rightarrow> unit result" where
  "VoteEnvelope_Verify C v =
     (if \<not> blsPublicKeyOK C (VoteAddress v) then Inl (ErrMsg ''convert public key from bytes to bls failed'')
      else if \<not> blsSignatureOK C (Signature v) then Inl (ErrMsg ''invalid signature'')
      else if \<not> blsVerify C (VoteAddress v) (VoteData_Hash C (EnvData v)) (Signature v)
      then Inl (ErrMsg ''verify bls signature failed.'')
      else Inr ())"

definition attestationType :: rtype where
  "attestationType = TStruct [TUint 64, TArray 96, TPtr voteDataType, TBytes] 4"

definition attestationVal :: "VoteAttestation \<Rightarrow> rval" where
  "attestationVal a = VStruct [VUint (VoteAddressSet a), VArray (sigBytes (AggSignature a)),
     VPtr (map_option voteDataVal (AttData a)), VBytes (AttExtra a)]"

text \<open>Reading the decoded value back into the Go struct.\<close>

definition valVoteData :: "rval \<Rightarrow> VoteData option" where
  "valVoteData v = (case v of
       VStruct [VUint sn, VArray sh, VUint tn, VArray th] \<Rightarrow>
         Some \<lparr> SourceNumber = sn, SourceHash = of_nat (be_nat sh), TargetNumber = tn,
                TargetHash = of_nat (be_nat th) \<rparr>
     | _ \<Rightarrow> None)"

definition valAttestation :: "rval \<Rightarrow> VoteAttestation option" where
  "valAttestation v = (case v of
       VStruct [VUint s, VArray sig, VPtr (Some d), VBytes e] \<Rightarrow>
         Some \<lparr> VoteAddressSet = s, AggSignature = of_nat (be_nat sig), AttData = valVoteData d, AttExtra = e \<rparr>
     | _ \<Rightarrow> None)"

definition decodeAttestation :: "bytes \<Rightarrow> rlp_error + VoteAttestation" where
  "decodeAttestation b = bindE (Decode attestationType b) (\<lambda>v.
     case valAttestation v of None \<Rightarrow> Inl IllTyped | Some a \<Rightarrow> Inr a)"

section \<open>The chain as the engine sees it\<close>

record chain_reader =
  Config :: ChainConfig
  CurrentHeader :: "Header option"
  GetHeader :: "hash \<Rightarrow> u64 \<Rightarrow> Header option"
  GetHeaderByNumber :: "u64 \<Rightarrow> Header option"
  GetHeaderByHash :: "hash \<Rightarrow> Header option"
  GetVerifiedBlockByHash :: "hash \<Rightarrow> Header option"

lemma length_hashBytes [simp]: "length (hashBytes h) = 32"
  by (simp add: hashBytes_def)

lemma length_nonceBytes [simp]: "length (nonceBytes n) = 8"
  by (simp add: nonceBytes_def)

lemma length_sigBytes [simp]: "length (sigBytes s) = 96"
  by (simp add: sigBytes_def)

end
