(* ===== verification/Header_Codec.thy ===== *)
theory Header_Codec
  imports Chain_Types
begin

text \<open>
  Properties of the header encodings. The generated encoder \<open>Header_EncodeRLP\<close> writes what the
  reflective encoder writes for the struct type \<open>headerType\<close>, so the round trip of the RLP codec applies:
  a header is determined by its RLP form (what \<open>Hash\<close> hashes). The same holds, up to the
  seal, for the list that \<open>SealHash\<close> hashes, which is the header list with the chain id in front.
\<close>

section \<open>The generated header encoder is the reflective one\<close>

definition headerTypes :: "rtype list" where
  "headerTypes =
     [TArray 32, TArray 32, TArray 20, TArray 32, TArray 32, TArray 32, TArray 256, TBigInt, TBigInt,
      TUint 64, TUint 64, TUint 64, TBytes, TArray 32, TArray 8, TBigInt, TPtr (TArray 32), TPtr (TUint 64),
      TPtr (TUint 64), TPtr (TArray 32), TPtr (TArray 32)]"

definition headerType :: rtype where
  "headerType = TStruct headerTypes 15"

definition headerVals :: "Header \<Rightarrow> rval list" where
  "headerVals h =
     [VArray (hashBytes (ParentHash h)), VArray (hashBytes (UncleHash h)), VArray (addrBytes (Coinbase h)),
      VArray (hashBytes (Root h)), VArray (hashBytes (TxHash h)), VArray (hashBytes (ReceiptHash h)),
      VArray (Bloom h), VBigInt (Difficulty h), VBigInt (Number h), VUint (GasLimit h), VUint (GasUsed h),
      VUint (Time h), VBytes (Extra h), VArray (hashBytes (MixDigest h)), VArray (nonceBytes (Nonce h)),
      VBigInt (BaseFee h), VPtr (map_option (\<lambda>x. VArray (hashBytes x)) (WithdrawalsHash h)),
      VPtr (map_option VUint (BlobGasUsed h)), VPtr (map_option VUint (ExcessBlobGas h)),
      VPtr (map_option (\<lambda>x. VArray (hashBytes x)) (ParentBeaconRoot h)),
      VPtr (map_option (\<lambda>x. VArray (hashBytes x)) (RequestsHash h))]"

definition headerVal :: "Header \<Rightarrow> rval" where
  "headerVal h = VStruct (headerVals h)"

lemma length_header_lists [simp]: "length headerTypes = 21" "length (headerVals h) = 21"
  by (simp_all add: headerTypes_def headerVals_def)

lemma writeBytes_array: "length b = n \<Longrightarrow> n < 2 ^ 64 \<Longrightarrow> writeBytes b = writeByteArray b"
  by (rule ext) (simp add: writeByteArray_eq writeBytes_eq)

lemma writeOrEmpty_makeWriter:
  "makeWriter TBigInt (VBigInt i) = writeBigOrEmpty i"
  "makeWriter (TPtr (TArray 32)) (VPtr (map_option (\<lambda>x. VArray (hashBytes x)) h)) = writeHashOrEmpty h"
  "makeWriter (TPtr (TUint 64)) (VPtr (map_option VUint u)) = writeUintOrEmpty u"
  by (auto simp: fun_eq_iff writeBigOrEmpty_def writeHashOrEmpty_def writeUintOrEmpty_def
      writeBytes_array [of _ 32] typeNilKind_def split: option.splits)


lemma makeWriter_plain:
  "makeWriter (TUint n) (VUint x) buf = Inr (writeUint64 x buf)"
  "makeWriter TBytes (VBytes b) buf = Inr (writeBytes b buf)"
  by simp_all

lemma writeFields_Cons: "writeFields (w # ws) (v # vs) buf = bindE (w v buf) (\<lambda>b. writeFields ws vs b)"
  by simp

lemma makeWriter_array: "length b = n \<Longrightarrow> n < 2 ^ 64 \<Longrightarrow> makeWriter (TArray n) (VArray b) buf = Inr (writeBytes b buf)"
  by (simp add: writeBytes_array [of b n])


text \<open>The number of optional fields that are written.\<close>

definition optionalCount :: "Header \<Rightarrow> nat" where
  "optionalCount h =
     (if RequestsHash h \<noteq> None then 6 else if ParentBeaconRoot h \<noteq> None then 5
      else if ExcessBlobGas h \<noteq> None then 4 else if BlobGasUsed h \<noteq> None then 3
      else if WithdrawalsHash h \<noteq> None then 2 else if BaseFee h \<noteq> None then 1 else 0)"

lemma optionalCount_le: "optionalCount h \<le> 6"
  by (simp add: optionalCount_def)

lemma lastField_header: "lastField (headerVals h) 15 21 = 15 + optionalCount h"
  by (simp add: headerVals_def optionalCount_def eval_nat_numeral)

lemma lastField_Cons: "lastField (v # vs) (Suc k) (Suc n) = Suc (lastField vs k n)" 
  by (induction n) auto

lemma Header_EncodeRLP_makeWriter:
  assumes "length (Bloom h) = 256"
  shows "Header_EncodeRLP h buf = makeWriter headerType (headerVal h) buf"
proof -
  note ms = makeWriter_array [of _ 32] makeWriter_array [of _ 20] makeWriter_array [of _ 8]
    makeWriter_array [of _ 256] writeOrEmpty_makeWriter makeWriter_plain writeFields_Cons
  show ?thesis
    unfolding headerType_def headerVal_def makeWriter.simps(9) rval.case length_header_lists lastField_header Let_def
    by (simp add: headerTypes_def headerVals_def assms bindE_assoc optionalCount_def Header_EncodeRLP_def
        whenE_def Let_def ms split: prod.split del: makeWriter.simps)
qed

section \<open>Sizes\<close>

lemma length_encHead_le: "n < 2 ^ 64 \<Longrightarrow> length (encHead sm lg n) \<le> 9"
  using length_minBytes_le [of n 8] by (simp add: encHead_def)

lemma length_encStr_le: "length b < 2 ^ 64 \<Longrightarrow> length (encStr b) \<le> length b + 9"
  using length_encHead_le [of "length b"] by (auto simp: encStr_def)

lemma length_encList_le: "length b < 2 ^ 64 \<Longrightarrow> length (encList b) \<le> length b + 9"
  using length_encHead_le [of "length b"] by (auto simp: encList_def)

lemma length_encList_small: "length b \<le> k \<Longrightarrow> k + 9 < 2 ^ 64 \<Longrightarrow> length (encList b) < 2 ^ 64"
  using length_encList_le [of b] by linarith

lemma length_encStr_small: "length b \<le> k \<Longrightarrow> k \<le> 2 ^ 20 \<Longrightarrow> length (encStr b) \<le> k + 9"
  using length_encStr_le [of b] by (simp add: order.trans)

lemma length_encFields_take:
  "list_all2 (\<lambda>f v. length (f v) \<le> k) fs vs \<Longrightarrow> length (encFields (take n fs) (take n vs)) \<le> n * k"
proof (induction fs vs arbitrary: n rule: list_all2_induct)
  case (Cons f fs v vs)
  show ?case
  proof (cases n)
    case (Suc m)
    with Cons(1) Cons(3) [of m] show ?thesis by simp
  qed simp
qed simp

section \<open>Well-formed headers\<close>

text \<open>The optional fields are set without a gap, as the forks introduced them.\<close>

definition wfHeader :: "Header \<Rightarrow> bool" where
  "wfHeader h \<longleftrightarrow> length (Bloom h) = 256 \<and>
     Difficulty h \<noteq> None \<and> 0 \<le> the (Difficulty h) \<and> Number h \<noteq> None \<and>
     (BaseFee h \<noteq> None \<longrightarrow> 0 \<le> the (BaseFee h)) \<and>
     (WithdrawalsHash h \<noteq> None \<longrightarrow> BaseFee h \<noteq> None) \<and>
     (BlobGasUsed h \<noteq> None \<longrightarrow> WithdrawalsHash h \<noteq> None) \<and>
     (ExcessBlobGas h \<noteq> None \<longrightarrow> BlobGasUsed h \<noteq> None) \<and>
     (ParentBeaconRoot h \<noteq> None \<longrightarrow> ExcessBlobGas h \<noteq> None) \<and>
     (RequestsHash h \<noteq> None \<longrightarrow> ParentBeaconRoot h \<noteq> None)"

abbreviation maxFieldSize :: nat where "maxFieldSize \<equiv> 102409"

lemma field_size:
  "length b \<le> 102400 \<Longrightarrow> length (encStr b) \<le> maxFieldSize"
  "n < 256 ^ 32 \<Longrightarrow> length (encStr (minBytes n)) \<le> maxFieldSize"
  "length (encStr (minBytes (unat (x :: u64)))) \<le> maxFieldSize"
proof -
  show 1: "length b \<le> 102400 \<Longrightarrow> length (encStr b) \<le> maxFieldSize" for b
    using length_encStr_small [of b 102400] by simp
  have 2: "n < 256 ^ k \<Longrightarrow> k \<le> 32 \<Longrightarrow> length (encStr (minBytes n)) \<le> maxFieldSize" for n k
    by (rule 1) (use length_minBytes_le [of n k] in simp)
  from 2 [of n 32] show "n < 256 ^ 32 \<Longrightarrow> length (encStr (minBytes n)) \<le> maxFieldSize" by simp
  from 2 [of "unat x" 8] unat_u64_less [of x] show "length (encStr (minBytes (unat x))) \<le> maxFieldSize" by simp
qed

lemma bigInt_field_size:
  assumes "\<And>k. i = Some k \<Longrightarrow> bitLen (nat \<bar>k\<bar>) \<le> 256"
  shows "length (encStr (minBytes (case i of None \<Rightarrow> 0 | Some k \<Rightarrow> nat k))) \<le> maxFieldSize"
proof (rule field_size(2))
  show "(case i of None \<Rightarrow> 0 | Some k \<Rightarrow> nat k) < 256 ^ 32"
  proof (cases i)
    case (Some k)
    with assms have "nat \<bar>k\<bar> < 2 ^ 256" by (simp add: bitLen_le)
    then have "nat k < 2 ^ 256" by (rule le_less_trans [rotated]) simp
    with Some show ?thesis by simp
  qed simp
qed

lemma ptr_field_size:
  "length (enc (TPtr (TArray n)) (VPtr (map_option (\<lambda>x. VArray (hashBytes x)) h))) \<le> maxFieldSize"
  "length (enc (TPtr (TUint n)) (VPtr (map_option VUint u))) \<le> maxFieldSize"
  using field_size(1) [of "hashBytes (the h)"] field_size(3) [of "the u"] by (cases h; cases u; simp)+

lemma SanityCheckD:
  assumes "SanityCheck h = Inr ()"
  shows "Number h = Some n \<Longrightarrow> 0 \<le> n \<and> n < 2 ^ 64"
    and "Number h = Some n \<Longrightarrow> bitLen (nat \<bar>n\<bar>) \<le> 256"
    and "Difficulty h = Some d \<Longrightarrow> bitLen (nat \<bar>d\<bar>) \<le> 256"
    and "length (Extra h) \<le> 102400"
    and "BaseFee h = Some b \<Longrightarrow> bitLen (nat \<bar>b\<bar>) \<le> 256"
proof -
  show 1: "Number h = Some n \<Longrightarrow> 0 \<le> n \<and> n < 2 ^ 64"
    using assms by (auto simp: SanityCheck_def split: if_splits)
  show "Number h = Some n \<Longrightarrow> bitLen (nat \<bar>n\<bar>) \<le> 256"
    using 1 by (simp add: bitLen_le nat_less_iff)
qed (use assms in \<open>auto simp: SanityCheck_def split: if_splits option.splits\<close>)

lemma field_hasType:
  "hasType (TUint 64) (VUint x)"
  "hasType TBigInt (VBigInt i) \<longleftrightarrow> (\<forall>k. i = Some k \<longrightarrow> 0 \<le> k)"
  "hasType (TPtr (TArray 32)) (VPtr (map_option (\<lambda>x. VArray (hashBytes x)) h))"
  "hasType (TPtr (TUint 64)) (VPtr (map_option VUint u))"
  using unat_u64_less [of x] unat_u64_less [of "the u"] by (simp, cases i, simp_all, (cases h; simp), (cases u; simp))

lemma header_hasTypes:
  assumes "wfHeader h" "SanityCheck h = Inr ()"
  shows "hasFields (map hasType headerTypes) (headerVals h)"
proof -
  have "0 \<le> k" if "Difficulty h = Some k \<or> Number h = Some k \<or> BaseFee h = Some k" for k
    using assms(1) SanityCheckD(1) [OF assms(2)] that by (auto simp: wfHeader_def)
  then show ?thesis
    using assms(1) by (simp add: headerTypes_def headerVals_def wfHeader_def field_hasType del: hasType.simps(1,3,6))
qed

lemma field_decodable:
  "decodable (TPtr (TArray n)) (VPtr (map_option (\<lambda>x. VArray (hashBytes x)) h)) \<longleftrightarrow> h \<noteq> None"
  "decodable (TPtr (TUint n)) (VPtr (map_option VUint u)) \<longleftrightarrow> u \<noteq> None"
  by (cases h; simp) (cases u; simp)

lemma header_decodables:
  assumes "wfHeader h" "n = 15 + optionalCount h"
  shows "hasFields (take n (map decodable headerTypes)) (take n (headerVals h))"
  using assms by (simp add: headerTypes_def headerVals_def wfHeader_def optionalCount_def field_decodable
      del: decodable.simps(2))

lemma header_sizes:
  assumes "SanityCheck h = Inr ()" "length (Bloom h) = 256"
  shows "list_all2 (\<lambda>f v. length (f v) \<le> maxFieldSize) (map enc headerTypes) (headerVals h)"
proof -
  note sizes = field_size(1,3) ptr_field_size bigInt_field_size [OF SanityCheckD(2) [OF assms(1)]]
    bigInt_field_size [OF SanityCheckD(3) [OF assms(1)]] bigInt_field_size [OF SanityCheckD(5) [OF assms(1)]]
    SanityCheckD(4) [OF assms(1)]
  show ?thesis
    by (auto simp: headerTypes_def headerVals_def assms(2) sizes simp del: enc.simps(6))
qed

lemma fields_size:
  assumes "list_all2 (\<lambda>f v. length (f v) \<le> maxFieldSize) fs vs" "n \<le> 22"
  shows "length (encList (encFields (take n fs) (take n vs))) < 2 ^ 64"
proof (rule length_encList_small)
  have "n * maxFieldSize \<le> 22 * maxFieldSize" using assms(2) by simp
  with length_encFields_take [OF assms(1), of n]
  show "length (encFields (take n fs) (take n vs)) \<le> 22 * maxFieldSize" by linarith
qed simp

lemma header_size:
  assumes "SanityCheck h = Inr ()" "length (Bloom h) = 256"
  shows "length (enc headerType (headerVal h)) < 2 ^ 64"
  using fields_size [OF header_sizes [OF assms], of "15 + optionalCount h"] optionalCount_le [of h]
  by (simp add: headerType_def headerVal_def lastField_header Let_def)

section \<open>Round trip\<close>

lemma headerRLP_enc:
  assumes "wfHeader h" "SanityCheck h = Inr ()"
  shows "headerRLP h = Inr (enc headerType (headerVal h))"
    and "DecodeBytes headerType (enc headerType (headerVal h)) = Inr (headerVal h)"
proof -
  have bloom: "length (Bloom h) = 256" using assms(1) by (simp add: wfHeader_def)
  have type: "hasType headerType (headerVal h)" "wfType headerType"
    using header_hasTypes [OF assms] by (simp_all add: headerType_def headerVal_def headerTypes_def)
  have dec: "decodable headerType (headerVal h)"
    using header_decodables [OF assms(1) refl] by (simp add: headerType_def headerVal_def lastField_header Let_def)
  note size = header_size [OF assms(2) bloom]
  show "headerRLP h = Inr (enc headerType (headerVal h))"
    using EncodeToBytes_enc [OF type(1) size]
    by (simp add: headerRLP_def EncodeToBytes_def Header_EncodeRLP_makeWriter [OF bloom])
  show "DecodeBytes headerType (enc headerType (headerVal h)) = Inr (headerVal h)"
    by (rule DecodeBytes_enc [OF type(2,1) dec size])
qed

lemma be_bytes_inverse:
  fixes w :: "'a::len word"
  assumes "LENGTH('a) = 8 * n"
  shows "of_nat (be_nat (be_bytes n (unat w))) = w"
proof -
  have "unat w < 256 ^ n" using unat_less_exp [of w] by (simp add: assms power_mult)
  then show ?thesis by (simp add: be_nat_be_bytes)
qed

lemma hashBytes_inverse [simp]: "of_nat (be_nat (hashBytes h)) = h"
  unfolding hashBytes_def by (rule be_bytes_inverse) simp

lemma nonceBytes_inverse [simp]: "of_nat (be_nat (nonceBytes n)) = n"
  unfolding nonceBytes_def by (rule be_bytes_inverse) simp

lemma sigBytes_inverse [simp]: "of_nat (be_nat (sigBytes s)) = s"
  unfolding sigBytes_def by (rule be_bytes_inverse) simp

lemma hashBytes_inject [simp]: "hashBytes a = hashBytes b \<longleftrightarrow> a = b"
  using hashBytes_inverse by metis

lemma nonceBytes_inject [simp]: "nonceBytes a = nonceBytes b \<longleftrightarrow> a = b"
  using nonceBytes_inverse by metis

lemma addrBytes_inject [simp]: "addrBytes a = addrBytes b \<longleftrightarrow> a = b"
  using BytesToAddress_addrBytes by metis

lemma map_option_hash_inject [simp]:
  "map_option (\<lambda>x. VArray (hashBytes x)) a = map_option (\<lambda>x. VArray (hashBytes x)) b \<longleftrightarrow> a = b"
  by (cases a; cases b) auto

lemma map_option_VUint_inject [simp]: "map_option VUint a = map_option VUint b \<longleftrightarrow> a = b"
  by (cases a; cases b) auto

lemma headerVals_inject: "headerVals h = headerVals h' \<Longrightarrow> h = h'"
  by (rule Header.equality) (simp_all add: headerVals_def)

section \<open>What the seal signs\<close>

text \<open>The part of a header that goes into the seal hash: without the last 65 bytes of the extra data
  and, when there is no beacon root, without the other optional fields.\<close>

definition sigView :: "Header \<Rightarrow> Header" where
  "sigView h =
     (let h' = h\<lparr> Extra := take (length (Extra h) - extraSeal) (Extra h) \<rparr> in
      if ParentBeaconRoot h = None
      then h'\<lparr> BaseFee := None, WithdrawalsHash := None, BlobGasUsed := None, ExcessBlobGas := None,
               RequestsHash := None \<rparr>
      else h')"

definition sigHeaderType :: rtype where
  "sigHeaderType = TStruct (TBigInt # headerTypes) 16"

definition sigHeaderVal :: "int option \<Rightarrow> Header \<Rightarrow> rval" where
  "sigHeaderVal c h = VStruct (VBigInt c # headerVals (sigView h))"

lemma sigHeaderFields_eq:
  assumes "n = 16 + optionalCount (sigView h)"
  shows "map fst (sigHeaderFields h c) = take n (TBigInt # headerTypes)"
    and "map snd (sigHeaderFields h c) = take n (VBigInt c # headerVals (sigView h))"
proof -
  have "optionalCount (sigView h) =
      (if ParentBeaconRoot h = None then 0 else if RequestsHash h = None then 5 else 6)"
    by (cases "ParentBeaconRoot h"; cases "RequestsHash h"; simp add: optionalCount_def sigView_def Let_def)
  then consider "ParentBeaconRoot h = None" "n = 16"
    | r where "ParentBeaconRoot h = Some r" "RequestsHash h = None" "n = 21"
    | r q where "ParentBeaconRoot h = Some r" "RequestsHash h = Some q" "n = 22"
    using assms by (cases "ParentBeaconRoot h"; cases "RequestsHash h") auto
  then show "map fst (sigHeaderFields h c) = take n (TBigInt # headerTypes)"
    and "map snd (sigHeaderFields h c) = take n (VBigInt c # headerVals (sigView h))"
    by (cases; simp add: sigHeaderFields_def headerTypes_def headerVals_def sigView_def Let_def)+
qed

lemma lastField_required: "lastField vs n n = n"
  by (cases n) simp_all

lemma wfHeader_sigView: "wfHeader h \<Longrightarrow> wfHeader (sigView h)"
  by (simp add: wfHeader_def sigView_def Let_def)

lemma SanityCheck_sigView: "SanityCheck h = Inr () \<Longrightarrow> SanityCheck (sigView h) = Inr ()"
  by (auto simp: SanityCheck_def sigView_def Let_def split: if_splits option.splits)

lemma lastField_sigHeader:
  "lastField (VBigInt c # headerVals (sigView h)) 16 22 = Suc (15 + optionalCount (sigView h))"
  using lastField_Cons [of "VBigInt c" "headerVals (sigView h)" 15 21] lastField_header [of "sigView h"]
  by (simp add: eval_nat_numeral)

lemma sigHeader_facts:
  assumes "wfHeader h" "SanityCheck h = Inr ()" "0 \<le> c" "c < 2 ^ 256"
  shows "hasType sigHeaderType (sigHeaderVal (Some c) h)"
    and "decodable sigHeaderType (sigHeaderVal (Some c) h)"
    and "length (enc sigHeaderType (sigHeaderVal (Some c) h)) < 2 ^ 64"
proof -
  let ?h = "sigView h"
  note wf = wfHeader_sigView [OF assms(1)] and ok = SanityCheck_sigView [OF assms(2)]
  have bloom: "length (Bloom ?h) = 256" using wf by (simp add: wfHeader_def)
  define m where "m = 15 + optionalCount ?h"
  have lf: "lastField (VBigInt (Some c) # headerVals ?h) 16 22 = Suc m"
    unfolding m_def by (rule lastField_sigHeader)
  show "hasType sigHeaderType (sigHeaderVal (Some c) h)"
    using header_hasTypes [OF wf ok] assms(3) by (simp add: sigHeaderType_def sigHeaderVal_def)
  show "decodable sigHeaderType (sigHeaderVal (Some c) h)"
    using header_decodables [OF wf m_def] by (simp add: sigHeaderType_def sigHeaderVal_def lf Let_def)
  have "bitLen (nat \<bar>c\<bar>) \<le> 256" using assms(3,4) by (simp add: bitLen_le nat_less_iff)
  then have "length (encStr (minBytes (nat c))) \<le> maxFieldSize"
    using bigInt_field_size [of "Some c"] by simp
  then have "list_all2 (\<lambda>f v. length (f v) \<le> maxFieldSize) (map enc (TBigInt # headerTypes))
      (VBigInt (Some c) # headerVals ?h)"
    using header_sizes [OF ok bloom] by simp
  from fields_size [OF this, of "Suc m"] optionalCount_le [of ?h]
  show "length (enc sigHeaderType (sigHeaderVal (Some c) h)) < 2 ^ 64"
    by (simp add: sigHeaderType_def sigHeaderVal_def lf Let_def m_def [symmetric])
      (simp add: m_def)
qed

lemma enc_struct_take:
  assumes "lastField vs k (length vs) = m" "m \<le> length vs"
  shows "enc (TStruct (take m ts) m) (VStruct (take m vs)) = enc (TStruct ts k) (VStruct vs)"
  using assms by (simp add: lastField_required Let_def take_map min_def)

lemma hasFields_take: "hasFields ps vs \<Longrightarrow> hasFields (take n ps) (take n vs)"
  by (induction ps vs arbitrary: n rule: hasFields.induct) (auto simp: take_Cons split: nat.splits)

lemma hasType_struct_take:
  "hasType (TStruct ts k) (VStruct vs) \<Longrightarrow> hasType (TStruct (take m ts) n) (VStruct (take m vs))"
  using hasFields_take [of "map hasType ts" vs m] by (simp add: take_map)

lemma EncodeSigHeader_enc:
  assumes "wfHeader h" "SanityCheck h = Inr ()" "0 \<le> c" "c < 2 ^ 256" "extraSeal \<le> length (Extra h)"
  shows "EncodeSigHeader h (Some c) = Inr (enc sigHeaderType (sigHeaderVal (Some c) h))"
proof -
  define m where "m = Suc (15 + optionalCount (sigView h))"
  let ?ts = "take m (TBigInt # headerTypes)" and ?vs = "take m (VBigInt (Some c) # headerVals (sigView h))"
  have m: "m \<le> 22" "m = 16 + optionalCount (sigView h)"
    using optionalCount_le [of "sigView h"] by (simp_all add: m_def)
  have len: "length ?ts = m" "length ?vs = m" "length (sigHeaderFields h (Some c)) = m"
    using m(1) arg_cong [OF sigHeaderFields_eq(1) [OF m(2), of "Some c"], of length] by simp_all
  note facts = sigHeader_facts [OF assms(1-4)]
  have enc: "enc (TStruct ?ts m) (VStruct ?vs) = enc sigHeaderType (sigHeaderVal (Some c) h)"
    unfolding sigHeaderType_def sigHeaderVal_def
    by (rule enc_struct_take) (use m(1) lastField_sigHeader [of "Some c" h, folded m_def] in simp_all)
  have "hasType (TStruct ?ts m) (VStruct ?vs)"
    using facts(1) unfolding sigHeaderType_def sigHeaderVal_def by (rule hasType_struct_take)
  with facts(3) have "EncodeToBytes (TStruct ?ts m) (VStruct ?vs) = Inr (enc sigHeaderType (sigHeaderVal (Some c) h))"
    using EncodeToBytes_enc [of "TStruct ?ts m" "VStruct ?vs"] by (simp only: enc)
  with assms(5) len(3) show ?thesis
    by (simp add: EncodeSigHeader_def Let_def sigHeaderFields_eq [OF m(2)])
qed

section \<open>Theorems\<close>

lemma SanityCheck_Extra:
  "SanityCheck h = Inr () \<Longrightarrow> length e \<le> 100 * 1024 \<Longrightarrow> SanityCheck (h\<lparr> Extra := e \<rparr>) = Inr ()"
  by (auto simp: SanityCheck_def split: if_splits)

definition exampleHeader :: Header where
  "exampleHeader = \<lparr> ParentHash = 1, UncleHash = 2, Coinbase = 3, Root = 4, TxHash = 5, ReceiptHash = 6,
     Bloom = replicate 256 0, Difficulty = Some 2, Number = Some 100, GasLimit = 30000000, GasUsed = 21000,
     Time = 1700000000, Extra = replicate 97 7, MixDigest = 0, Nonce = 0, BaseFee = Some 0,
     WithdrawalsHash = Some 8, BlobGasUsed = Some 0, ExcessBlobGas = Some 0, ParentBeaconRoot = Some 0,
     RequestsHash = None \<rparr>"

lemma exampleHeader_ok: "wfHeader exampleHeader" "SanityCheck exampleHeader = Inr ()" "length (Extra exampleHeader) = 97"
proof -
  have "bitLen 2 \<le> 80" "bitLen 0 \<le> 256" by (simp_all add: bitLen_le)
  then show "SanityCheck exampleHeader = Inr ()" by (simp add: SanityCheck_def exampleHeader_def)
qed (simp_all add: wfHeader_def exampleHeader_def)

text \<open>C8. A header that passes \<open>SanityCheck\<close> and whose optional fields are set without a gap is encoded
  by the generated encoder without an error, and decoding the result by reflection returns the same
  field values.\<close>

theorem header_rlp_roundtrip:
  assumes "wfHeader h" "SanityCheck h = Inr ()"
  shows "bindE (headerRLP h) (DecodeBytes headerType) = Inr (headerVal h)"
  by (simp add: headerRLP_enc [OF assms])

theorem header_rlp_roundtrip_witness:
  "bindE (headerRLP exampleHeader) (DecodeBytes headerType) = Inr (headerVal exampleHeader)"
  by (rule header_rlp_roundtrip) (simp_all add: exampleHeader_ok)

text \<open>C7. The seal covers the header: if two headers have the same bytes to sign, they agree in every field
  apart from the last 65 bytes of the extra data, and their chain ids agree. When the beacon root is
  missing the other optional fields are not covered (\<open>sigView\<close> drops them).\<close>

theorem seal_covers_header:
  assumes "wfHeader h" "SanityCheck h = Inr ()" "extraSeal \<le> length (Extra h)"
    and "wfHeader h'" "SanityCheck h' = Inr ()" "extraSeal \<le> length (Extra h')"
    and "0 \<le> c" "c < 2 ^ 256" "0 \<le> c'" "c' < 2 ^ 256"
    and "EncodeSigHeader h (Some c) = EncodeSigHeader h' (Some c')"
  shows "c = c' \<and> sigView h = sigView h'"
proof -
  note f = sigHeader_facts [OF assms(1,2,7,8)] and f' = sigHeader_facts [OF assms(4,5,9,10)]
  have "enc sigHeaderType (sigHeaderVal (Some c) h) = enc sigHeaderType (sigHeaderVal (Some c') h')"
    using EncodeSigHeader_enc [OF assms(1,2,7,8,3)] EncodeSigHeader_enc [OF assms(4,5,9,10,6)] assms(11) by simp
  moreover have wf: "wfType sigHeaderType" by (simp add: sigHeaderType_def headerTypes_def)
  ultimately have "Inr (sigHeaderVal (Some c) h) = (Inr (sigHeaderVal (Some c') h') :: rlp_error + rval)"
    using DecodeBytes_enc [OF wf f] DecodeBytes_enc [OF wf f'] by metis
  then have "c = c'" "headerVals (sigView h) = headerVals (sigView h')"
    by (simp_all only: sigHeaderVal_def sum.inject rval.inject list.inject option.inject)
  then show ?thesis by (blast dest: headerVals_inject)
qed

theorem seal_covers_header_witness:
  "1 = (1 :: int) \<and> sigView exampleHeader = sigView (exampleHeader\<lparr> Extra := replicate 32 7 @ replicate 65 9 \<rparr>)"
proof (rule seal_covers_header)
  show "EncodeSigHeader exampleHeader (Some 1)
      = EncodeSigHeader (exampleHeader\<lparr> Extra := replicate 32 7 @ replicate 65 9 \<rparr>) (Some 1)"
    by (simp add: EncodeSigHeader_def sigHeaderFields_def exampleHeader_def)
  show "wfHeader (exampleHeader\<lparr> Extra := replicate 32 7 @ replicate 65 9 \<rparr>)"
    "SanityCheck (exampleHeader\<lparr> Extra := replicate 32 7 @ replicate 65 9 \<rparr>) = Inr ()"
    using exampleHeader_ok(1) SanityCheck_Extra [OF exampleHeader_ok(2)] by (simp_all add: wfHeader_def)
qed (simp_all add: exampleHeader_ok)

text \<open>Without a beacon root two headers that differ in the base fee have the same seal hash.\<close>

lemma seal_ignores_base_fee:
  "ParentBeaconRoot h = None \<Longrightarrow> SealHash C (h\<lparr> BaseFee := b \<rparr>) c = SealHash C h c"
  by (simp add: SealHash_def EncodeSigHeader_def sigHeaderFields_def)

section \<open>Attestations\<close>

lemma struct_required:
  assumes "length vs = length ts" "length ts = n"
  shows "enc (TStruct ts n) (VStruct vs) = encList (encFields (map enc ts) vs)"
    and "decodable (TStruct ts n) (VStruct vs) = hasFields (map decodable ts) vs"
  using assms by (simp_all add: lastField_required Let_def)

lemma length_encFields_le:
  "list_all2 (\<lambda>f v. length (f v) \<le> k) fs vs \<Longrightarrow> length (encFields fs vs) \<le> length fs * k"
  using length_encFields_take [of k fs vs "length fs"] by (simp add: list_all2_lengthD)

lemma voteData_hasType: "hasType voteDataType (voteDataVal d)" "decodable voteDataType (voteDataVal d)"
  using unat_u64_less [of "SourceNumber d"] unat_u64_less [of "TargetNumber d"]
  by (simp_all add: voteDataType_def voteDataVal_def struct_required(2) del: decodable.simps(5))

lemma voteData_size: "length (enc voteDataType (voteDataVal d)) \<le> 200"
proof -
  have "length (encStr (minBytes (unat (x :: u64)))) \<le> 41" for x
    using length_encStr_small [of "minBytes (unat x)" 8] length_minBytes_le [of "unat x" 8] unat_u64_less [of x] by simp
  moreover have "length (encStr (hashBytes h)) \<le> 41" for h
    using length_encStr_small [of "hashBytes h" 32] by simp
  ultimately have "length (encFields (map enc [TUint 64, TArray 32, TUint 64, TArray 32])
      [VUint (SourceNumber d), VArray (hashBytes (SourceHash d)),
       VUint (TargetNumber d), VArray (hashBytes (TargetHash d))]) \<le> 4 * 41"
    by (intro order.trans [OF length_encFields_le [where k = 41]]) simp_all
  from length_encList_le [OF le_less_trans [OF this]] this show ?thesis
    by (simp add: voteDataType_def voteDataVal_def struct_required(1) del: enc.simps(9))
qed

lemma valVoteData_inverse [simp]: "valVoteData (voteDataVal d) = Some d"
  by (simp add: valVoteData_def voteDataVal_def)

lemma Decode_enc:
  assumes "wfType t" "hasType t v" "decodable t v" "length (enc t v) < 2 ^ 64"
  shows "Decode t (enc t v @ rest) = Inr v"
proof -
  let ?s = "Reset (enc t v @ rest) 0 True"
  have "kind ?s = None" "ready (length (enc t v)) ?s" "sr ?s = enc t v @ rest"
    by (simp_all add: Reset_def ready_def)
  from readsE [OF reads_makeDecoder [OF assms] this] obtain s' where "makeDecoder t ?s = Inr (v, s')" by blast
  then show ?thesis by (simp add: Decode_def)
qed

lemma attestation_facts:
  assumes "AttData a = Some d" "length (AttExtra a) \<le> 102400"
  shows "hasType attestationType (attestationVal a)" "decodable attestationType (attestationVal a)"
    and "length (enc attestationType (attestationVal a)) < 2 ^ 64" "wfType attestationType"
proof -
  show "hasType attestationType (attestationVal a)" "decodable attestationType (attestationVal a)"
    using voteData_hasType [of d] assms unat_u64_less [of "VoteAddressSet a"]
    by (simp_all add: attestationType_def attestationVal_def struct_required(2) del: decodable.simps(5))
  have "list_all2 (\<lambda>f v. length (f v) \<le> maxFieldSize) (map enc [TUint 64, TArray 96, TPtr voteDataType, TBytes])
      [VUint (VoteAddressSet a), VArray (sigBytes (AggSignature a)), VPtr (Some (voteDataVal d)), VBytes (AttExtra a)]"
    using voteData_size [of d] assms(2) by (simp add: field_size(1,3))
  from fields_size [OF this, of 4] show "length (enc attestationType (attestationVal a)) < 2 ^ 64"
    using assms(1) by (simp add: attestationType_def attestationVal_def struct_required(1) del: enc.simps)
  show "wfType attestationType" by (simp add: attestationType_def voteDataType_def)
qed

lemma attestation_decodes:
  assumes "AttData a = Some d" "length (AttExtra a) \<le> 256"
  shows "EncodeToBytes attestationType (attestationVal a) = Inr (enc attestationType (attestationVal a))"
    and "decodeAttestation (enc attestationType (attestationVal a) @ rest) = Inr a"
proof -
  have "length (AttExtra a) \<le> 102400" using assms(2) by simp
  note f = attestation_facts [OF assms(1) this]
  show "EncodeToBytes attestationType (attestationVal a) = Inr (enc attestationType (attestationVal a))"
    by (rule EncodeToBytes_enc [OF f(1,3)])
  have "valAttestation (attestationVal a) = Some a"
    using assms(1) by (cases a) (simp add: valAttestation_def attestationVal_def)
  then show "decodeAttestation (enc attestationType (attestationVal a) @ rest) = Inr a"
    by (simp only: decodeAttestation_def Decode_enc [OF f(4,1,2,3)] bindE_simps option.case)
qed

text \<open>C9. A vote attestation survives its journey through the extra data of a header: the decoder
  of \<open>getVoteAttestationFromHeader\<close> returns the attestation that was encoded, whatever bytes
  follow it.\<close>

theorem attestation_roundtrip:
  assumes "AttData a = Some d" "length (AttExtra a) \<le> 256"
  shows "bindE (EncodeToBytes attestationType (attestationVal a)) (\<lambda>b. decodeAttestation (b @ rest)) = Inr a"
  by (simp only: attestation_decodes [OF assms] bindE_simps)

theorem attestation_roundtrip_witness:
  "bindE (EncodeToBytes attestationType (attestationVal \<lparr> VoteAddressSet = 7, AggSignature = 9,
      AttData = Some \<lparr> SourceNumber = 1, SourceHash = 2, TargetNumber = 3, TargetHash = 4 \<rparr>, AttExtra = [] \<rparr>))
     (\<lambda>b. decodeAttestation (b @ [0, 1])) = Inr \<lparr> VoteAddressSet = 7, AggSignature = 9,
      AttData = Some \<lparr> SourceNumber = 1, SourceHash = 2, TargetNumber = 3, TargetHash = 4 \<rparr>, AttExtra = [] \<rparr>"
  by (rule attestation_roundtrip) simp_all

end
