(* ===== verification/Networks.thy ===== *)
theory Networks
  imports Params
begin

text \<open>
  The built-in network configurations of \<open>params/config.go\<close>. A Go composite literal leaves the
  fields it does not name at their zero value, so each configuration is an update of
  \<open>zeroChainConfig\<close>, the all-zero \<open>ChainConfig\<close>; the fields are the ones of the literal, in the
  literal's order. The lemmas show that every configuration a known genesis hash selects passes the
  node's own \<open>CheckConfigForkOrder\<close>.
\<close>

section \<open>Default blob schedules\<close>

definition DefaultCancunBlobConfig :: BlobConfig where
  "DefaultCancunBlobConfig = \<lparr> Target = 3, Max = 6, UpdateFraction = 3338477 \<rparr>"

definition DefaultPragueBlobConfig :: BlobConfig where
  "DefaultPragueBlobConfig = \<lparr> Target = 6, Max = 9, UpdateFraction = 5007716 \<rparr>"

definition DefaultOsakaBlobConfig :: BlobConfig where
  "DefaultOsakaBlobConfig = \<lparr> Target = 6, Max = 9, UpdateFraction = 5007716 \<rparr>"

definition DefaultBPO1BlobConfig :: BlobConfig where
  "DefaultBPO1BlobConfig = \<lparr> Target = 10, Max = 15, UpdateFraction = 8346193 \<rparr>"

definition DefaultBPO2BlobConfig :: BlobConfig where
  "DefaultBPO2BlobConfig = \<lparr> Target = 14, Max = 21, UpdateFraction = 11684671 \<rparr>"

definition DefaultBPO3BlobConfig :: BlobConfig where
  "DefaultBPO3BlobConfig = \<lparr> Target = 21, Max = 32, UpdateFraction = 20609697 \<rparr>"

definition DefaultBPO4BlobConfig :: BlobConfig where
  "DefaultBPO4BlobConfig = \<lparr> Target = 14, Max = 21, UpdateFraction = 13739630 \<rparr>"

definition DefaultPragueBlobConfigBSC :: BlobConfig where
  "DefaultPragueBlobConfigBSC = DefaultCancunBlobConfig"

definition DefaultOsakaBlobConfigBSC :: BlobConfig where
  "DefaultOsakaBlobConfigBSC = DefaultCancunBlobConfig"

definition DefaultBlobSchedule :: BlobScheduleConfig where
  "DefaultBlobSchedule = emptyBlobSchedule\<lparr> CancunBlob := Some DefaultCancunBlobConfig,
     PragueBlob := Some DefaultPragueBlobConfig, OsakaBlob := Some DefaultOsakaBlobConfig \<rparr>"

section \<open>Network configurations\<close>

definition zeroChainConfig :: ChainConfig where
  "zeroChainConfig = \<lparr>
    ChainID = None, HomesteadBlock = None, DAOForkBlock = None, DAOForkSupport = False,
    EIP150Block = None, EIP155Block = None, EIP158Block = None, ByzantiumBlock = None,
    ConstantinopleBlock = None, PetersburgBlock = None, IstanbulBlock = None,
    MuirGlacierBlock = None, BerlinBlock = None, YoloV3Block = None, CatalystBlock = None,
    LondonBlock = None, ArrowGlacierBlock = None, GrayGlacierBlock = None,
    MergeNetsplitBlock = None, RuntimeUpgradeBlock = None, DeployOriginBlock = None,
    DeploymentHookFixBlock = None, DeployerFactoryBlock = None, Dragon8Time = None,
    Dragon8FixTime = None, Snake8Time = None, Pepper8Time = None, Pipe8Time = None,
    DeployerProxySunsetTime = None, ShanghaiTime = None, KeplerTime = None, FeynmanTime = None,
    FeynmanFixTime = None, CancunTime = None, HaberTime = None, HaberFixTime = None,
    BohrTime = None, PascalTime = None, PragueTime = None, LorentzTime = None, MaxwellTime = None,
    FermiTime = None, OsakaTime = None, MendelTime = None, BPO1Time = None, BPO2Time = None,
    BPO3Time = None, BPO4Time = None, BPO5Time = None, AmsterdamTime = None, PasteurTime = None,
    VerkleTime = None, TerminalTotalDifficulty = None, TerminalTotalDifficultyPassed = False,
    DepositContractAddress = 0, EnableVerkleAtGenesis = False, RamanujanBlock = None,
    NielsBlock = None, MirrorSyncBlock = None, BrunoBlock = None, EulerBlock = None,
    GibbsBlock = None, NanoBlock = None, MoranBlock = None, PlanckBlock = None, LubanBlock = None,
    PlatoBlock = None, HertzBlock = None, HertzfixBlock = None, Ethash = None, Clique = None,
    Parlia = None, BlobSchedule = None \<rparr>"

definition MainnetChainConfig :: ChainConfig where
  "MainnetChainConfig = zeroChainConfig\<lparr>
    ChainID := Some 1, HomesteadBlock := Some 1150000, DAOForkBlock := Some 1920000,
    DAOForkSupport := True, EIP150Block := Some 2463000, EIP155Block := Some 2675000,
    EIP158Block := Some 2675000, ByzantiumBlock := Some 4370000,
    ConstantinopleBlock := Some 7280000, PetersburgBlock := Some 7280000,
    IstanbulBlock := Some 9069000, MuirGlacierBlock := Some 9200000, BerlinBlock := Some 12244000,
    LondonBlock := Some 12965000, ArrowGlacierBlock := Some 13773000,
    GrayGlacierBlock := Some 15050000, TerminalTotalDifficulty := Some 58750000000000000000000,
    ShanghaiTime := Some 1681338455, CancunTime := Some 1710338135, PragueTime := Some 1746612311,
    OsakaTime := Some 1764798551, BPO1Time := Some 1765290071, BPO2Time := Some 1767747671,
    DepositContractAddress := 0x00000000219ab540356cbb839cbe05303d7705fa, Ethash := Some (),
    BlobSchedule := Some (emptyBlobSchedule\<lparr> CancunBlob := Some DefaultCancunBlobConfig,
      PragueBlob := Some DefaultPragueBlobConfig,
      OsakaBlob := Some DefaultOsakaBlobConfig,
      BPO1Blob := Some DefaultBPO1BlobConfig,
      BPO2Blob := Some DefaultBPO2BlobConfig \<rparr>) \<rparr>"

definition HoleskyChainConfig :: ChainConfig where
  "HoleskyChainConfig = zeroChainConfig\<lparr>
    ChainID := Some 17000, HomesteadBlock := Some 0, DAOForkBlock := None, DAOForkSupport := True,
    EIP150Block := Some 0, EIP155Block := Some 0, EIP158Block := Some 0, ByzantiumBlock := Some 0,
    ConstantinopleBlock := Some 0, PetersburgBlock := Some 0, IstanbulBlock := Some 0,
    MuirGlacierBlock := None, BerlinBlock := Some 0, LondonBlock := Some 0,
    ArrowGlacierBlock := None, GrayGlacierBlock := None, TerminalTotalDifficulty := Some 0,
    MergeNetsplitBlock := None, ShanghaiTime := Some 1696000704, CancunTime := Some 1707305664,
    PragueTime := Some 1740434112, OsakaTime := Some 1759308480, BPO1Time := Some 1759800000,
    BPO2Time := Some 1760389824,
    DepositContractAddress := 0x4242424242424242424242424242424242424242, Ethash := Some (),
    BlobSchedule := Some (emptyBlobSchedule\<lparr> CancunBlob := Some DefaultCancunBlobConfig,
      PragueBlob := Some DefaultPragueBlobConfig,
      OsakaBlob := Some DefaultOsakaBlobConfig,
      BPO1Blob := Some DefaultBPO1BlobConfig,
      BPO2Blob := Some DefaultBPO2BlobConfig \<rparr>) \<rparr>"

definition SepoliaChainConfig :: ChainConfig where
  "SepoliaChainConfig = zeroChainConfig\<lparr>
    ChainID := Some 11155111, HomesteadBlock := Some 0, DAOForkBlock := None,
    DAOForkSupport := True, EIP150Block := Some 0, EIP155Block := Some 0, EIP158Block := Some 0,
    ByzantiumBlock := Some 0, ConstantinopleBlock := Some 0, PetersburgBlock := Some 0,
    IstanbulBlock := Some 0, MuirGlacierBlock := Some 0, BerlinBlock := Some 0,
    LondonBlock := Some 0, ArrowGlacierBlock := None, GrayGlacierBlock := None,
    TerminalTotalDifficulty := Some 17000000000000000, MergeNetsplitBlock := Some 1735371,
    ShanghaiTime := Some 1677557088, CancunTime := Some 1706655072, PragueTime := Some 1741159776,
    OsakaTime := Some 1760427360, BPO1Time := Some 1761017184, BPO2Time := Some 1761607008,
    DepositContractAddress := 0x7f02c3e3c98b133055b8b348b2ac625669ed295d, Ethash := Some (),
    BlobSchedule := Some (emptyBlobSchedule\<lparr> CancunBlob := Some DefaultCancunBlobConfig,
      PragueBlob := Some DefaultPragueBlobConfig,
      OsakaBlob := Some DefaultOsakaBlobConfig,
      BPO1Blob := Some DefaultBPO1BlobConfig,
      BPO2Blob := Some DefaultBPO2BlobConfig \<rparr>) \<rparr>"

definition HoodiChainConfig :: ChainConfig where
  "HoodiChainConfig = zeroChainConfig\<lparr>
    ChainID := Some 560048, HomesteadBlock := Some 0, DAOForkBlock := None, DAOForkSupport := True,
    EIP150Block := Some 0, EIP155Block := Some 0, EIP158Block := Some 0, ByzantiumBlock := Some 0,
    ConstantinopleBlock := Some 0, PetersburgBlock := Some 0, IstanbulBlock := Some 0,
    MuirGlacierBlock := Some 0, BerlinBlock := Some 0, LondonBlock := Some 0,
    ArrowGlacierBlock := None, GrayGlacierBlock := None, TerminalTotalDifficulty := Some 0,
    MergeNetsplitBlock := Some 0, ShanghaiTime := Some 0, CancunTime := Some 0,
    PragueTime := Some 1742999832, OsakaTime := Some 1761677592, BPO1Time := Some 1762365720,
    BPO2Time := Some 1762955544,
    DepositContractAddress := 0x00000000219ab540356cbb839cbe05303d7705fa, Ethash := Some (),
    BlobSchedule := Some (emptyBlobSchedule\<lparr> CancunBlob := Some DefaultCancunBlobConfig,
      PragueBlob := Some DefaultPragueBlobConfig,
      OsakaBlob := Some DefaultOsakaBlobConfig,
      BPO1Blob := Some DefaultBPO1BlobConfig,
      BPO2Blob := Some DefaultBPO2BlobConfig \<rparr>) \<rparr>"

definition GoerliChainConfig :: ChainConfig where
  "GoerliChainConfig = zeroChainConfig\<lparr>
    ChainID := Some 5, HomesteadBlock := Some 0, DAOForkBlock := None, DAOForkSupport := True,
    EIP150Block := Some 0, EIP155Block := Some 0, EIP158Block := Some 0, ByzantiumBlock := Some 0,
    ConstantinopleBlock := Some 0, PetersburgBlock := Some 0, IstanbulBlock := Some 1561651,
    MuirGlacierBlock := None, BerlinBlock := Some 4460644, LondonBlock := Some 5062605,
    ArrowGlacierBlock := None, TerminalTotalDifficulty := Some 10790000,
    ShanghaiTime := Some 1678832736, CancunTime := Some 1705473120,
    Clique := Some \<lparr> CliquePeriod = 15, CliqueEpoch = 30000 \<rparr> \<rparr>"

definition BSCChainConfig :: ChainConfig where
  "BSCChainConfig = zeroChainConfig\<lparr>
    ChainID := Some 56, HomesteadBlock := Some 0, EIP150Block := Some 0, EIP155Block := Some 0,
    EIP158Block := Some 0, ByzantiumBlock := Some 0, ConstantinopleBlock := Some 0,
    PetersburgBlock := Some 0, IstanbulBlock := Some 0, MuirGlacierBlock := Some 0,
    RamanujanBlock := Some 0, NielsBlock := Some 0, MirrorSyncBlock := Some 5184000,
    BrunoBlock := Some 13082000, EulerBlock := Some 18907621, NanoBlock := Some 21962149,
    MoranBlock := Some 22107423, GibbsBlock := Some 23846001, PlanckBlock := Some 27281024,
    LubanBlock := Some 29020050, PlatoBlock := Some 30720096, BerlinBlock := Some 31302048,
    LondonBlock := Some 31302048, HertzBlock := Some 31302048, HertzfixBlock := Some 34140700,
    ShanghaiTime := Some 1705996800, KeplerTime := Some 1705996800, FeynmanTime := Some 1713419340,
    FeynmanFixTime := Some 1713419340, CancunTime := Some 1718863500, HaberTime := Some 1718863500,
    HaberFixTime := Some 1727316120, BohrTime := Some 1727317200, PascalTime := Some 1742436600,
    PragueTime := Some 1742436600, LorentzTime := Some 1745903100, MaxwellTime := Some 1751250600,
    FermiTime := Some 1768357800, OsakaTime := Some 1777343400, MendelTime := Some 1777343400,
    BPO1Time := None, BPO2Time := None, AmsterdamTime := None, PasteurTime := None,
    Parlia := Some \<lparr> Period = 0, Epoch = 0 \<rparr>,
    BlobSchedule := Some (emptyBlobSchedule\<lparr> CancunBlob := Some DefaultCancunBlobConfig,
      PragueBlob := Some DefaultPragueBlobConfigBSC,
      OsakaBlob := Some DefaultOsakaBlobConfigBSC \<rparr>) \<rparr>"

definition ChapelChainConfig :: ChainConfig where
  "ChapelChainConfig = zeroChainConfig\<lparr>
    ChainID := Some 97, HomesteadBlock := Some 0, EIP150Block := Some 0, EIP155Block := Some 0,
    EIP158Block := Some 0, ByzantiumBlock := Some 0, ConstantinopleBlock := Some 0,
    PetersburgBlock := Some 0, IstanbulBlock := Some 0, MuirGlacierBlock := Some 0,
    RamanujanBlock := Some 1010000, NielsBlock := Some 1014369, MirrorSyncBlock := Some 5582500,
    BrunoBlock := Some 13837000, EulerBlock := Some 19203503, GibbsBlock := Some 22800220,
    NanoBlock := Some 23482428, MoranBlock := Some 23603940, PlanckBlock := Some 28196022,
    LubanBlock := Some 29295050, PlatoBlock := Some 29861024, BerlinBlock := Some 31103030,
    LondonBlock := Some 31103030, HertzBlock := Some 31103030, HertzfixBlock := Some 35682300,
    ShanghaiTime := Some 1702972800, KeplerTime := Some 1702972800, FeynmanTime := Some 1710136800,
    FeynmanFixTime := Some 1711342800, CancunTime := Some 1713330442, HaberTime := Some 1716962820,
    HaberFixTime := Some 1719986788, BohrTime := Some 1724116996, PascalTime := Some 1740452880,
    PragueTime := Some 1740452880, LorentzTime := Some 1744097580, MaxwellTime := Some 1748243100,
    FermiTime := Some 1762741500, OsakaTime := Some 1774319400, MendelTime := Some 1774319400,
    BPO1Time := None, BPO2Time := None, AmsterdamTime := None, PasteurTime := None,
    Parlia := Some \<lparr> Period = 0, Epoch = 0 \<rparr>,
    BlobSchedule := Some (emptyBlobSchedule\<lparr> CancunBlob := Some DefaultCancunBlobConfig,
      PragueBlob := Some DefaultPragueBlobConfigBSC,
      OsakaBlob := Some DefaultOsakaBlobConfigBSC \<rparr>) \<rparr>"

definition RialtoChainConfig :: ChainConfig where
  "RialtoChainConfig = zeroChainConfig\<lparr>
    ChainID := Some 714, HomesteadBlock := Some 0, EIP150Block := Some 0, EIP155Block := Some 0,
    EIP158Block := Some 0, ByzantiumBlock := Some 0, ConstantinopleBlock := Some 0,
    PetersburgBlock := Some 0, IstanbulBlock := Some 0, MuirGlacierBlock := Some 0,
    RamanujanBlock := Some 0, NielsBlock := Some 0, MirrorSyncBlock := Some 1,
    BrunoBlock := Some 1, EulerBlock := Some 2, NanoBlock := Some 3, MoranBlock := Some 3,
    GibbsBlock := Some 4, PlanckBlock := Some 5, LubanBlock := Some 6, PlatoBlock := Some 7,
    BerlinBlock := Some 8, LondonBlock := Some 8, HertzBlock := Some 8, HertzfixBlock := Some 8,
    ShanghaiTime := Some 0, KeplerTime := Some 0, FeynmanTime := Some 0, FeynmanFixTime := Some 0,
    CancunTime := Some 0, HaberTime := Some 0, HaberFixTime := Some 0, BohrTime := Some 0,
    PascalTime := Some 0, PragueTime := Some 0, LorentzTime := Some 0, MaxwellTime := Some 0,
    FermiTime := Some 0, OsakaTime := None, MendelTime := None, BPO1Time := None, BPO2Time := None,
    AmsterdamTime := None, PasteurTime := None,
    Parlia := Some \<lparr> Period = 0, Epoch = 0 \<rparr>,
    BlobSchedule := Some (emptyBlobSchedule\<lparr> CancunBlob := Some DefaultCancunBlobConfig,
      PragueBlob := Some DefaultPragueBlobConfigBSC,
      OsakaBlob := Some DefaultOsakaBlobConfigBSC \<rparr>) \<rparr>"

definition ParliaTestChainConfig :: ChainConfig where
  "ParliaTestChainConfig = zeroChainConfig\<lparr>
    ChainID := Some 2, HomesteadBlock := Some 0, EIP150Block := Some 0, EIP155Block := Some 0,
    EIP158Block := Some 0, ByzantiumBlock := Some 0, ConstantinopleBlock := Some 0,
    PetersburgBlock := Some 0, IstanbulBlock := Some 0, MuirGlacierBlock := Some 0,
    RamanujanBlock := Some 0, NielsBlock := Some 0, MirrorSyncBlock := Some 0,
    BrunoBlock := Some 0, EulerBlock := Some 0, NanoBlock := Some 0, MoranBlock := Some 0,
    GibbsBlock := Some 0, PlanckBlock := Some 0, LubanBlock := Some 0, PlatoBlock := Some 0,
    BerlinBlock := Some 0, LondonBlock := Some 0, HertzBlock := Some 0, HertzfixBlock := Some 0,
    ShanghaiTime := Some 0, KeplerTime := Some 0, FeynmanTime := Some 0, FeynmanFixTime := Some 0,
    CancunTime := Some 0, Parlia := Some \<lparr> Period = 0, Epoch = 0 \<rparr>,
    BlobSchedule := Some (emptyBlobSchedule\<lparr> CancunBlob := Some DefaultCancunBlobConfig \<rparr>) \<rparr>"

definition AllEthashProtocolChanges :: ChainConfig where
  "AllEthashProtocolChanges = zeroChainConfig\<lparr>
    ChainID := Some 1337, HomesteadBlock := Some 0, DAOForkBlock := None, DAOForkSupport := False,
    EIP150Block := Some 0, EIP155Block := Some 0, EIP158Block := Some 0, ByzantiumBlock := Some 0,
    ConstantinopleBlock := Some 0, PetersburgBlock := Some 0, IstanbulBlock := Some 0,
    MuirGlacierBlock := Some 0, BerlinBlock := Some 0, LondonBlock := Some 0,
    ArrowGlacierBlock := Some 0, GrayGlacierBlock := Some 0,
    TerminalTotalDifficulty := Some (2 ^ 63 - 1), MergeNetsplitBlock := None, ShanghaiTime := None,
    CancunTime := None, PragueTime := None, OsakaTime := None, VerkleTime := None,
    Ethash := Some (), Clique := None \<rparr>"

definition AllDevChainProtocolChanges :: ChainConfig where
  "AllDevChainProtocolChanges = zeroChainConfig\<lparr>
    ChainID := Some 1337, HomesteadBlock := Some 0, EIP150Block := Some 0, EIP155Block := Some 0,
    EIP158Block := Some 0, ByzantiumBlock := Some 0, ConstantinopleBlock := Some 0,
    PetersburgBlock := Some 0, IstanbulBlock := Some 0, MuirGlacierBlock := Some 0,
    BerlinBlock := Some 0, LondonBlock := Some 0, ArrowGlacierBlock := Some 0,
    GrayGlacierBlock := Some 0, ShanghaiTime := Some 0, CancunTime := Some 0,
    TerminalTotalDifficulty := Some 0, PragueTime := Some 0, OsakaTime := Some 0,
    BlobSchedule := Some (emptyBlobSchedule\<lparr> CancunBlob := Some DefaultCancunBlobConfig,
      PragueBlob := Some DefaultPragueBlobConfig,
      OsakaBlob := Some DefaultOsakaBlobConfig \<rparr>) \<rparr>"

definition AllCliqueProtocolChanges :: ChainConfig where
  "AllCliqueProtocolChanges = zeroChainConfig\<lparr>
    ChainID := Some 1337, HomesteadBlock := Some 0, DAOForkBlock := None, DAOForkSupport := False,
    EIP150Block := Some 0, EIP155Block := Some 0, EIP158Block := Some 0, ByzantiumBlock := Some 0,
    ConstantinopleBlock := Some 0, PetersburgBlock := Some 0, IstanbulBlock := Some 0,
    MuirGlacierBlock := Some 0, BerlinBlock := Some 0, LondonBlock := Some 0,
    ArrowGlacierBlock := None, GrayGlacierBlock := None, MergeNetsplitBlock := None,
    ShanghaiTime := None, CancunTime := None, PragueTime := None, OsakaTime := None,
    VerkleTime := None, TerminalTotalDifficulty := Some (2 ^ 63 - 1), Ethash := None,
    Clique := Some \<lparr> CliquePeriod = 0, CliqueEpoch = 30000 \<rparr> \<rparr>"

definition TestChainConfig :: ChainConfig where
  "TestChainConfig = zeroChainConfig\<lparr>
    ChainID := Some 1, HomesteadBlock := Some 0, DAOForkBlock := None, DAOForkSupport := False,
    EIP150Block := Some 0, EIP155Block := Some 0, EIP158Block := Some 0, ByzantiumBlock := Some 0,
    ConstantinopleBlock := Some 0, PetersburgBlock := Some 0, IstanbulBlock := Some 0,
    MuirGlacierBlock := Some 0, BerlinBlock := Some 0, LondonBlock := Some 0,
    ArrowGlacierBlock := Some 0, GrayGlacierBlock := Some 0, MergeNetsplitBlock := None,
    ShanghaiTime := None, CancunTime := None, PragueTime := None, OsakaTime := None,
    VerkleTime := None, TerminalTotalDifficulty := Some (2 ^ 63 - 1), Ethash := Some (),
    Clique := None \<rparr>"

definition MergedTestChainConfig :: ChainConfig where
  "MergedTestChainConfig = zeroChainConfig\<lparr>
    ChainID := Some 1, HomesteadBlock := Some 0, DAOForkBlock := None, DAOForkSupport := False,
    EIP150Block := Some 0, EIP155Block := Some 0, EIP158Block := Some 0, ByzantiumBlock := Some 0,
    ConstantinopleBlock := Some 0, PetersburgBlock := Some 0, IstanbulBlock := Some 0,
    MuirGlacierBlock := Some 0, BerlinBlock := Some 0, LondonBlock := Some 0,
    ArrowGlacierBlock := Some 0, GrayGlacierBlock := Some 0, MergeNetsplitBlock := Some 0,
    ShanghaiTime := Some 0, CancunTime := Some 0, PragueTime := Some 0, OsakaTime := Some 0,
    VerkleTime := None, TerminalTotalDifficulty := Some 0, Ethash := Some (), Clique := None,
    BlobSchedule := Some (emptyBlobSchedule\<lparr> CancunBlob := Some DefaultCancunBlobConfig,
      PragueBlob := Some DefaultPragueBlobConfig,
      OsakaBlob := Some DefaultOsakaBlobConfig \<rparr>) \<rparr>"

definition NonActivatedConfig :: ChainConfig where
  "NonActivatedConfig = zeroChainConfig\<lparr>
    ChainID := Some 1, HomesteadBlock := None, DAOForkBlock := None, DAOForkSupport := False,
    EIP150Block := None, EIP155Block := None, EIP158Block := None, ByzantiumBlock := None,
    ConstantinopleBlock := None, PetersburgBlock := None, IstanbulBlock := None,
    MuirGlacierBlock := None, BerlinBlock := None, LondonBlock := None, ArrowGlacierBlock := None,
    GrayGlacierBlock := None, MergeNetsplitBlock := None, ShanghaiTime := None, CancunTime := None,
    PragueTime := None, OsakaTime := None, VerkleTime := None,
    TerminalTotalDifficulty := Some (2 ^ 63 - 1), Ethash := Some (), Clique := None \<rparr>"

section \<open>Selection by genesis hash\<close>

definition MainnetGenesisHash :: hash where
  "MainnetGenesisHash = 0xd4e56740f876aef8c010b86a40d5f56745a118d0906a34e69aec8c0db1cb8fa3"

definition BSCGenesisHash :: hash where
  "BSCGenesisHash = 0x0d21840abff46b96c84b2ac9e10e4f5cdaeb5693cb665db62a2f3b02d2d57b5b"

definition ChapelGenesisHash :: hash where
  "ChapelGenesisHash = 0x6d3c66c5357ec91d5c43af47e234a939b22557cbb552dc45bebbceeed90fbe34"

definition RialtoGenesisHash :: hash where
  "RialtoGenesisHash = 0xaabe549bfa85c84f7aee9da7010b97453ad686f2c2d8ce00503d1a00c72cad54"

definition GetBuiltInChainConfig :: "hash \<Rightarrow> ChainConfig option" where
  "GetBuiltInChainConfig ghash =
     (if ghash = MainnetGenesisHash then Some MainnetChainConfig
      else if ghash = BSCGenesisHash then Some BSCChainConfig
      else if ghash = ChapelGenesisHash then Some ChapelChainConfig
      else if ghash = RialtoGenesisHash then Some RialtoChainConfig
      else None)"

lemmas blob_config_defs = DefaultCancunBlobConfig_def DefaultPragueBlobConfig_def DefaultOsakaBlobConfig_def DefaultBPO1BlobConfig_def DefaultBPO2BlobConfig_def DefaultPragueBlobConfigBSC_def DefaultOsakaBlobConfigBSC_def

lemmas config_check_defs = CheckConfigForkOrder_def forkOrderList_def forkEntry_def forkStepError_def forkSet_def
  IsNotInBSC_def IsInBSC_def validateBlob_def emptyBlobSchedule_def zeroChainConfig_def blob_config_defs
  BSCChainConfig_def ChapelChainConfig_def RialtoChainConfig_def MainnetChainConfig_def

text \<open>C1. A Parlia configuration that passes the node's own \<open>CheckConfigForkOrder\<close> activates the
  timestamp forks in order: at any block and time, whenever a fork of the Kepler-to-Mendel sequence is
  active, so is the one before it.\<close>

theorem fork_order_activation:
  assumes ok: "CheckConfigForkOrder c = None" and bsc: "IsInBSC c"
  shows "(IsCancun c n t \<longrightarrow> IsKepler c n t) \<and> (IsPascal c n t \<longrightarrow> IsCancun c n t) \<and>
    (IsPrague c n t \<longrightarrow> IsPascal c n t) \<and> (IsLorentz c n t \<longrightarrow> IsPrague c n t) \<and>
    (IsMaxwell c n t \<longrightarrow> IsLorentz c n t) \<and> (IsFermi c n t \<longrightarrow> IsMaxwell c n t) \<and>
    (IsOsaka c n t \<longrightarrow> IsFermi c n t) \<and> (IsMendel c n t \<longrightarrow> IsOsaka c n t)"
proof -
  have chk: "checkForkOrder None (forkOrderList c) = None"
    using ok bsc by (simp add: CheckConfigForkOrder_def IsNotInBSC_def IsInBSC_def split: option.splits)
  note step = forkOrderList_active [OF chk, of _ _ t]
  show ?thesis
    using step [of 6 7] step [of 7 8] step [of 8 9] step [of 9 10] step [of 10 11] step [of 11 12]
      step [of 12 13] step [of 13 14]
    by (simp add: forkOrderList_nth time_fork_defs)
qed

theorem fork_order_activation_witness:
  "CheckConfigForkOrder BSCChainConfig = None \<and> IsInBSC BSCChainConfig \<and>
   IsPrague BSCChainConfig (Some 50000000) 1742436600 \<and>
   IsPascal BSCChainConfig (Some 50000000) 1742436600 \<and>
   \<not> IsMaxwell BSCChainConfig (Some 50000000) 1742436600"
proof -
  have ok: "CheckConfigForkOrder BSCChainConfig = None" "IsInBSC BSCChainConfig"
    by (simp_all add: config_check_defs)
  have "IsPrague BSCChainConfig (Some 50000000) 1742436600"
    by (simp add: config_check_defs time_fork_defs)
  moreover from this have "IsPascal BSCChainConfig (Some 50000000) 1742436600"
    using fork_order_activation [OF ok, of "Some 50000000" 1742436600] by blast
  moreover have "\<not> IsMaxwell BSCChainConfig (Some 50000000) 1742436600"
    by (simp add: config_check_defs time_fork_defs)
  ultimately show ?thesis using ok by blast
qed

end
