(* ===== verification/Extra_Data.thy ===== *)
theory Extra_Data
  imports Header_Codec Networks
begin

text \<open>
  The layout of the extra data of a Parlia header (\<open>consensus/parlia/parlia.go\<close> and
  \<open>consensus/parlia/snapshot.go\<close>): vanity, validators, turn length, vote attestation, Snake8 frequency block, seal.
  The parsers are the code's; \<open>appendValidators\<close> and \<open>appendFrequency\<close> are the parts of \<open>prepareValidators\<close> and
  \<open>Prepare\<close> that write what the parsers read. The lemmas are the round trips and that the
  fork decision taken from the embedded parent timestamp agrees with the one taken from the parent.
\<close>

section \<open>Constants\<close>

definition nextForkHashSize :: nat where "nextForkHashSize = 4"
definition turnLengthSize :: nat where "turnLengthSize = 1"
definition validatorNumberSize :: nat where "validatorNumberSize = 1"
definition validatorBytesLengthBeforeLuban :: nat where "validatorBytesLengthBeforeLuban = 20"
definition validatorBytesLength :: nat where "validatorBytesLength = 68"
definition validatorFrequencyDataPrefix :: bytes where "validatorFrequencyDataPrefix = [0x56, 0x46, 0x51]"

lemmas extra_consts [simp] = nextForkHashSize_def turnLengthSize_def validatorNumberSize_def
  validatorBytesLengthBeforeLuban_def validatorBytesLength_def

section \<open>Validators and attestation\<close>

text \<open>The loop that looks for the prefix from index \<open>i\<close> on, \<open>k\<close> steps left.\<close>

fun findPrefix :: "bytes \<Rightarrow> nat \<Rightarrow> nat \<Rightarrow> nat option" where
  "findPrefix extra i 0 = None"
| "findPrefix extra i (Suc k) =
     (if slice extra i (i + 3) = validatorFrequencyDataPrefix then Some i else findPrefix extra (i + 1) k)"

definition isPrefixOf :: "bytes \<Rightarrow> bytes \<Rightarrow> bool" where
  "isPrefixOf p b \<longleftrightarrow> length p \<le> length b \<and> take (length p) b = p"

definition getValidatorBytesFromHeader :: "Header \<Rightarrow> ChainConfig \<Rightarrow> u64 \<Rightarrow> bytes result" where
  "getValidatorBytesFromHeader header chainConfig epochLength =
     (let extra = Extra header in
      if length extra \<le> extraVanity + extraSeal then Inr []
      else if \<not> IsLuban chainConfig (Number header) then
        (let start = extraVanity; end0 = length extra - extraSeal in
         if isPrefixOf validatorFrequencyDataPrefix (slice extra start end0) then Inr []
         else
           (let end1 = (case findPrefix extra 0 (end0 - 2) of None \<Rightarrow> end0 | Some i \<Rightarrow> i) in
            if end1 \<le> start then Inr []
            else bindE (modC (numOf header) epochLength) (\<lambda>r.
              if r = 0 \<and> (end1 - start) mod validatorBytesLengthBeforeLuban \<noteq> 0 then Inr []
              else Inr (slice extra start end1))))
      else bindE (modC (numOf header) epochLength) (\<lambda>r.
        if r \<noteq> 0 then Inr []
        else
          (let num = unat (extra ! extraVanity);
               start = extraVanity + validatorNumberSize;
               end1 = start + num * validatorBytesLength;
               extraMinLen = end1 + extraSeal
                 + (if IsBohr chainConfig (Number header) (Time header) then turnLengthSize else 0) in
           if num = 0 \<or> length extra < extraMinLen then Inr []
           else Inr (slice extra start end1))))"

definition getVoteAttestationFromHeader :: "Header \<Rightarrow> ChainConfig \<Rightarrow> u64 \<Rightarrow> VoteAttestation option result" where
  "getVoteAttestationFromHeader header chainConfig epochLength =
     (let extra = Extra header in
      if length extra \<le> extraVanity + extraSeal then Inr None
      else if \<not> IsLuban chainConfig (Number header) then Inr None
      else bindE (modC (numOf header) epochLength) (\<lambda>r.
        bindE
          (if r \<noteq> 0 then Inr (Some (slice extra extraVanity (length extra - extraSeal)))
           else
             (let num = unat (extra ! extraVanity);
                  start = extraVanity + validatorNumberSize + num * validatorBytesLength
                    + (if IsBohr chainConfig (Number header) (Time header) then turnLengthSize else 0);
                  end1 = length extra - extraSeal in
              if end1 \<le> start then Inr None else Inr (Some (slice extra start end1))))
          (\<lambda>att. case att of
             None \<Rightarrow> Inr None
           | Some attestationBytes \<Rightarrow>
               (case decodeAttestation attestationBytes of
                  Inl e \<Rightarrow> Inl (ErrMsg ''block has vote attestation info, decode err'')
                | Inr a \<Rightarrow> Inr (Some a)))))"

fun chunks :: "nat \<Rightarrow> nat \<Rightarrow> bytes \<Rightarrow> bytes list" where
  "chunks 0 k b = []"
| "chunks (Suc n) k b = take k b # chunks n k (drop k b)"

text \<open>\<open>parseValidators\<close> returns the consensus addresses and, from Luban on, the vote addresses.\<close>

definition parseValidators ::
  "Header \<Rightarrow> ChainConfig \<Rightarrow> u64 \<Rightarrow> (address list \<times> blskey list) result" where
  "parseValidators header chainConfig epochLength =
     bindE (getValidatorBytesFromHeader header chainConfig epochLength) (\<lambda>validatorsBytes.
       if length validatorsBytes = 0 then Inl (ErrMsg ''invalid validators bytes'')
       else if \<not> IsLuban chainConfig (Number header) then
         (let n = length validatorsBytes div validatorBytesLengthBeforeLuban in
          Inr (map BytesToAddress (chunks n validatorBytesLengthBeforeLuban validatorsBytes), []))
       else
         (let n = length validatorsBytes div validatorBytesLength;
              cs = chunks n validatorBytesLength validatorsBytes in
          Inr (map (\<lambda>c. BytesToAddress (take 20 c)) cs, map (\<lambda>c. BytesToBlsKey (drop 20 c)) cs)))"

definition parseTurnLength :: "Header \<Rightarrow> ChainConfig \<Rightarrow> u64 \<Rightarrow> u8 option result" where
  "parseTurnLength header chainConfig epochLength =
     bindE (modC (numOf header) epochLength) (\<lambda>r.
       if r \<noteq> 0 \<or> \<not> IsBohr chainConfig (Number header) (Time header) then Inr None
       else if length (Extra header) \<le> extraVanity + extraSeal then Inl errInvalidSpanValidators
       else
         (let num = unat (Extra header ! extraVanity);
              pos = extraVanity + validatorNumberSize + num * validatorBytesLength in
          if length (Extra header) \<le> pos then Inl errInvalidTurnLength
          else Inr (Some (Extra header ! pos))))"

section \<open>The Snake8 frequency block\<close>

definition snake8FreqDataOffset :: "Header \<Rightarrow> ChainConfig \<Rightarrow> nat option result" where
  "snake8FreqDataOffset header chainConfig =
     (let extra = Extra header in
      if length extra \<le> extraVanity + extraSeal then Inr None
      else case Parlia chainConfig of
        None \<Rightarrow> Inl Panic
      | Some parlia \<Rightarrow> bindE (modC (numOf header) (Epoch parlia)) (\<lambda>r.
          if r \<noteq> 0 then Inr (Some extraVanity)
          else
            (let end1 = length extra - extraSeal in
             bindE
               (if \<not> IsLuban chainConfig (Number header) then
                  bindE (getValidatorBytesFromHeader header chainConfig (Epoch parlia)) (\<lambda>validatorBytes.
                    Inr (Some (extraVanity + length validatorBytes)))
                else if extraVanity \<ge> end1 then Inr None
                else Inr (Some (extraVanity + validatorNumberSize
                  + unat (extra ! extraVanity) * validatorBytesLength)))
               (\<lambda>s. case s of
                  None \<Rightarrow> Inr None
                | Some start0 \<Rightarrow>
                    (let start = start0
                       + (if IsBohr chainConfig (Number header) (Time header) then turnLengthSize else 0) in
                     if start < extraVanity \<or> start \<ge> end1 then Inr None else Inr (Some start))))))"

definition extractSnake8ParentTimestamp :: "Header \<Rightarrow> ChainConfig \<Rightarrow> u64 option result" where
  "extractSnake8ParentTimestamp header chainConfig =
     bindE (snake8FreqDataOffset header chainConfig) (\<lambda>off. case off of
         None \<Rightarrow> Inr None
       | Some start \<Rightarrow>
           (let prefixLen = length validatorFrequencyDataPrefix;
                tsEnd = start + prefixLen + 8 in
            if tsEnd > length (Extra header) - extraSeal then Inr None
            else if slice (Extra header) start (start + prefixLen) \<noteq> validatorFrequencyDataPrefix then Inr None
            else Inr (Some (of_nat (le_nat (slice (Extra header) (start + prefixLen) tsEnd))))))"

definition parseValidatorFrequencies :: "Header \<Rightarrow> ChainConfig \<Rightarrow> bytes result" where
  "parseValidatorFrequencies header chainConfig =
     (if \<not> IsSnake8 chainConfig (Time header) then Inl (ErrMsg ''not a Snake8 fork block'')
      else bindE (snake8FreqDataOffset header chainConfig) (\<lambda>off. case off of
          None \<Rightarrow> Inl (ErrMsg ''malformed snake8 extra data'')
        | Some start \<Rightarrow>
            (let prefixLen = length validatorFrequencyDataPrefix;
                 dataStart = start + prefixLen + 8;
                 end1 = length (Extra header) - extraSeal in
             if dataStart > end1 then Inl (ErrMsg ''no validator frequencies data'')
             else if slice (Extra header) start (start + prefixLen) \<noteq> validatorFrequencyDataPrefix
             then Inl (ErrMsg ''missing frequency data prefix'')
             else Inr (slice (Extra header) dataStart end1))))"

definition verifySnake8Extra :: "ChainConfig \<Rightarrow> Header \<Rightarrow> Header \<Rightarrow> unit result" where
  "verifySnake8Extra chainConfig header parent =
     bindE (extractSnake8ParentTimestamp header chainConfig) (\<lambda>ts.
       if \<not> IsSnake8 chainConfig (Time parent)
       then (if ts \<noteq> None then Inl errInvalidSnake8Extra else Inr ())
       else (case ts of
           None \<Rightarrow> Inl errInvalidSnake8Extra
         | Some t \<Rightarrow> if t \<noteq> Time parent then Inl errMismatchedSnake8ParentTime else Inr ()))"

definition isSnake8Enabled :: "ChainConfig \<Rightarrow> chain_reader \<Rightarrow> Header \<Rightarrow> bool result" where
  "isSnake8Enabled chainConfig chain header =
     (case GetHeaderByHash chain (ParentHash header) of
        Some parent \<Rightarrow> Inr (IsSnake8 chainConfig (Time parent))
      | None \<Rightarrow> bindE (extractSnake8ParentTimestamp header chainConfig) (\<lambda>ts. case ts of
            None \<Rightarrow> Inr False
          | Some t \<Rightarrow> Inr (IsSnake8 chainConfig t)))"

section \<open>Writing the extra data\<close>

fun validatorEntries :: "(address \<Rightarrow> blskey option) \<Rightarrow> address list \<Rightarrow> bytes result" where
  "validatorEntries voteAddressMap [] = Inr []"
| "validatorEntries voteAddressMap (v # vs) = (case voteAddressMap v of
       None \<Rightarrow> Inl Panic
     | Some key \<Rightarrow> bindE (validatorEntries voteAddressMap vs) (\<lambda>b. Inr (addrBytes v @ blsBytes key @ b)))"

definition validatorBytes :: "ChainConfig \<Rightarrow> int option \<Rightarrow> address list \<Rightarrow> (address \<Rightarrow> blskey option) \<Rightarrow> bytes result" where
  "validatorBytes chainConfig number newValidators voteAddressMap =
     (if \<not> IsLuban chainConfig number then Inr (concat (map addrBytes newValidators))
      else validatorEntries (if IsOnLuban chainConfig number then (\<lambda>v. Some 0) else voteAddressMap) newValidators)"

text \<open>The tail of \<open>prepareValidators\<close>, on the validators and vote addresses read from the contract.\<close>

definition appendValidators ::
  "ChainConfig \<Rightarrow> address list \<Rightarrow> (address \<Rightarrow> blskey option) \<Rightarrow> Header \<Rightarrow> Header result" where
  "appendValidators chainConfig newValidators voteAddressMap header =
     bindE (validatorBytes chainConfig (Number header) (sort newValidators) voteAddressMap) (\<lambda>b.
       Inr (header\<lparr> Extra := Extra header
         @ (if IsLuban chainConfig (Number header) then [of_nat (length newValidators)] else []) @ b \<rparr>))"

text \<open>The tail of \<open>Prepare\<close>: the frequency block, when Snake8 is active, and the room for the seal.\<close>

definition appendFrequency :: "bool \<Rightarrow> u64 \<Rightarrow> bytes \<Rightarrow> Header \<Rightarrow> Header" where
  "appendFrequency isSnake8 parentTime freqRLP header =
     (if isSnake8 then header\<lparr> Extra := Extra header @ validatorFrequencyDataPrefix
        @ le_bytes 8 (unat parentTime) @ freqRLP \<rparr>
      else header)"

definition appendSeal :: "Header \<Rightarrow> Header" where
  "appendSeal header = header\<lparr> Extra := Extra header @ replicate extraSeal 0 \<rparr>"

section \<open>Lemmas on the layout\<close>

lemma length_prefix [simp]: "length validatorFrequencyDataPrefix = 3"
  by (simp add: validatorFrequencyDataPrefix_def)

lemma chunks_concat:
  "(\<And>b. b \<in> set bs \<Longrightarrow> length b = k) \<Longrightarrow> chunks (length bs) k (concat bs @ rest) = bs"
  by (induction bs) auto

lemma length_concat_const: "(\<And>b. b \<in> set bs \<Longrightarrow> length b = k) \<Longrightarrow> length (concat bs) = length bs * k"
  by (induction bs) auto

lemma findPrefix_None:
  "findPrefix extra i k = None \<longleftrightarrow> (\<forall>j. i \<le> j \<and> j < i + k \<longrightarrow> slice extra j (j + 3) \<noteq> validatorFrequencyDataPrefix)"
proof (induction k arbitrary: i)
  case (Suc k)
  have "(\<forall>j. i \<le> j \<and> j < i + Suc k \<longrightarrow> P j) \<longleftrightarrow> P i \<and> (\<forall>j. i + 1 \<le> j \<and> j < i + 1 + k \<longrightarrow> P j)" for P :: "nat \<Rightarrow> bool"
    by (auto simp: Suc_le_eq) (metis le_neq_implies_less)
  with Suc show ?case by simp
qed auto

lemma findPrefix_Some:
  "slice extra p (p + 3) = validatorFrequencyDataPrefix \<Longrightarrow> i \<le> p \<Longrightarrow> p < i + k \<Longrightarrow>
    (\<And>j. i \<le> j \<Longrightarrow> j < p \<Longrightarrow> slice extra j (j + 3) \<noteq> validatorFrequencyDataPrefix) \<Longrightarrow>
    findPrefix extra i k = Some p"
proof (induction k arbitrary: i)
  case (Suc k)
  show ?case
  proof (cases "i = p")
    case False
    with Suc.prems have "slice extra i (i + 3) \<noteq> validatorFrequencyDataPrefix" by simp
    moreover have "findPrefix extra (i + 1) k = Some p" using Suc.prems False by (intro Suc.IH) auto
    ultimately show ?thesis by simp
  qed (use Suc.prems in simp)
qed simp

text \<open>The prefix has no border: it cannot start inside \<open>a\<close> and end inside the prefix behind it.\<close>

lemma prefix_no_border:
  assumes "\<And>j. j < length a \<Longrightarrow> slice a j (j + 3) \<noteq> validatorFrequencyDataPrefix" "j < length a"
  shows "slice (a @ validatorFrequencyDataPrefix @ rest) j (j + 3) \<noteq> validatorFrequencyDataPrefix"
proof (cases "j + 3 \<le> length a")
  case True
  then show ?thesis using assms by (simp add: slice_append_left)
next
  case False
  then consider "length a = j + 1" | "length a = j + 2" using assms(2) by linarith
  then show ?thesis
  proof cases
    case 1
    then have "slice (a @ validatorFrequencyDataPrefix @ rest) j (j + 3) ! 1 = 0x56"
      by (simp add: slice_def validatorFrequencyDataPrefix_def nth_append)
    then show ?thesis by (auto simp: validatorFrequencyDataPrefix_def)
  next
    case 2
    then have "slice (a @ validatorFrequencyDataPrefix @ rest) j (j + 3) ! 2 = 0x56"
      by (simp add: slice_def validatorFrequencyDataPrefix_def nth_append)
    then show ?thesis by (auto simp: validatorFrequencyDataPrefix_def)
  qed
qed

definition noPrefix :: "bytes \<Rightarrow> bool" where
  "noPrefix b \<longleftrightarrow> (\<forall>j < length b. slice b j (j + 3) \<noteq> validatorFrequencyDataPrefix)"

lemma noPrefixD: "noPrefix b \<Longrightarrow> j < length b \<Longrightarrow> slice b j (j + 3) \<noteq> validatorFrequencyDataPrefix"
  by (simp add: noPrefix_def)

lemma noPrefixI: "0x56 \<notin> set b \<Longrightarrow> noPrefix b"
proof (unfold noPrefix_def, intro allI impI notI)
  fix j assume "0x56 \<notin> set b" "j < length b" "slice b j (j + 3) = validatorFrequencyDataPrefix"
  then have "0x56 \<in> set (slice b j (j + 3))" by (simp add: validatorFrequencyDataPrefix_def)
  then have "0x56 \<in> set b" by (auto simp: slice_def dest: in_set_takeD in_set_dropD)
  with \<open>0x56 \<notin> set b\<close> show False by simp
qed

lemma findPrefix_layout:
  assumes "noPrefix a" "2 < length a" "tail = [] \<or> tail = validatorFrequencyDataPrefix @ rest"
  shows "(case findPrefix (a @ tail @ seal) 0 (length (a @ tail) - 2) of
      None \<Rightarrow> length (a @ tail) | Some i \<Rightarrow> i) = length a"
proof (cases "tail = []")
  case True
  have "slice (a @ seal) j (j + 3) \<noteq> validatorFrequencyDataPrefix" if "j < length a - 2" for j
    using noPrefixD [OF assms(1), of j] that assms(2) by (subst slice_append_left) auto
  then have "findPrefix (a @ seal) 0 (length a - 2) = None" by (simp add: findPrefix_None)
  with True show ?thesis by simp
next
  case False
  with assms(3) have t: "tail = validatorFrequencyDataPrefix @ rest" by simp
  have "findPrefix (a @ validatorFrequencyDataPrefix @ rest @ seal) 0 (length (a @ tail) - 2) = Some (length a)"
  proof (rule findPrefix_Some)
    show "slice (a @ validatorFrequencyDataPrefix @ rest @ seal) (length a) (length a + 3) = validatorFrequencyDataPrefix"
      by (rule slice_append3) simp_all
    show "slice (a @ validatorFrequencyDataPrefix @ rest @ seal) j (j + 3) \<noteq> validatorFrequencyDataPrefix"
      if "j < length a" for j
      using noPrefixD [OF assms(1)] that by (rule prefix_no_border)
  qed (simp_all add: t)
  with t show ?thesis by simp
qed

lemma getValidatorBytes_beforeLuban:
  assumes h: "Extra h = vanity @ vals @ tail @ seal" "length vanity = extraVanity" "length seal = extraSeal"
    and vals: "vals \<noteq> []" "20 dvd length vals" "noPrefix (vanity @ vals)"
    and tail: "tail = [] \<or> tail = validatorFrequencyDataPrefix @ rest"
    and cfg: "\<not> IsLuban cfg (Number h)" "e \<noteq> 0"
  shows "getValidatorBytesFromHeader h cfg e = Inr vals"
proof -
  have len: "20 \<le> length vals" using vals(1,2) by (auto dest: dvd_imp_le)
  have sl: "slice (Extra h) extraVanity (length (Extra h) - extraSeal) = vals @ tail"
    unfolding h(1) using h(2,3) by (simp add: slice_def)
  have "take 3 vals \<noteq> validatorFrequencyDataPrefix"
    using noPrefixD [OF vals(3), of extraVanity] h(2) len vals(1) by (simp add: slice_def)
  then have np: "\<not> isPrefixOf validatorFrequencyDataPrefix (vals @ tail)"
    using len by (simp add: isPrefixOf_def)
  have fp: "(case findPrefix (Extra h) 0 (length (Extra h) - extraSeal - 2) of
      None \<Rightarrow> length (Extra h) - extraSeal | Some i \<Rightarrow> i) = extraVanity + length vals"
  proof -
    have "length (Extra h) - extraSeal = length ((vanity @ vals) @ tail)" using h by simp
    moreover have "Extra h = (vanity @ vals) @ tail @ seal" using h(1) by simp
    moreover have "2 < length (vanity @ vals)" "length (vanity @ vals) = extraVanity + length vals"
      using h(2) by simp_all
    ultimately show ?thesis using findPrefix_layout [OF vals(3) _ tail, of seal] by (simp only:)
  qed
  have sl': "slice (Extra h) extraVanity (extraVanity + length vals) = vals"
    unfolding h(1) by (rule slice_append3) (simp_all add: h(2))
  have "extraVanity + extraSeal < length (Extra h)" using h len vals(1) by simp
  then show ?thesis
    using len vals(2) cfg np sl'
    by (simp add: getValidatorBytesFromHeader_def Let_def sl fp [simplified])
qed

lemma getValidatorBytes_Luban:
  assumes h: "Extra h = vanity @ [of_nat n] @ vals @ tail" "length vanity = extraVanity"
    and vals: "length vals = n * 68" "0 < n" "n < 256"
    and tail: "extraSeal + (if IsBohr cfg (Number h) (Time h) then 1 else 0) \<le> length tail"
    and cfg: "IsLuban cfg (Number h)" "e \<noteq> 0" "numOf h mod e = 0"
  shows "getValidatorBytesFromHeader h cfg e = Inr vals"
proof -
  have n: "unat (Extra h ! extraVanity) = n"
    using h vals(3) by (simp add: nth_append unat_of_nat_small)
  have sl: "slice (Extra h) (extraVanity + 1) (extraVanity + 1 + n * 68) = vals"
    using slice_append3 [of "vanity @ [of_nat n]" "extraVanity + 1" vals _ tail] h vals(1) by simp
  show ?thesis
    using h(2) vals tail cfg n sl
    by (simp add: getValidatorBytesFromHeader_def Let_def h(1) split: if_splits)
qed

lemma validatorEntries_concat:
  "(\<And>v. v \<in> set vs \<Longrightarrow> vm v = Some (key v)) \<Longrightarrow>
    validatorEntries vm vs = Inr (concat (map (\<lambda>v. addrBytes v @ blsBytes (key v)) vs))"
  by (induction vs) auto

lemma chunks_map:
  "(\<And>v. v \<in> set vs \<Longrightarrow> length (f v) = k) \<Longrightarrow> chunks (length vs) k (concat (map f vs)) = map f vs"
  using chunks_concat [of "map f vs" k "[]"] by auto

lemma length_concat_map: "(\<And>v. v \<in> set vs \<Longrightarrow> length (f v) = k) \<Longrightarrow> length (concat (map f vs)) = length vs * k"
  using length_concat_const [of "map f vs" k] by auto

section \<open>Theorems\<close>

text \<open>Two small configurations for the examples: a chain with Luban and Bohr, and one that is like the
  Chiliz networks, without Luban but with Snake8.\<close>

definition lubanConfig :: ChainConfig where
  "lubanConfig = zeroChainConfig\<lparr> ChainID := Some 88888, LondonBlock := Some 0, LubanBlock := Some 1, BohrTime := Some 0 \<rparr>"

definition chilizConfig :: ChainConfig where
  "chilizConfig = zeroChainConfig\<lparr> Snake8Time := Some 0, Parlia := Some \<lparr> Period = 3, Epoch = 200 \<rparr> \<rparr>"

text \<open>C13. Round trip of the validator set after Luban: from an epoch header whose extra data
  \<open>prepareValidators\<close> has written, followed by a turn length, anything else and a seal, the parsers read
  back the sorted validators with their vote addresses and the turn length.\<close>

theorem validators_roundtrip_luban:
  assumes "length (Extra h) = extraVanity" "vs \<noteq> []" "length vs < 256"
    and "\<And>v. v \<in> set vs \<Longrightarrow> vm v = Some (key v)"
    and "IsLuban cfg (Number h)" "\<not> IsOnLuban cfg (Number h)" "IsBohr cfg (Number h) (Time h)"
    and "e \<noteq> 0" "numOf h mod e = 0" "length seal = extraSeal"
  shows "bindE (appendValidators cfg vs vm h) (\<lambda>h1.
      let h2 = h1\<lparr> Extra := Extra h1 @ [t] @ rest @ seal \<rparr> in
      bindE (parseValidators h2 cfg e) (\<lambda>p. bindE (parseTurnLength h2 cfg e) (\<lambda>tl. Inr (p, tl))))
    = Inr ((sort vs, map key (sort vs)), Some t)"
proof -
  let ?f = "\<lambda>v. addrBytes v @ blsBytes (key v)"
  define vals where "vals = concat (map ?f (sort vs))"
  define h2 where "h2 = h\<lparr> Extra := Extra h @ [of_nat (length vs)] @ vals @ [t] @ rest @ seal \<rparr>"
  have app: "appendValidators cfg vs vm h = Inr (h\<lparr> Extra := Extra h @ [of_nat (length vs)] @ vals \<rparr>)"
    using assms(4-6) validatorEntries_concat [of "sort vs" vm key]
    by (simp add: appendValidators_def validatorBytes_def vals_def)
  have len: "length vals = length vs * 68"
    unfolding vals_def by (subst length_concat_map [where k = 68]) simp_all
  then have ne: "vals \<noteq> []" using assms(2) by auto
  have "getValidatorBytesFromHeader h2 cfg e = Inr vals"
    by (rule getValidatorBytes_Luban [where vanity = "Extra h" and n = "length vs" and tail = "[t] @ rest @ seal"])
      (use assms len in \<open>simp_all add: h2_def\<close>)
  moreover have "chunks (length vs) 68 vals = map ?f (sort vs)"
    using chunks_map [of "sort vs" ?f 68] by (simp add: vals_def)
  ultimately have pv: "parseValidators h2 cfg e = Inr (sort vs, map key (sort vs))"
    using assms(5) len ne by (simp add: parseValidators_def h2_def Let_def comp_def)
  have "unat (Extra h2 ! extraVanity) = length vs"
    using assms(1,3) by (simp add: h2_def nth_append unat_of_nat_small)
  moreover have "Extra h2 ! (extraVanity + 1 + length vs * 68) = t"
    using assms(1) len by (simp add: h2_def nth_append)
  ultimately have pt: "parseTurnLength h2 cfg e = Inr (Some t)"
    using assms len by (simp add: parseTurnLength_def h2_def Let_def)
  show ?thesis using pv pt by (simp add: app h2_def)
qed

theorem validators_roundtrip_luban_witness:
  "bindE (appendValidators lubanConfig [5, 3] (\<lambda>v. Some 9) (exampleHeader\<lparr> Number := Some 400, Extra := replicate 32 0 \<rparr>))
    (\<lambda>h1. let h2 = h1\<lparr> Extra := Extra h1 @ [4] @ [1, 2, 3] @ replicate 65 0 \<rparr> in
      bindE (parseValidators h2 lubanConfig 200) (\<lambda>p. bindE (parseTurnLength h2 lubanConfig 200) (\<lambda>tl. Inr (p, tl))))
    = Inr ((sort [5, 3], map (\<lambda>v. 9) (sort [5, 3 :: address])), Some 4)"
  by (rule validators_roundtrip_luban) (simp_all add: lubanConfig_def zeroChainConfig_def IsLuban_def IsOnLuban_def IsBohr_def IsLondon_def
      isBlockForked_def isTimestampForked_def configBlockEqual_def exampleHeader_def)

text \<open>Before Luban the reader takes the first occurrence of the bytes \<open>VFQ\<close> for the end of the validators, so an occurrence in the
  vanity or in the addresses cuts them short.\<close>

lemma findPrefix_least:
  assumes "slice extra i (i + 3) = validatorFrequencyDataPrefix" "i < k"
  obtains p where "findPrefix extra 0 k = Some p" "p \<le> i"
proof -
  define p where "p = (LEAST j. slice extra j (j + 3) = validatorFrequencyDataPrefix)"
  have p: "slice extra p (p + 3) = validatorFrequencyDataPrefix" "p \<le> i"
    unfolding p_def using assms(1) by (rule LeastI, rule Least_le)
  then have "findPrefix extra 0 k = Some p"
    using assms(2) by (intro findPrefix_Some) (auto simp: p_def dest: not_less_Least)
  with p(2) that show thesis by blast
qed

lemma length_chunks [simp]: "length (chunks n k b) = n"
  by (induction n arbitrary: b) simp_all

lemma prefix_cuts_validators:
  assumes h: "Extra h = a @ rest" "length a = extraVanity + n" "extraSeal < length rest"
    and "\<not> noPrefix a" "\<not> IsLuban cfg (Number h)" "getValidatorBytesFromHeader h cfg e = Inr b"
  shows "length b < n \<or> b = []"
proof -
  obtain i where i: "i < length a" "slice a i (i + 3) = validatorFrequencyDataPrefix" using assms(4) by (auto simp: noPrefix_def)
  then have "length (slice a i (i + 3)) = 3" by (simp add: validatorFrequencyDataPrefix_def)
  then have "i + 3 \<le> length a" using i(1) by (simp add: slice_def)
  moreover from this have "slice (Extra h) i (i + 3) = validatorFrequencyDataPrefix"
    using i(2) by (simp add: h(1) slice_append_left)
  moreover from calculation have "i < length (Extra h) - extraSeal - 2" using h(3) by (simp add: h(1))
  ultimately obtain p where p: "findPrefix (Extra h) 0 (length (Extra h) - extraSeal - 2) = Some p" "p \<le> i"
    using findPrefix_least by blast
  have "length (slice (Extra h) extraVanity p) \<le> p - extraVanity" by (simp add: slice_def)
  then show ?thesis
    using assms(5,6) p \<open>i + 3 \<le> length a\<close> h(2)
    by (auto simp: getValidatorBytesFromHeader_def Let_def bindE_eq_Inr split: if_splits)
qed

lemma extra_reads_back:
  assumes "length (Extra h) = extraVanity" "vs \<noteq> []" "noPrefix (Extra h @ concat (map addrBytes (sort vs)))"
    and "\<not> IsLuban cfg (Number h)" "\<not> IsBohr cfg (Number h) (Time h)"
    and "Parlia cfg = Some parlia" "Epoch parlia \<noteq> 0" "numOf h mod Epoch parlia = 0" "IsSnake8 cfg (Time h)"
  shows "bindE (appendValidators cfg vs vm h) (\<lambda>h1.
      let h2 = appendSeal (appendFrequency True parentTime freqRLP h1) in
      bindE (parseValidators h2 cfg (Epoch parlia)) (\<lambda>p.
      bindE (extractSnake8ParentTimestamp h2 cfg) (\<lambda>ts.
      bindE (parseValidatorFrequencies h2 cfg) (\<lambda>f. Inr (p, ts, f)))))
    = Inr ((sort vs, []), Some parentTime, freqRLP)"
proof -
  define vals where "vals = concat (map addrBytes (sort vs))"
  define ts where "ts = le_bytes 8 (unat parentTime)"
  define tail where "tail = validatorFrequencyDataPrefix @ ts @ freqRLP"
  define h2 where "h2 = h\<lparr> Extra := Extra h @ vals @ tail @ replicate extraSeal 0 \<rparr>"
  have len: "length vals = length vs * 20" "length ts = 8"
    unfolding vals_def by (subst length_concat_map [where k = 20]) (simp_all add: ts_def)
  then have ne: "vals \<noteq> []" using assms(2) by auto
  have gv: "getValidatorBytesFromHeader h2 cfg (Epoch parlia) = Inr vals"
    by (rule getValidatorBytes_beforeLuban [where vanity = "Extra h" and tail = tail])
      (use assms len(1) in \<open>simp_all add: h2_def tail_def vals_def [symmetric], auto\<close>)
  have "chunks (length vs) 20 vals = map addrBytes (sort vs)"
    using chunks_map [of "sort vs" addrBytes 20] by (simp add: vals_def)
  then have pv: "parseValidators h2 cfg (Epoch parlia) = Inr (sort vs, [])"
    using gv assms(4) len(1) ne by (simp add: parseValidators_def h2_def Let_def comp_def)
  have ex: "length (Extra h2) = 32 + length vs * 20 + 11 + length freqRLP + 65"
    using assms(1) len by (simp add: h2_def tail_def)
  have off: "snake8FreqDataOffset h2 cfg = Inr (Some (32 + length vs * 20))"
    using assms(4-8) gv len ex by (simp add: snake8FreqDataOffset_def Let_def) (simp add: h2_def)
  have sl: "slice (Extra h2) (32 + length vs * 20) (32 + length vs * 20 + 3) = validatorFrequencyDataPrefix"
    "slice (Extra h2) (32 + length vs * 20 + 3) (32 + length vs * 20 + 3 + 8) = ts"
    "slice (Extra h2) (32 + length vs * 20 + 3 + 8) (length (Extra h2) - 65) = freqRLP"
    unfolding ex using assms(1) len by (simp_all add: h2_def tail_def slice_def)
  have "le_nat ts = unat parentTime"
    using unat_u64_less [of parentTime] by (simp add: ts_def le_nat_le_bytes)
  with off sl ex have ets: "extractSnake8ParentTimestamp h2 cfg = Inr (Some parentTime)"
    by (simp add: extractSnake8ParentTimestamp_def Let_def)
  have "IsSnake8 cfg (Time h2)" using assms(9) by (simp add: h2_def)
  with off sl ex have pf: "parseValidatorFrequencies h2 cfg = Inr freqRLP"
    by (simp add: parseValidatorFrequencies_def Let_def)
  have "appendValidators cfg vs vm h = Inr (h\<lparr> Extra := Extra h @ vals \<rparr>)"
    using assms(4) by (simp add: appendValidators_def validatorBytes_def vals_def)
  then show ?thesis
    using pv ets pf by (simp add: appendSeal_def appendFrequency_def h2_def tail_def ts_def)
qed

text \<open>C14. Round trip of the extra data of an epoch block before Luban with Snake8 active: the validators that \<open>prepareValidators\<close> has
  written, the parent timestamp and the frequency data are all read back if and only if the bytes \<open>VFQ\<close> occur neither in the vanity
  nor in the validator addresses.\<close>

theorem extra_roundtrip_before_luban:
  assumes "length (Extra h) = extraVanity" "vs \<noteq> []" "\<not> IsLuban cfg (Number h)" "\<not> IsBohr cfg (Number h) (Time h)"
    and "Parlia cfg = Some parlia" "Epoch parlia \<noteq> 0" "numOf h mod Epoch parlia = 0" "IsSnake8 cfg (Time h)"
  shows "bindE (appendValidators cfg vs vm h) (\<lambda>h1.
      let h2 = appendSeal (appendFrequency True parentTime freqRLP h1) in
      bindE (parseValidators h2 cfg (Epoch parlia)) (\<lambda>p.
      bindE (extractSnake8ParentTimestamp h2 cfg) (\<lambda>ts.
      bindE (parseValidatorFrequencies h2 cfg) (\<lambda>f. Inr (p, ts, f)))))
    = Inr ((sort vs, []), Some parentTime, freqRLP)
    \<longleftrightarrow> noPrefix (Extra h @ concat (map addrBytes (sort vs)))" (is "?lhs = ?rhs \<longleftrightarrow> noPrefix ?a")
proof
  assume "noPrefix ?a"
  with assms show "?lhs = ?rhs" by (intro extra_reads_back)
next
  define rest where "rest = validatorFrequencyDataPrefix @ le_bytes 8 (unat parentTime) @ freqRLP @ replicate extraSeal 0"
  define h2 where "h2 = h\<lparr> Extra := ?a @ rest \<rparr>"
  have len: "length ?a = extraVanity + length vs * 20" using assms(1) by (subst length_append, subst length_concat_map [where k = 20]) simp_all
  assume "?lhs = ?rhs"
  then have "parseValidators h2 cfg (Epoch parlia) = Inr (sort vs, [])"
    using assms(3) by (auto simp: appendValidators_def validatorBytes_def appendSeal_def appendFrequency_def h2_def rest_def Let_def bindE_eq_Inr)
  then obtain b where b: "getValidatorBytesFromHeader h2 cfg (Epoch parlia) = Inr b" "b \<noteq> []"
    "map BytesToAddress (chunks (length b div 20) 20 b) = sort vs"
    using assms(3) by (auto simp: parseValidators_def h2_def Let_def bindE_eq_Inr split: if_splits)
  have "length b div 20 = length vs" using arg_cong [OF b(3), of length] by (simp add: length_chunks)
  then have "\<not> length b < length vs * 20" by auto
  then show "noPrefix ?a"
    using prefix_cuts_validators [of h2 ?a rest "length vs * 20" cfg "Epoch parlia" b] b(1,2) len assms(3)
    by (auto simp: h2_def rest_def)
qed

theorem extra_roundtrip_before_luban_witness:
  "bindE (appendValidators chilizConfig [5, 3] (\<lambda>v. None) (exampleHeader\<lparr> Number := Some 400, Extra := replicate 32 0 \<rparr>))
    (\<lambda>h1. let h2 = appendSeal (appendFrequency True 1699999997 [0xC0] h1) in
      bindE (parseValidators h2 chilizConfig (Epoch \<lparr> Period = 3, Epoch = 200 \<rparr>)) (\<lambda>p.
      bindE (extractSnake8ParentTimestamp h2 chilizConfig) (\<lambda>ts.
      bindE (parseValidatorFrequencies h2 chilizConfig) (\<lambda>f. Inr (p, ts, f)))))
    = Inr ((sort [5, 3], []), Some 1699999997, [0xC0])"
proof -
  have "set (addrBytes 5) \<subseteq> {0, 5}" "set (addrBytes 3) \<subseteq> {0, 3}" by code_simp+
  then have "noPrefix (Extra (exampleHeader\<lparr> Number := Some 400, Extra := replicate 32 0 \<rparr>) @ concat (map addrBytes (sort [5, 3])))"
    by (intro noPrefixI) auto
  then show ?thesis
    by (subst extra_roundtrip_before_luban) (simp_all add: chilizConfig_def zeroChainConfig_def IsLuban_def IsBohr_def IsLondon_def IsSnake8_def
      isBlockForked_def isTimestampForked_def exampleHeader_def)
qed

text \<open>C15. The fork decision cannot be forged: once \<open>verifySnake8Extra\<close> accepts a header against its
  real parent, the decision a syncing node takes without the parent, from the timestamp embedded in the
  header, is the one that follows from the parent.\<close>

theorem snake8_decision_agrees:
  assumes "verifySnake8Extra cfg header parent = Inr ()"
    and "GetHeaderByHash chain (ParentHash header) \<in> {None, Some parent}"
  shows "isSnake8Enabled cfg chain header = Inr (IsSnake8 cfg (Time parent))"
  using assms by (auto simp: verifySnake8Extra_def isSnake8Enabled_def bindE_eq_Inr split: if_splits option.splits)

theorem snake8_decision_agrees_witness:
  "isSnake8Enabled chilizConfig \<lparr> Config = chilizConfig, CurrentHeader = None, GetHeader = (\<lambda>_ _. None),
      GetHeaderByNumber = (\<lambda>_. None), GetHeaderByHash = (\<lambda>_. None), GetVerifiedBlockByHash = (\<lambda>_. None) \<rparr>
      (exampleHeader\<lparr> Extra := replicate 32 0 @ validatorFrequencyDataPrefix @ [0, 0xF1, 0x53, 0x65, 0, 0, 0, 0] @ replicate 65 0 \<rparr>)
    = Inr (IsSnake8 chilizConfig (Time (exampleHeader\<lparr> Time := 0x6553F100 \<rparr>)))"
proof (rule snake8_decision_agrees)
  show "verifySnake8Extra chilizConfig (exampleHeader\<lparr> Extra := replicate 32 0 @ validatorFrequencyDataPrefix
      @ [0, 0xF1, 0x53, 0x65, 0, 0, 0, 0] @ replicate 65 0 \<rparr>) (exampleHeader\<lparr> Time := 0x6553F100 \<rparr>) = Inr ()"
    by (simp add: verifySnake8Extra_def extractSnake8ParentTimestamp_def snake8FreqDataOffset_def chilizConfig_def zeroChainConfig_def
        exampleHeader_def IsSnake8_def isTimestampForked_def slice_def validatorFrequencyDataPrefix_def Let_def)
qed simp

end
