(* ===== verification/Lru.thy ===== *)
theory Lru
  imports Prelude
begin

text \<open>
  The LRU cache of \<open>common/lru/basiclru.go\<close>, which the engine uses for snapshots, for recovered
  signers and for double-sign detection. The doubly linked list and the map of the code are one
  association list here, most recently used entry first.

  \<open>value_cache\<close> is what a client may rely on: a lookup after an insertion finds the new value, and
  other entries are unchanged or gone. The client lemma is memoisation: a function computed through
  the cache returns what the function itself returns.
\<close>

section \<open>Operations\<close>

record ('k, 'v) lru =
  lru_cap :: nat
  items :: "('k \<times> 'v) list"

definition NewBasicLRU :: "int \<Rightarrow> ('k, 'v) lru" where
  "NewBasicLRU capacity = \<lparr> lru_cap = (if capacity \<le> 0 then 1 else nat capacity), items = [] \<rparr>"

definition Len :: "('k, 'v) lru \<Rightarrow> nat" where
  "Len c = length (items c)"

text \<open>\<open>Add3\<close> also returns the evicted entry.\<close>

definition Add3 :: "'k \<Rightarrow> 'v \<Rightarrow> ('k, 'v) lru \<Rightarrow> ('k \<times> 'v) option \<times> ('k, 'v) lru" where
  "Add3 key value c =
     (case map_of (items c) key of
        Some _ \<Rightarrow> (None, c\<lparr> items := (key, value) # AList.delete key (items c) \<rparr>)
      | None \<Rightarrow>
          if Len c \<ge> lru_cap c
          then (Some (last (items c)), c\<lparr> items := (key, value) # butlast (items c) \<rparr>)
          else (None, c\<lparr> items := (key, value) # items c \<rparr>))"

definition Add :: "'k \<Rightarrow> 'v \<Rightarrow> ('k, 'v) lru \<Rightarrow> bool \<times> ('k, 'v) lru" where
  "Add key value c = (case Add3 key value c of (e, c') \<Rightarrow> (e \<noteq> None, c'))"

definition Contains :: "'k \<Rightarrow> ('k, 'v) lru \<Rightarrow> bool" where
  "Contains key c = (map_of (items c) key \<noteq> None)"

definition Get :: "'k \<Rightarrow> ('k, 'v) lru \<Rightarrow> 'v option \<times> ('k, 'v) lru" where
  "Get key c =
     (case map_of (items c) key of
        None \<Rightarrow> (None, c)
      | Some v \<Rightarrow> (Some v, c\<lparr> items := (key, v) # AList.delete key (items c) \<rparr>))"

definition Peek :: "'k \<Rightarrow> ('k, 'v) lru \<Rightarrow> 'v option" where
  "Peek key c = map_of (items c) key"

definition GetOldest :: "('k, 'v) lru \<Rightarrow> ('k \<times> 'v) option" where
  "GetOldest c = (if items c = [] then None else Some (last (items c)))"

definition Purge :: "('k, 'v) lru \<Rightarrow> ('k, 'v) lru" where
  "Purge c = c\<lparr> items := [] \<rparr>"

definition Remove :: "'k \<Rightarrow> ('k, 'v) lru \<Rightarrow> bool \<times> ('k, 'v) lru" where
  "Remove key c = (map_of (items c) key \<noteq> None, c\<lparr> items := AList.delete key (items c) \<rparr>)"

definition RemoveOldest :: "('k, 'v) lru \<Rightarrow> ('k \<times> 'v) option \<times> ('k, 'v) lru" where
  "RemoveOldest c =
     (if items c = [] then (None, c) else (Some (last (items c)), c\<lparr> items := butlast (items c) \<rparr>))"

definition Keys :: "('k, 'v) lru \<Rightarrow> 'k list" where
  "Keys c = rev (map fst (items c))"

section \<open>Invariant\<close>

definition lru_wf :: "('k, 'v) lru \<Rightarrow> bool" where
  "lru_wf c \<longleftrightarrow> distinct (map fst (items c)) \<and> length (items c) \<le> lru_cap c \<and> 0 < lru_cap c"

lemma lru_wf_New: "lru_wf (NewBasicLRU n)"
  by (simp add: lru_wf_def NewBasicLRU_def)

lemma length_delete_mem:
  "distinct (map fst xs) \<Longrightarrow> k \<in> fst ` set xs \<Longrightarrow> Suc (length (AList.delete k xs)) = length xs"
proof (induction xs)
  case (Cons x xs)
  then show ?case by (cases x) (auto simp: AList.delete_id)
qed simp

lemma distinct_butlast_fst: "distinct (map fst xs) \<Longrightarrow> distinct (map fst (butlast xs))"
  by (simp add: map_butlast distinct_butlast)

lemma lru_wf_front:
  "lru_wf c \<Longrightarrow> map_of (items c) k \<noteq> None \<Longrightarrow> lru_wf (c\<lparr> items := (k, v) # AList.delete k (items c) \<rparr>)"
  using length_delete_mem [of "items c" k] delete_notin_dom [of k "items c"]
  by (simp add: lru_wf_def distinct_delete map_of_eq_None_iff)

lemma lru_wf_push:
  assumes "lru_wf c" "map_of (items c) k = None"
  shows "lru_wf (c\<lparr> items := (k, v) # (if Len c \<ge> lru_cap c then butlast (items c) else items c) \<rparr>)"
proof -
  have "k \<notin> fst ` set (items c)" using assms(2) by (simp add: map_of_eq_None_iff)
  moreover from this have "k \<notin> fst ` set (butlast (items c))" by (auto dest: in_set_butlastD)
  ultimately show ?thesis using assms(1) by (auto simp: lru_wf_def Len_def distinct_butlast_fst)
qed

lemma lru_wf_Add3: "lru_wf c \<Longrightarrow> lru_wf (snd (Add3 k v c))"
  using lru_wf_front [of c k v] lru_wf_push [of c k v]
  by (cases "map_of (items c) k") (auto simp: Add3_def simp del: map_of_eq_None_iff split: if_splits)

lemma lru_wf_Get: "lru_wf c \<Longrightarrow> lru_wf (snd (Get k c))"
  using lru_wf_front [of c k] by (cases "map_of (items c) k") (auto simp: Get_def)

lemma lru_wf_others:
  "lru_wf c \<Longrightarrow> lru_wf (snd (Remove k c))"
  "lru_wf c \<Longrightarrow> lru_wf (snd (RemoveOldest c))"
  "lru_wf c \<Longrightarrow> lru_wf (Purge c)"
  using length_gm_del_le [of k "items c"]
  by (auto simp: Remove_def RemoveOldest_def Purge_def lru_wf_def distinct_delete distinct_butlast_fst)

section \<open>What a client relies on\<close>

locale value_cache =
  fixes peek :: "'k \<Rightarrow> 'c \<Rightarrow> 'v option"
    and get :: "'k \<Rightarrow> 'c \<Rightarrow> 'v option \<times> 'c"
    and add :: "'k \<Rightarrow> 'v \<Rightarrow> 'c \<Rightarrow> 'c"
    and wf :: "'c \<Rightarrow> bool"
  assumes get_peek: "wf c \<Longrightarrow> fst (get k c) = peek k c"
    and peek_get: "wf c \<Longrightarrow> peek k' (snd (get k c)) = peek k' c"
    and peek_add_same: "wf c \<Longrightarrow> peek k (add k v c) = Some v"
    and peek_add_other: "wf c \<Longrightarrow> k' \<noteq> k \<Longrightarrow> peek k' (add k v c) = Some w \<Longrightarrow> peek k' c = Some w"
    and wf_get: "wf c \<Longrightarrow> wf (snd (get k c))"
    and wf_add: "wf c \<Longrightarrow> wf (add k v c)"
begin

text \<open>A cache is coherent when every entry is an acceptable value for its key. \<open>memo r k\<close> is the
  idiom of the callers: look up \<open>k\<close>, and otherwise compute \<open>r\<close> and store it if it succeeded.\<close>

definition coherent :: "('k \<Rightarrow> 'v \<Rightarrow> bool) \<Rightarrow> 'c \<Rightarrow> bool" where
  "coherent ok c \<longleftrightarrow> wf c \<and> (\<forall>k v. peek k c = Some v \<longrightarrow> ok k v)"

definition memo :: "'e + 'v \<Rightarrow> 'k \<Rightarrow> 'c \<Rightarrow> ('e + 'v) \<times> 'c" where
  "memo r k c = (case get k c of
       (Some v, c') \<Rightarrow> (Inr v, c')
     | (None, c') \<Rightarrow> (case r of Inl e \<Rightarrow> (Inl e, c') | Inr v \<Rightarrow> (Inr v, add k v c')))"

lemma coherent_get: "coherent ok c \<Longrightarrow> coherent ok (snd (get k c))"
  by (simp add: coherent_def peek_get wf_get)

lemma coherent_add: "coherent ok c \<Longrightarrow> ok k v \<Longrightarrow> coherent ok (add k v c)"
  unfolding coherent_def using peek_add_same peek_add_other wf_add by (metis option.inject)

lemma memo_correct:
  assumes c: "coherent ok c" and r: "\<And>v. ok k v \<longleftrightarrow> r = Inr v"
  shows "fst (memo r k c) = r \<and> coherent ok (snd (memo r k c))"
proof -
  obtain x c' where g: "get k c = (x, c')" by fastforce
  with coherent_get [OF c, of k] have c': "coherent ok c'" by simp
  from c g get_peek [of c k] have x: "x = peek k c" by (simp add: coherent_def)
  show ?thesis
  proof (cases x)
    case None
    with g c' coherent_add [OF c'] r show ?thesis by (auto simp: memo_def split: sum.splits)
  next
    case (Some v)
    with x c have "ok k v" by (simp add: coherent_def)
    with Some g c' r show ?thesis by (simp add: memo_def)
  qed
qed

end

interpretation lru_cache: value_cache Peek Get "\<lambda>k v c. snd (Add k v c)" lru_wf
proof
  fix c :: "('k, 'v) lru" and k v
  assume wf: "lru_wf c"
  show "fst (Get k c) = Peek k c" by (simp add: Get_def Peek_def split: option.splits)
  show "Peek k' (snd (Get k c)) = Peek k' c" for k'
    by (auto simp: Get_def Peek_def delete_conv' split: option.splits)
  show "Peek k (snd (Add k v c)) = Some v"
    by (auto simp: Add_def Add3_def Peek_def split: option.splits)
  show "lru_wf (snd (Get k c))" using wf by (rule lru_wf_Get)
  show "lru_wf (snd (Add k v c))"
    using lru_wf_Add3 [OF wf, of k v] by (cases "Add3 k v c") (simp add: Add_def)
  show "k' \<noteq> k \<Longrightarrow> Peek k' (snd (Add k v c)) = Some w \<Longrightarrow> Peek k' c = Some w" for k' w
    using wf by (auto simp: Add_def Add3_def Peek_def delete_conv' lru_wf_def
        dest: map_of_SomeD in_set_butlastD split: option.splits if_splits)
qed

section \<open>Eviction order\<close>

lemma Add_evicts_oldest:
  assumes "lru_wf c" "\<not> Contains k c" "Len c = lru_cap c"
  shows "fst (Add3 k v c) = GetOldest c" "Keys (snd (Add3 k v c)) = tl (Keys c) @ [k]"
proof -
  have ne: "items c \<noteq> []" using assms by (auto simp: lru_wf_def Len_def)
  then show "fst (Add3 k v c) = GetOldest c"
    using assms by (auto simp: Add3_def Contains_def GetOldest_def)
  have "Keys c = fst (last (items c)) # rev (map fst (butlast (items c)))"
    using ne by (cases "items c" rule: rev_cases) (simp_all add: Keys_def)
  with assms show "Keys (snd (Add3 k v c)) = tl (Keys c) @ [k]"
    by (auto simp: Add3_def Contains_def Keys_def)
qed

end
