(* ===== verification/Snapshot.thy ===== *)
theory Snapshot
  imports Extra_Data Lru
begin

text \<open>
  The validator snapshot of the Parlia engine (\<open>consensus/parlia/snapshot.go\<close>) and the recovery of a
  header's signer. The fields \<open>config\<close> and \<open>ethAPI\<close> are not part of the record and the signature cache
  is passed as the state of the steps that use it. Go maps are association lists with distinct keys; a fork
  hash is kept as the four bytes whose hexadecimal form the code stores.
  \<open>defaultEpochLength\<close> is a package variable that \<open>New\<close> overwrites, so it is an argument.
\<close>

section \<open>Constants\<close>

definition lorentzEpochLength :: u64 where "lorentzEpochLength = 500"
definition maxwellEpochLength :: u64 where "maxwellEpochLength = 1000"
definition defaultBlockInterval :: u64 where "defaultBlockInterval = 3000"
definition lorentzBlockInterval :: u64 where "lorentzBlockInterval = 1500"
definition maxwellBlockInterval :: u64 where "maxwellBlockInterval = 750"
definition fermiBlockInterval :: u64 where "fermiBlockInterval = 450"
definition defaultTurnLength :: u8 where "defaultTurnLength = 1"
definition diffInTurn :: int where "diffInTurn = 2"
definition diffNoTurn :: int where "diffNoTurn = 1"
definition validatorFrequencyPrecision :: int where "validatorFrequencyPrecision = 1000"

section \<open>State\<close>

record ValidatorInfo =
  Index :: nat
  InfoVoteAddress :: blskey

record Snapshot =
  sNumber :: u64
  sHash :: hash
  EpochLength :: u64
  BlockInterval :: u64
  TurnLength :: u8
  Validators :: "(address, ValidatorInfo) gomap"
  Recents :: "(u64, address) gomap"
  RecentForkHashes :: "(u64, bytes) gomap"
  Attestation :: "VoteData option"
  IsSnake8Fork :: bool
  FrequencyRLP :: bytes

section \<open>The signer of a header\<close>

type_synonym sigCache = "(hash, address) lru"

text \<open>The address is the last 20 bytes of the hash of the public key without its first byte.\<close>

definition recoverSigner :: "crypto \<Rightarrow> Header \<Rightarrow> int option \<Rightarrow> address result" where
  "recoverSigner C header chainId =
     (if length (Extra header) < extraSeal then Inl errMissingSignature
      else (let signature = drop (length (Extra header) - extraSeal) (Extra header) in
        bindE (SealHash C header chainId) (\<lambda>h.
          case Ecrecover C h signature of
            None \<Rightarrow> Inl errRecoverFailed
          | Some pubkey \<Rightarrow> Inr (ucast (keccak256 C (drop 1 pubkey))))))"

definition ecrecover :: "crypto \<Rightarrow> Header \<Rightarrow> int option \<Rightarrow> (sigCache, parlia_error, address) act" where
  "ecrecover C header chainId sigCache0 =
     (case Get (Hash C header) sigCache0 of
        (Some address, c) \<Rightarrow> (Inr address, c)
      | (None, c) \<Rightarrow>
          (case recoverSigner C header chainId of
             Inl e \<Rightarrow> (Inl e, c)
           | Inr signer \<Rightarrow> (Inr signer, snd (Add (Hash C header) signer c))))"

section \<open>Creation, loading, copying\<close>

definition validators :: "Snapshot \<Rightarrow> address list" where
  "validators s = sort (map fst (Validators s))"

text \<open>Numbering of the validators in ascending order, offset by 1.\<close>

definition setIndexes :: "address list \<Rightarrow> (address, ValidatorInfo) gomap \<Rightarrow> (address, ValidatorInfo) gomap" where
  "setIndexes vs m = fold (\<lambda>(idx, v) m. case gm_get m v of
       None \<Rightarrow> m | Some info \<Rightarrow> gm_put v (info\<lparr> Index := idx + 1 \<rparr>) m) (enumerate 0 vs) m"

definition newSnapshot ::
  "u64 \<Rightarrow> u64 \<Rightarrow> hash \<Rightarrow> address list \<Rightarrow> blskey list \<Rightarrow> bool \<Rightarrow> Snapshot" where
  "newSnapshot defaultEpochLength number hash vals voteAddrs isSnake8Fork =
     (let infos = fold (\<lambda>(v, k) m. gm_put v \<lparr> Index = 0, InfoVoteAddress = k \<rparr> m)
            (zip vals (if length voteAddrs = length vals then voteAddrs else replicate (length vals) 0)) [];
          snap = \<lparr> sNumber = number, sHash = hash, EpochLength = defaultEpochLength,
                   BlockInterval = defaultBlockInterval, TurnLength = defaultTurnLength,
                   Validators = infos, Recents = [], RecentForkHashes = [], Attestation = None,
                   IsSnake8Fork = isSnake8Fork, FrequencyRLP = [] \<rparr>
      in if length voteAddrs = length vals
         then snap\<lparr> Validators := setIndexes (validators snap) infos \<rparr>
         else snap)"

text \<open>The database maps a hash to the stored snapshot; its JSON form is not modelled.\<close>

definition loadSnapshot :: "u64 \<Rightarrow> (hash \<Rightarrow> Snapshot option) \<Rightarrow> hash \<Rightarrow> bool \<Rightarrow> Snapshot result" where
  "loadSnapshot defaultEpochLength db hash isSnake8Fork =
     (case db hash of
        None \<Rightarrow> Inl errNotFound
      | Some snap \<Rightarrow>
          (let snap = (if EpochLength snap = 0 then snap\<lparr> EpochLength := defaultEpochLength \<rparr> else snap);
               snap = (if BlockInterval snap = 0 then snap\<lparr> BlockInterval := defaultBlockInterval \<rparr> else snap);
               snap = (if TurnLength snap = 0 then snap\<lparr> TurnLength := defaultTurnLength \<rparr> else snap);
               snap = (if isSnake8Fork then snap\<lparr> TurnLength := 50 \<rparr> else snap)
           in Inr (snap\<lparr> IsSnake8Fork := isSnake8Fork \<rparr>)))"

definition store :: "Snapshot \<Rightarrow> (hash \<Rightarrow> Snapshot option) \<Rightarrow> (hash \<Rightarrow> Snapshot option)" where
  "store s db = db(sHash s \<mapsto> s)"

definition copy :: "Snapshot \<Rightarrow> Snapshot" where
  "copy s = s\<lparr> FrequencyRLP := [] \<rparr>"

definition isMajorityFork :: "Snapshot \<Rightarrow> bytes \<Rightarrow> bool" where
  "isMajorityFork s forkHash =
     (let ally = length (filter (\<lambda>(_, h). h = forkHash) (RecentForkHashes s))
      in ally > length (RecentForkHashes s) div 2)"

section \<open>Fast finality\<close>

definition updateAttestation :: "Header \<Rightarrow> ChainConfig \<Rightarrow> Snapshot \<Rightarrow> Snapshot result" where
  "updateAttestation header chainConfig s =
     (if \<not> IsLuban chainConfig (Number header) then Inr s
      else (case getVoteAttestationFromHeader header chainConfig (EpochLength s) of
          Inl Panic \<Rightarrow> Inl Panic
        | Inl _ \<Rightarrow> Inr s
        | Inr None \<Rightarrow> Inr s
        | Inr (Some attestation) \<Rightarrow>
            (case AttData attestation of
               None \<Rightarrow> Inl Panic
             | Some d \<Rightarrow>
                 if \<not> IsFermi chainConfig (Number header) (Time header)
                    \<and> (TargetHash d \<noteq> ParentHash header \<or> TargetNumber d + 1 \<noteq> numOf header)
                 then Inr s
                 else (case Attestation s of
                     Some a \<Rightarrow>
                       if SourceNumber d + 1 \<noteq> TargetNumber d
                       then Inr (s\<lparr> Attestation := Some (a\<lparr> TargetNumber := TargetNumber d,
                                                             TargetHash := TargetHash d \<rparr>) \<rparr>)
                       else Inr (s\<lparr> Attestation := Some d \<rparr>)
                   | None \<Rightarrow> Inr (s\<lparr> Attestation := Some d \<rparr>)))))"

definition getFinalizedNumber :: "Snapshot \<Rightarrow> u64" where
  "getFinalizedNumber s = (case Attestation s of Some a \<Rightarrow> SourceNumber a | None \<Rightarrow> 0)"

section \<open>Recent signers\<close>

definition versionHistoryCheckLen :: "Snapshot \<Rightarrow> u64" where
  "versionHistoryCheckLen s = of_nat (length (Validators s)) * ucast (TurnLength s)"

definition minerHistoryCheckLen :: "Snapshot \<Rightarrow> u64" where
  "minerHistoryCheckLen s = (of_nat (length (Validators s)) div 2 + 1) * ucast (TurnLength s) - 1"

definition countRecents :: "Snapshot \<Rightarrow> (address, u8) gomap" where
  "countRecents s =
     (let checkHistoryLength = minerHistoryCheckLen s;
          leftHistoryBound = (if sNumber s > checkHistoryLength then sNumber s - checkHistoryLength else 0)
      in fold (\<lambda>(seen, recent) counts.
           if seen \<le> leftHistoryBound \<or> recent = 0 then counts
           else gm_put recent ((case gm_get counts recent of None \<Rightarrow> 0 | Some c \<Rightarrow> c) + 1) counts)
         (Recents s) [])"

definition signRecentlyByCounts :: "Snapshot \<Rightarrow> address \<Rightarrow> (address, u8) gomap \<Rightarrow> bool" where
  "signRecentlyByCounts s validator counts =
     (case gm_get counts validator of Some seenTimes \<Rightarrow> seenTimes \<ge> TurnLength s | None \<Rightarrow> False)"

definition SignRecently :: "Snapshot \<Rightarrow> address \<Rightarrow> bool" where
  "SignRecently s validator = signRecentlyByCounts s validator (countRecents s)"

section \<open>Ancestors\<close>

text \<open>\<open>sort.Search\<close>: the bisection for the smallest index at which \<open>f\<close> holds.\<close>

function search :: "(nat \<Rightarrow> bool) \<Rightarrow> nat \<Rightarrow> nat \<Rightarrow> nat" where
  "search f i j = (if i < j then (let h = (i + j) div 2 in if \<not> f h then search f (h + 1) j else search f i h) else i)"
  by auto
termination by (relation "measure (\<lambda>(f, i, j). j - i)") auto

declare search.simps [simp del]

definition findParent :: "crypto \<Rightarrow> chain_reader \<Rightarrow> Header list \<Rightarrow> Header \<Rightarrow> Header option" where
  "findParent C chain candidateParents ancient =
     (let parentHash = ParentHash ancient;
          parentHeight = numOf ancient - 1;
          index = search (\<lambda>i. numOf (candidateParents ! i) \<ge> parentHeight) 0 (length candidateParents) in
      if index < length candidateParents \<and> numOf (candidateParents ! index) = parentHeight
         \<and> Hash C (candidateParents ! index) = parentHash
      then Some (candidateParents ! index)
      else GetHeader chain parentHash parentHeight)"

fun findAncient :: "crypto \<Rightarrow> chain_reader \<Rightarrow> Header list \<Rightarrow> nat \<Rightarrow> Header \<Rightarrow> Header option" where
  "findAncient C chain parents 0 ancient = Some ancient"
| "findAncient C chain parents (Suc n) ancient =
     (case findParent C chain parents ancient of
        None \<Rightarrow> None | Some h \<Rightarrow> findAncient C chain parents n h)"

definition FindAncientHeader :: "crypto \<Rightarrow> Header \<Rightarrow> u64 \<Rightarrow> chain_reader \<Rightarrow> Header list \<Rightarrow> Header option" where
  "FindAncientHeader C header ite chain candidateParents = findAncient C chain candidateParents (unat ite) header"

section \<open>Applying headers\<close>

text \<open>The parts of the loop body of \<open>apply\<close>, in the order of the code.\<close>

definition dropOldHistory :: "u64 \<Rightarrow> Snapshot \<Rightarrow> Snapshot" where
  "dropOldHistory number snap =
     (let limit = minerHistoryCheckLen snap + 1;
          snap = (if number \<ge> limit then snap\<lparr> Recents := gm_del (number - limit) (Recents snap) \<rparr> else snap);
          limit = versionHistoryCheckLen snap
      in if number \<ge> limit
         then snap\<lparr> RecentForkHashes := gm_del (number - limit) (RecentForkHashes snap) \<rparr> else snap)"

definition checkSigner :: "ChainConfig \<Rightarrow> Header \<Rightarrow> address \<Rightarrow> Snapshot \<Rightarrow> unit result" where
  "checkSigner chainConfig header validator snap =
     (if gm_get (Validators snap) validator = None then Inl (errUnauthorizedValidator validator)
      else if IsBohr chainConfig (Number header) (Time header)
      then (if SignRecently snap validator then Inl errRecentlySigned else Inr ())
      else if \<not> IsSnake8Fork snap \<and> validator \<in> snd ` set (Recents snap) then Inl errRecentlySigned
      else Inr ())"

definition recordSigner :: "ChainConfig \<Rightarrow> Header \<Rightarrow> address \<Rightarrow> Snapshot \<Rightarrow> Snapshot result" where
  "recordSigner chainConfig header validator snap =
     (let number = numOf header;
          snap = snap\<lparr> Recents := gm_put number validator (Recents snap) \<rparr>;
          snap = (if IsMaxwell chainConfig (Number header) (Time header)
                  then snap\<lparr> Recents := filter (\<lambda>(b, _). \<not> b \<le> getFinalizedNumber snap) (Recents snap) \<rparr>
                  else snap)
      in case sliceC (Extra header) (extraVanity - nextForkHashSize) extraVanity of
           None \<Rightarrow> Inl Panic
         | Some forkHash \<Rightarrow> Inr (snap\<lparr> RecentForkHashes := gm_put number forkHash (RecentForkHashes snap) \<rparr>))"

definition updateIntervals :: "u64 \<Rightarrow> ChainConfig \<Rightarrow> Header \<Rightarrow> Snapshot \<Rightarrow> Snapshot" where
  "updateIntervals defaultEpochLength chainConfig header snap =
     (let snap = (if IsFermi chainConfig (Number header) (Time header) then snap\<lparr> BlockInterval := fermiBlockInterval \<rparr>
                  else if IsMaxwell chainConfig (Number header) (Time header) then snap\<lparr> BlockInterval := maxwellBlockInterval \<rparr>
                  else if IsLorentz chainConfig (Number header) (Time header) then snap\<lparr> BlockInterval := lorentzBlockInterval \<rparr>
                  else snap);
          nextBlockNumber = numOf header + 1;
          snap = (if EpochLength snap = defaultEpochLength \<and> IsLorentz chainConfig (Number header) (Time header)
                     \<and> nextBlockNumber mod lorentzEpochLength = 0
                  then snap\<lparr> EpochLength := lorentzEpochLength \<rparr> else snap)
      in if EpochLength snap = lorentzEpochLength \<and> IsMaxwell chainConfig (Number header) (Time header)
            \<and> nextBlockNumber mod maxwellEpochLength = 0
         then snap\<lparr> EpochLength := maxwellEpochLength \<rparr> else snap)"

definition newValidatorMap ::
  "bool \<Rightarrow> address list \<Rightarrow> blskey list \<Rightarrow> (address, ValidatorInfo) gomap result" where
  "newValidatorMap isLuban newValArr voteAddrs =
     (if \<not> isLuban
      then Inr (fold (\<lambda>val m. gm_put val \<lparr> Index = 0, InfoVoteAddress = 0 \<rparr> m) newValArr [])
      else if length voteAddrs < length newValArr then Inl Panic
      else Inr (fold (\<lambda>(val, k) m. gm_put val \<lparr> Index = 0, InfoVoteAddress = k \<rparr> m) (zip newValArr voteAddrs) []))"

definition switchRecents :: "bool \<Rightarrow> u64 \<Rightarrow> u64 \<Rightarrow> (address, ValidatorInfo) gomap \<Rightarrow> Snapshot \<Rightarrow> Snapshot" where
  "switchRecents isBohr number epochKey newVals snap =
     (if isBohr then snap\<lparr> Recents := [(epochKey, 0)] \<rparr>
      else
        (let oldLimit = length (Validators snap) div 2 + 1; newLimit = length newVals div 2 + 1 in
         snap\<lparr> Recents := fold (\<lambda>i m. gm_del (number - of_nat newLimit - of_nat i) m)
           [0 ..< oldLimit - newLimit] (Recents snap) \<rparr>))"

definition installValidators ::
  "bool \<Rightarrow> bool \<Rightarrow> u64 \<Rightarrow> u64 \<Rightarrow> u8 option \<Rightarrow> (address, ValidatorInfo) gomap \<Rightarrow> Snapshot \<Rightarrow> Snapshot" where
  "installValidators isBohr isLuban number epochKey turnLength newVals snap0 =
     (let oldVersionsLen = versionHistoryCheckLen snap0;
          snap = (case turnLength of None \<Rightarrow> snap0 | Some t \<Rightarrow> snap0\<lparr> TurnLength := t \<rparr>);
          snap = (switchRecents isBohr number epochKey newVals snap)\<lparr> Validators := newVals \<rparr>;
          snap = (if isLuban then snap\<lparr> Validators := setIndexes (validators snap) (Validators snap) \<rparr> else snap)
      in snap\<lparr> RecentForkHashes := fold (\<lambda>i m. gm_del (number - of_nat i) m)
           [unat (versionHistoryCheckLen snap) ..< unat oldVersionsLen] (RecentForkHashes snap) \<rparr>)"

text \<open>The change of the validator set, with the epoch length from before this header.\<close>

definition switchValidators ::
  "crypto \<Rightarrow> ChainConfig \<Rightarrow> chain_reader \<Rightarrow> Header list \<Rightarrow> Header \<Rightarrow> u64 \<Rightarrow> Snapshot \<Rightarrow> Snapshot result" where
  "switchValidators C chainConfig chain parents header epochLength snap =
     (let number = numOf header;
          isBohr = IsBohr chainConfig (Number header) (Time header);
          isLuban = IsLuban chainConfig (Number header);
          epochKey = (- 1) - number div epochLength in
      if isBohr \<and> gm_get (Recents snap) epochKey \<noteq> None then Inr snap
      else (case FindAncientHeader C header (minerHistoryCheckLen snap) chain parents of
          None \<Rightarrow> Inl ErrUnknownAncestor
        | Some checkpointHeader \<Rightarrow>
            bindE (parseTurnLength checkpointHeader chainConfig epochLength) (\<lambda>turnLength.
            bindE (parseValidators checkpointHeader chainConfig epochLength) (\<lambda>(newValArr, voteAddrs).
            bindE (newValidatorMap isLuban newValArr voteAddrs) (\<lambda>newVals.
            Inr (installValidators isBohr isLuban number epochKey turnLength newVals snap))))))"

definition applyHeader ::
  "crypto \<Rightarrow> u64 \<Rightarrow> ChainConfig \<Rightarrow> chain_reader \<Rightarrow> Header list \<Rightarrow> Header \<Rightarrow> Snapshot \<Rightarrow>
   (sigCache, parlia_error, Snapshot) act" where
  "applyHeader C defaultEpochLength chainConfig chain parents header snap =
     (let number = numOf header; snap = dropOldHistory number snap in
      bindA (ecrecover C header (ChainID chainConfig)) (\<lambda>validator.
      liftA (bindE (checkSigner chainConfig header validator snap) (\<lambda>_.
        bindE (updateAttestation header chainConfig snap) (\<lambda>snap.
        bindE (recordSigner chainConfig header validator snap) (\<lambda>snap.
        let epochLength = EpochLength snap;
            snap = updateIntervals defaultEpochLength chainConfig header snap in
        if number > 0 then
          bindE (modC number epochLength) (\<lambda>r.
            if r = minerHistoryCheckLen snap
            then switchValidators C chainConfig chain parents header epochLength snap
            else Inr snap)
        else Inr snap))))))"

fun contiguous :: "crypto \<Rightarrow> Header list \<Rightarrow> unit result" where
  "contiguous C (h # h' # hs) =
     (if numOf h' \<noteq> numOf h + 1 then Inl errOutOfRangeChain
      else if ParentHash h' \<noteq> Hash C h then Inl errBlockHashInconsistent
      else contiguous C (h' # hs))"
| "contiguous C hs = Inr ()"

text \<open>\<open>apply\<close> first sets \<open>IsSnake8Fork\<close> of its receiver; the returned snapshot carries the flag.\<close>

definition apply_snap ::
  "crypto \<Rightarrow> u64 \<Rightarrow> ChainConfig \<Rightarrow> chain_reader \<Rightarrow> Header list \<Rightarrow> bool \<Rightarrow> Header list \<Rightarrow> Snapshot \<Rightarrow>
   (sigCache, parlia_error, Snapshot) act" where
  "apply_snap C defaultEpochLength chainConfig chain parents isSnake8Fork headers s0 =
     (let s = s0\<lparr> IsSnake8Fork := isSnake8Fork \<rparr> in
      if headers = [] then retA s
      else bindA (liftA (contiguous C headers)) (\<lambda>_.
        if numOf (hd headers) \<noteq> sNumber s + 1 then liftA (Inl errOutOfRangeChain)
        else if ParentHash (hd headers) \<noteq> sHash s then liftA (Inl errBlockHashInconsistent)
        else bindA (foldA (applyHeader C defaultEpochLength chainConfig chain parents) headers (copy s)) (\<lambda>snap.
          retA (snap\<lparr> sNumber := sNumber snap + of_nat (length headers), sHash := Hash C (last headers) \<rparr>))))"

section \<open>Turns\<close>

definition lastBlockInOneTurn :: "Snapshot \<Rightarrow> u64 \<Rightarrow> bool result" where
  "lastBlockInOneTurn s blockNumber = bindE (modC (blockNumber + 1) (ucast (TurnLength s))) (\<lambda>r. Inr (r = 0))"

definition selectValidatorRoundRobin :: "Snapshot \<Rightarrow> address result" where
  "selectValidatorRoundRobin s =
     bindE (divC (sNumber s + 1) (ucast (TurnLength s))) (\<lambda>q.
     bindE (modC q (of_nat (length (validators s)))) (\<lambda>offset.
       Inr (validators s ! unat offset)))"

definition candidatesType :: rtype where
  "candidatesType = TSlice (TStruct [TArray 20, TBigInt] 2)"

type_synonym candidate = "address \<times> int"

definition candidateVal :: "candidate \<Rightarrow> rval" where
  "candidateVal c = VStruct [VArray (addrBytes (fst c)), VBigInt (Some (snd c))]"

definition valCandidate :: "rval \<Rightarrow> candidate" where
  "valCandidate v = (case v of VStruct [VArray a, VBigInt (Some f)] \<Rightarrow> (BytesToAddress a, f) | _ \<Rightarrow> (0, 0))"

definition decodeCandidates :: "bytes \<Rightarrow> rlp_error + candidate list" where
  "decodeCandidates b = bindE (DecodeBytes candidatesType b) (\<lambda>v. case v of
     VSlice vs \<Rightarrow> Inr (map valCandidate vs) | _ \<Rightarrow> Inl IllTyped)"

text \<open>The first candidate whose cumulative frequency exceeds the target, else the last one.\<close>

fun pickCandidate :: "candidate list \<Rightarrow> int \<Rightarrow> int \<Rightarrow> address" where
  "pickCandidate [] cumulative target = 0"
| "pickCandidate [c] cumulative target = fst c"
| "pickCandidate (c # c' # cs) cumulative target =
     (if target < cumulative + snd c then fst c else pickCandidate (c' # cs) (cumulative + snd c) target)"

definition selectionTarget :: "crypto \<Rightarrow> Snapshot \<Rightarrow> int" where
  "selectionTarget C s = uint (sha256 C (le_bytes 8 (unat (sNumber s + 1)))) mod validatorFrequencyPrecision"

text \<open>\<open>sort.Slice\<close> by address: unique when the addresses are distinct.\<close>

definition selectValidatorFromFrequencyRLP :: "crypto \<Rightarrow> Snapshot \<Rightarrow> bytes \<Rightarrow> address result" where
  "selectValidatorFromFrequencyRLP C s freqRLP =
     (case decodeCandidates freqRLP of
        Inl _ \<Rightarrow> selectValidatorRoundRobin s
      | Inr candidates \<Rightarrow>
          if candidates = [] then selectValidatorRoundRobin s
          else Inr (pickCandidate (sort_key fst candidates) 0 (selectionTarget C s)))"

definition inturnValidator :: "crypto \<Rightarrow> Snapshot \<Rightarrow> address result" where
  "inturnValidator C s =
     (if sNumber s = 0 \<or> \<not> IsSnake8Fork s then selectValidatorRoundRobin s
      else if FrequencyRLP s = [] then selectValidatorRoundRobin s
      else selectValidatorFromFrequencyRLP C s (FrequencyRLP s))"

definition inturn :: "crypto \<Rightarrow> Snapshot \<Rightarrow> address \<Rightarrow> bool result" where
  "inturn C s validator = bindE (inturnValidator C s) (\<lambda>a. Inr (a = validator))"

definition nexValidatorsChangeBlock :: "Snapshot \<Rightarrow> u64 result" where
  "nexValidatorsChangeBlock s =
     bindE (modC (sNumber s) (EpochLength s)) (\<lambda>r.
       let currentEpoch = sNumber s - r; checkLen = minerHistoryCheckLen s in
       if r < checkLen then Inr (currentEpoch + checkLen)
       else Inr (currentEpoch + EpochLength s + checkLen))"

text \<open>The index of the first occurrence, from \<open>i\<close> on.\<close>

fun indexFrom :: "nat \<Rightarrow> 'a list \<Rightarrow> 'a \<Rightarrow> nat option" where
  "indexFrom i [] a = None"
| "indexFrom i (x # xs) a = (if x = a then Some i else indexFrom (i + 1) xs a)"

text \<open>\<open>None\<close> is the result -1.\<close>

definition indexOfVal :: "Snapshot \<Rightarrow> address \<Rightarrow> nat option" where
  "indexOfVal s validator =
     (case gm_get (Validators s) validator of
        Some info \<Rightarrow> if Index info > 0 then Some (Index info - 1) else indexFrom 0 (validators s) validator
      | None \<Rightarrow> indexFrom 0 (validators s) validator)"

definition nextProposalBlock :: "Snapshot \<Rightarrow> address \<Rightarrow> (u64 \<times> u64) result" where
  "nextProposalBlock s proposer =
     (let n = length (validators s); t = ucast (TurnLength s) :: u64 in
      bindE (divC (sNumber s) t) (\<lambda>q.
      bindE (modC q (of_nat n)) (\<lambda>cur.
        case indexOfVal s proposer of
          None \<Rightarrow> Inl (ErrMsg ''proposer not in validator set'')
        | Some expectIndex \<Rightarrow>
            (let startBlock = sNumber s + of_nat (((expectIndex + n - unat cur) mod n) * unat (TurnLength s));
                 startBlock = startBlock - startBlock mod t;
                 endBlock = startBlock + t - 1 in
             bindE (nexValidatorsChangeBlock s) (\<lambda>changeValidatorsBlock.
               if startBlock \<ge> changeValidatorsBlock then Inl (ErrMsg ''next proposal block is out of current epoch'')
               else if endBlock \<ge> changeValidatorsBlock then Inr (startBlock, changeValidatorsBlock)
               else Inr (startBlock, endBlock))))))"

text \<open>Go's \<open>%\<close> on signed integers takes the sign of the dividend.\<close>

definition goRem :: "int \<Rightarrow> int \<Rightarrow> int" where
  "goRem a b = sgn a * (\<bar>a\<bar> mod \<bar>b\<bar>)"

definition enoughDistance :: "Snapshot \<Rightarrow> address \<Rightarrow> Header \<Rightarrow> bool" where
  "enoughDistance s validator header =
     (case indexOfVal s validator of
        None \<Rightarrow> True
      | Some idx \<Rightarrow>
          (let validatorNum = int (length (validators s)) in
           if validatorNum = 1 then True
           else if validator = Coinbase header then False
           else if IsSnake8Fork s then \<not> SignRecently s validator
           else
             (let offset = goRem (sint (sNumber s + 1)) validatorNum in
              if int idx \<ge> offset then int idx - offset \<ge> validatorNum - 2
              else validatorNum + int idx - offset \<ge> validatorNum - 2)))"

definition CalcDifficulty :: "crypto \<Rightarrow> Snapshot \<Rightarrow> address \<Rightarrow> int result" where
  "CalcDifficulty C snap signer =
     bindE (inturn C snap signer) (\<lambda>b. Inr (if b then diffInTurn else diffNoTurn))"

end
