(* ===== verification/Recents.thy ===== *)
theory Recents
  imports Snapshot
begin

text \<open>
  The recent-signer bookkeeping of the snapshot. \<open>snapWF\<close> is the representation invariant of the maps.
  \<open>recentsInv n s\<close> says what \<open>Recents\<close> holds after block \<open>n\<close>: signers of blocks in the current window only, and
  none of them more often than the turn length. Every header that \<open>apply\<close> accepts after the Bohr fork keeps it.
\<close>

section \<open>Well-formed snapshots\<close>

definition snapWF :: "Snapshot \<Rightarrow> bool" where
  "snapWF s \<longleftrightarrow> gm_wf (Validators s) \<and> gm_wf (Recents s) \<and> gm_wf (RecentForkHashes s)"

lemma gm_wf_fold:
  assumes "gm_wf m" "\<And>x m. gm_wf m \<Longrightarrow> gm_wf (f x m)"
  shows "gm_wf (fold f xs m)"
  using assms by (induction xs arbitrary: m) auto

lemma gm_wf_setIndexes: "gm_wf m \<Longrightarrow> gm_wf (setIndexes vs m)"
  unfolding setIndexes_def by (rule gm_wf_fold) (auto split: option.splits)

lemma keys_setIndexes: "map fst (setIndexes vs m) = map fst m"
proof -
  have keep: "map fst (gm_put v x m) = map fst m" if "gm_get m v \<noteq> None" for v x and m :: "(address, ValidatorInfo) gomap"
    using that by (induction m) auto
  have "map fst (fold (\<lambda>(idx, v) m. case gm_get m v of
       None \<Rightarrow> m | Some info \<Rightarrow> gm_put v (info\<lparr> Index := idx + 1 \<rparr>) m) ivs m) = map fst m" for ivs
    by (induction ivs arbitrary: m) (auto simp: keep split: option.splits)
  then show ?thesis by (simp add: setIndexes_def)
qed

lemma length_setIndexes [simp]: "length (setIndexes vs m) = length m"
  using keys_setIndexes [of vs m] by (metis length_map)

section \<open>What the steps of a header change\<close>

lemma dropOldHistory_fields [simp]:
  "Validators (dropOldHistory n s) = Validators s" "TurnLength (dropOldHistory n s) = TurnLength s"
  "sNumber (dropOldHistory n s) = sNumber s" "EpochLength (dropOldHistory n s) = EpochLength s"
  "Recents (dropOldHistory n s) =
    (if n \<ge> minerHistoryCheckLen s + 1 then gm_del (n - (minerHistoryCheckLen s + 1)) (Recents s) else Recents s)"
  by (simp_all add: dropOldHistory_def Let_def)

lemma dropOldHistory_WF: "snapWF s \<Longrightarrow> snapWF (dropOldHistory n s)"
  by (auto simp: snapWF_def dropOldHistory_def Let_def)

lemma minerHistoryCheckLen_cong:
  "length (Validators s') = length (Validators s) \<Longrightarrow> TurnLength s' = TurnLength s \<Longrightarrow>
    minerHistoryCheckLen s' = minerHistoryCheckLen s"
  by (simp add: minerHistoryCheckLen_def)

lemma updateAttestation_fields:
  assumes "updateAttestation h cfg s = Inr s'"
  shows "Validators s' = Validators s" "TurnLength s' = TurnLength s" "sNumber s' = sNumber s"
    "Recents s' = Recents s" "RecentForkHashes s' = RecentForkHashes s" "EpochLength s' = EpochLength s"
proof -
  have "\<exists>a. s' = s\<lparr> Attestation := a \<rparr>"
    using assms by (auto simp: updateAttestation_def split: if_splits sum.splits option.splits parlia_error.splits
      intro: exI [of _ "Attestation s"])
  then show "Validators s' = Validators s" "TurnLength s' = TurnLength s" "sNumber s' = sNumber s"
    "Recents s' = Recents s" "RecentForkHashes s' = RecentForkHashes s" "EpochLength s' = EpochLength s" by auto
qed

lemma recordSigner_fields:
  assumes "recordSigner cfg h v s = Inr s'"
  shows "Validators s' = Validators s" "TurnLength s' = TurnLength s" "sNumber s' = sNumber s"
    "Recents s' = filter (if IsMaxwell cfg (Number h) (Time h) then \<lambda>(b, _). \<not> b \<le> getFinalizedNumber s else (\<lambda>_. True))
      (gm_put (numOf h) v (Recents s))"
    "gm_wf (RecentForkHashes s) \<Longrightarrow> gm_wf (RecentForkHashes s')"
  using assms by (auto simp: recordSigner_def Let_def getFinalizedNumber_def split: if_splits option.splits)

lemma updateIntervals_fields [simp]:
  "Validators (updateIntervals d cfg h s) = Validators s" "TurnLength (updateIntervals d cfg h s) = TurnLength s"
  "sNumber (updateIntervals d cfg h s) = sNumber s" "Recents (updateIntervals d cfg h s) = Recents s"
  "RecentForkHashes (updateIntervals d cfg h s) = RecentForkHashes s"
  by (simp_all add: updateIntervals_def Let_def)

lemma gm_wf_newValidatorMap: "newValidatorMap l vs ks = Inr m \<Longrightarrow> gm_wf m"
  by (auto simp: newValidatorMap_def split: if_splits intro!: gm_wf_fold)

lemma switchRecents_fields [simp]:
  "Validators (switchRecents b n k m s) = Validators s" "TurnLength (switchRecents b n k m s) = TurnLength s"
  "sNumber (switchRecents b n k m s) = sNumber s" "RecentForkHashes (switchRecents b n k m s) = RecentForkHashes s"
  by (simp_all add: switchRecents_def Let_def)

lemma installValidators_fields:
  "Recents (installValidators b l n k t m s) = Recents (switchRecents b n k m s)"
  "sNumber (installValidators b l n k t m s) = sNumber s"
  "length (Validators (installValidators b l n k t m s)) = length m"
  "gm_wf m \<Longrightarrow> gm_wf (Validators (installValidators b l n k t m s))"
  "gm_wf (RecentForkHashes s) \<Longrightarrow> gm_wf (RecentForkHashes (installValidators b l n k t m s))"
  by (cases t; auto simp: installValidators_def switchRecents_def Let_def gm_wf_setIndexes intro!: gm_wf_fold)+

lemma switchValidators_cases:
  assumes "switchValidators C cfg chain parents h e s = Inr s'"
  obtains (same) "s' = s"
  | (switch) t newVals vs ks where "gm_wf newVals"
      "s' = installValidators (IsBohr cfg (Number h) (Time h)) (IsLuban cfg (Number h)) (numOf h)
        (- 1 - numOf h div e) t newVals s"
      "newValidatorMap (IsLuban cfg (Number h)) vs ks = Inr newVals"
proof -
  have "s' = s \<or> (\<exists>t newVals vs ks. newValidatorMap (IsLuban cfg (Number h)) vs ks = Inr newVals \<and>
      s' = installValidators (IsBohr cfg (Number h) (Time h)) (IsLuban cfg (Number h)) (numOf h)
        (- 1 - numOf h div e) t newVals s)"
    using assms unfolding switchValidators_def Let_def
    by (simp add: bindE_eq_Inr split: option.splits if_splits) blast+
  with same switch show ?thesis by (blast dest: gm_wf_newValidatorMap)
qed

lemma applyHeader_Inr:
  assumes "applyHeader C d cfg chain parents h s c = (Inr s', c')"
  obtains v s1 s2 where "ecrecover C h (ChainID cfg) c = (Inr v, c')"
    "checkSigner cfg h v (dropOldHistory (numOf h) s) = Inr ()"
    "updateAttestation h cfg (dropOldHistory (numOf h) s) = Inr s1"
    "recordSigner cfg h v s1 = Inr s2"
    "s' = updateIntervals d cfg h s2 \<or>
     switchValidators C cfg chain parents h (EpochLength s2) (updateIntervals d cfg h s2) = Inr s'"
proof -
  let ?fin = "\<lambda>s2. if numOf h > 0 then
      bindE (modC (numOf h) (EpochLength s2)) (\<lambda>r.
        if r = minerHistoryCheckLen (updateIntervals d cfg h s2)
        then switchValidators C cfg chain parents h (EpochLength s2) (updateIntervals d cfg h s2)
        else Inr (updateIntervals d cfg h s2))
    else Inr (updateIntervals d cfg h s2)"
  from assms obtain v where v: "ecrecover C h (ChainID cfg) c = (Inr v, c')"
    and rest: "bindE (checkSigner cfg h v (dropOldHistory (numOf h) s)) (\<lambda>_.
      bindE (updateAttestation h cfg (dropOldHistory (numOf h) s)) (\<lambda>s1.
      bindE (recordSigner cfg h v s1) ?fin)) = Inr s'"
    by (auto simp: applyHeader_def Let_def bindA_eq_Inr)
  from rest obtain s1 s2 where s1: "checkSigner cfg h v (dropOldHistory (numOf h) s) = Inr ()"
    "updateAttestation h cfg (dropOldHistory (numOf h) s) = Inr s1" "recordSigner cfg h v s1 = Inr s2"
    and fin: "?fin s2 = Inr s'"
    by (simp only: bindE_unit_eq_Inr bindE_eq_Inr) blast
  from fin have "s' = updateIntervals d cfg h s2 \<or>
     switchValidators C cfg chain parents h (EpochLength s2) (updateIntervals d cfg h s2) = Inr s'"
    by (auto simp: bindE_eq_Inr split: if_splits)
  with v s1 show ?thesis by (rule that)
qed

lemma applyHeader_sNumber: "applyHeader C d cfg chain parents h s c = (Inr s', c') \<Longrightarrow> sNumber s' = sNumber s"
  by (erule applyHeader_Inr)
    (auto simp: updateAttestation_fields recordSigner_fields installValidators_fields elim!: switchValidators_cases)

lemma switchRecents_wf: "gm_wf (Recents s) \<Longrightarrow> gm_wf (Recents (switchRecents b n k m s))"
  by (auto simp: switchRecents_def Let_def gm_wf_def [of "[(k, 0)]"] intro!: gm_wf_fold)

lemma switchValidators_WF:
  "switchValidators C cfg chain parents h e s = Inr s' \<Longrightarrow> snapWF s \<Longrightarrow> snapWF s'"
  by (erule switchValidators_cases) (auto simp: snapWF_def installValidators_fields switchRecents_wf)

lemma applyHeader_WF:
  assumes "applyHeader C d cfg chain parents h s c = (Inr s', c')" "snapWF s"
  shows "snapWF s'"
  using assms(1)
proof (rule applyHeader_Inr)
  fix v s1 s2
  let ?s0 = "dropOldHistory (numOf h) s"
  assume u: "updateAttestation h cfg ?s0 = Inr s1" and r: "recordSigner cfg h v s1 = Inr s2"
    and s': "s' = updateIntervals d cfg h s2 \<or>
     switchValidators C cfg chain parents h (EpochLength s2) (updateIntervals d cfg h s2) = Inr s'"
  have "snapWF ?s0" using assms(2) by (rule dropOldHistory_WF)
  with u have "snapWF s1" by (simp add: snapWF_def updateAttestation_fields)
  with r have "snapWF s2" by (simp add: snapWF_def recordSigner_fields)
  then have "snapWF (updateIntervals d cfg h s2)" by (simp add: snapWF_def)
  with s' show "snapWF s'" by (auto dest: switchValidators_WF)
qed

section \<open>Counting recent signers\<close>

definition signCount :: "address \<Rightarrow> (u64, address) gomap \<Rightarrow> nat" where
  "signCount a m = length (filter (\<lambda>(k, r). r = a) m)"

definition leftHistoryBound :: "Snapshot \<Rightarrow> u64" where
  "leftHistoryBound s = (if sNumber s > minerHistoryCheckLen s then sNumber s - minerHistoryCheckLen s else 0)"

lemma count_fold:
  assumes "a \<noteq> 0"
  shows "gm_get (fold (\<lambda>(seen, recent) counts. if seen \<le> b \<or> recent = 0 then counts
      else gm_put recent ((case gm_get counts recent of None \<Rightarrow> 0 | Some c \<Rightarrow> c) + 1) counts) rs acc) a =
    (let c = signCount a (filter (\<lambda>(k, _). b < k) rs) in
     if c = 0 then gm_get acc a else Some ((case gm_get acc a of None \<Rightarrow> 0 | Some x \<Rightarrow> x) + of_nat c))"
proof (induction rs arbitrary: acc)
  case (Cons kr rs)
  then show ?case
    using assms by (cases kr) (auto simp: signCount_def Let_def update_conv' not_le add.assoc split: option.splits)
qed (simp add: signCount_def)

lemma countRecents_get:
  assumes "a \<noteq> 0"
  shows "gm_get (countRecents s) a =
    (let c = signCount a (filter (\<lambda>(k, _). leftHistoryBound s < k) (Recents s)) in
     if c = 0 then None else Some (of_nat c))"
  using count_fold [OF assms, of "leftHistoryBound s" "Recents s" "[]"]
  by (simp only: countRecents_def leftHistoryBound_def Let_def map_of.simps option.case add_0)

text \<open>As long as no count exceeds the turn length, the 8-bit counters do not wrap around and
  \<open>SignRecently\<close> compares the true number of signed blocks with the turn length.\<close>

lemma SignRecently_iff:
  assumes "a \<noteq> 0" "TurnLength s \<noteq> 0"
    and "signCount a (filter (\<lambda>(k, _). leftHistoryBound s < k) (Recents s)) \<le> unat (TurnLength s)"
  shows "SignRecently s a \<longleftrightarrow>
    unat (TurnLength s) \<le> signCount a (filter (\<lambda>(k, _). leftHistoryBound s < k) (Recents s))"
proof -
  let ?c = "signCount a (filter (\<lambda>(k, _). leftHistoryBound s < k) (Recents s))"
  have "unat (of_nat ?c :: u8) = ?c"
    using assms(3) unat_u8_less [of "TurnLength s"] by (intro unat_of_nat_small) simp
  moreover have "0 < unat (TurnLength s)" using assms(2) by (simp add: unat_gt_0)
  ultimately show ?thesis
    by (auto simp: SignRecently_def signRecentlyByCounts_def countRecents_get [OF assms(1)] Let_def word_le_nat_alt)
qed

lemma signCount_put: "signCount a (gm_put k v m) \<le> signCount a m + (if v = a then 1 else 0)"
  by (induction m) (auto simp: signCount_def)

lemma signCount_filter: "signCount a (filter P m) \<le> signCount a m"
  by (induction m) (auto simp: signCount_def)

lemma signCount_filter_le: "signCount a m \<le> t \<Longrightarrow> signCount a (filter P m) \<le> t"
  using signCount_filter [of a P m] by linarith

lemma signCount_del: "signCount a (gm_del k m) \<le> signCount a m"
  by (simp add: AList.delete_eq signCount_filter)

section \<open>The window invariant\<close>

definition window :: "Snapshot \<Rightarrow> nat" where
  "window s = (length (Validators s) div 2 + 1) * unat (TurnLength s)"

definition sane :: "Snapshot \<Rightarrow> bool" where
  "sane s \<longleftrightarrow> TurnLength s \<noteq> 0 \<and> length (Validators s) < 2 ^ 32"

lemma sane_window_fields [simp]:
  "sane (updateIntervals d cfg h s) = sane s" "window (updateIntervals d cfg h s) = window s"
  "sane (dropOldHistory n s) = sane s" "window (dropOldHistory n s) = window s"
  "sane (s\<lparr> sNumber := m \<rparr>) = sane s" "window (s\<lparr> sNumber := m \<rparr>) = window s"
  by (simp_all add: sane_def window_def)

lemma minerHistoryCheckLen_window:
  assumes "sane s"
  shows "unat (minerHistoryCheckLen s + 1) = window s" "unat (minerHistoryCheckLen s) = window s - 1" "0 < window s"
    "window s < 2 ^ 64"
proof -
  have "unat (of_nat (length (Validators s)) :: u64) = length (Validators s)"
    using assms by (intro unat_of_nat_u64) (simp add: sane_def)
  then have "unat (of_nat (length (Validators s)) div 2 :: u64) = length (Validators s) div 2"
    by (simp add: unat_div)
  moreover from this assms have "unat (of_nat (length (Validators s)) div 2 :: u64) + unat (1 :: u64) < 2 ^ LENGTH(64)"
    using div_le_dividend [of "length (Validators s)" 2] by (simp add: sane_def del: div_le_dividend)
  ultimately have n: "unat (of_nat (length (Validators s)) div 2 + 1 :: u64) = length (Validators s) div 2 + 1"
    using unat_plus_if_lt [of "of_nat (length (Validators s)) div 2 :: u64" 1] by simp
  have "window s \<le> (2 ^ 31 + 1) * 255"
    unfolding window_def using assms unat_u8_less [of "TurnLength s"] by (intro mult_mono) (auto simp: sane_def)
  then show lt: "window s < 2 ^ 64" by simp
  then have *: "unat ((of_nat (length (Validators s)) div 2 + 1) * ucast (TurnLength s) :: u64) = window s"
    by (simp add: window_def unat_mult_if_lt n)
  then show "unat (minerHistoryCheckLen s + 1) = window s" by (simp add: minerHistoryCheckLen_def)
  show pos: "0 < window s" using assms by (auto simp: window_def sane_def unat_eq_zero)
  with * show "unat (minerHistoryCheckLen s) = window s - 1"
    unfolding minerHistoryCheckLen_def by (subst unat_minus_if_le) (simp_all add: word_le_nat_alt)
qed

definition inWindow :: "nat \<Rightarrow> nat \<Rightarrow> (u64, address) gomap \<Rightarrow> bool" where
  "inWindow w n m \<longleftrightarrow> (\<forall>(k, a) \<in> set m. a \<noteq> 0 \<longrightarrow> 0 < unat k \<and> unat k \<le> n \<and> n < unat k + w)"

definition recentsInv :: "nat \<Rightarrow> Snapshot \<Rightarrow> bool" where
  "recentsInv n s \<longleftrightarrow> snapWF s \<and> length (Validators s) < 2 ^ 32 \<and>
     (sane s \<longrightarrow> inWindow (window s) n (Recents s) \<and> (\<forall>a. a \<noteq> 0 \<longrightarrow> signCount a (Recents s) \<le> unat (TurnLength s)))"

lemma inWindow_filter: "inWindow w n m \<Longrightarrow> inWindow w n (filter P m)"
  by (auto simp: inWindow_def)

lemma inWindow_put:
  "inWindow w n m \<Longrightarrow> gm_wf m \<Longrightarrow> unat k = n \<Longrightarrow> 0 < n \<Longrightarrow> 0 < w \<Longrightarrow> inWindow w n (gm_put k v m)"
  by (induction m) (auto simp: inWindow_def gm_wf_def)

text \<open>Dropping the oldest entry moves the window on by one block.\<close>

lemma inWindow_dropOldHistory:
  assumes "sane s" "inWindow (window s) n (Recents s)" "unat number = n + 1"
  shows "inWindow (window s) (n + 1) (Recents (dropOldHistory number s))"
proof -
  note w = minerHistoryCheckLen_window [OF assms(1)]
  show ?thesis
  proof (cases "window s \<le> n + 1")
    case True
    then have le: "minerHistoryCheckLen s + 1 \<le> number" using w(1) assms(3) by (simp add: word_le_nat_alt)
    then have key: "unat (number - (minerHistoryCheckLen s + 1)) = n + 1 - window s"
      using w(1) assms(3) by (simp add: unat_minus_if_le)
    have "0 < unat k \<and> unat k \<le> n + 1 \<and> n + 1 < unat k + window s"
      if "(k, a) \<in> set (gm_del (number - (minerHistoryCheckLen s + 1)) (Recents s))" "a \<noteq> 0" for k a
    proof -
      from that(1) have k: "(k, a) \<in> set (Recents s)" "k \<noteq> number - (minerHistoryCheckLen s + 1)"
        by (auto simp: AList.delete_eq)
      then have "unat k \<noteq> n + 1 - window s" using key by (metis word_unat_eq_iff)
      with k(1) assms(2) that(2) True show ?thesis by (force simp: inWindow_def)
    qed
    with le show ?thesis by (auto simp: inWindow_def)
  next
    case False
    then have "\<not> minerHistoryCheckLen s + 1 \<le> number" using w(1) assms(3) by (simp add: word_le_nat_alt)
    with assms(2) False show ?thesis by (fastforce simp: inWindow_def)
  qed
qed

text \<open>Inside the window the stale block number of a batch makes no difference: every entry counts.\<close>

lemma inWindow_all_counted:
  assumes "sane s" "inWindow (window s) (n + 1) m" "unat (sNumber s) \<le> n"
  shows "a \<noteq> 0 \<Longrightarrow> signCount a (filter (\<lambda>(k, _). leftHistoryBound s < k) m) = signCount a m"
proof -
  assume a: "a \<noteq> 0"
  note w = minerHistoryCheckLen_window [OF assms(1)]
  have "leftHistoryBound s < k" if "(k, a) \<in> set m" for k
  proof -
    have k: "0 < unat k" "n + 1 < unat k + window s" using assms(2) that a by (auto simp: inWindow_def)
    show ?thesis
    proof (cases "sNumber s > minerHistoryCheckLen s")
      case True
      then have "unat (sNumber s - minerHistoryCheckLen s) = unat (sNumber s) - (window s - 1)"
        using w(2) by (simp add: unat_minus_if_le)
      with True k w(3) assms(3) show ?thesis by (simp add: leftHistoryBound_def word_less_nat_alt)
    qed (use k in \<open>simp add: leftHistoryBound_def word_less_nat_alt\<close>)
  qed
  then have "filter (\<lambda>(k, r). r = a) (filter (\<lambda>(k, _). leftHistoryBound s < k) m) = filter (\<lambda>(k, r). r = a) m"
    by (auto intro!: filter_cong)
  then show ?thesis by (simp add: signCount_def)
qed

text \<open>After Luban a parsed validator set has at most 255 entries: their number is one byte.\<close>

lemma length_fold_put: "length (fold (\<lambda>(k, x) m. gm_put k (f x) m) kvs m) \<le> length kvs + length m"
proof (induction kvs arbitrary: m)
  case (Cons kx kvs)
  have "length (gm_put (fst kx) (f (snd kx)) m) \<le> Suc (length m)" by (simp add: length_gm_put)
  with Cons.IH [of "gm_put (fst kx) (f (snd kx)) m"] show ?case by (simp add: case_prod_beta)
qed simp

lemma getValidatorBytes_length:
  "IsLuban cfg (Number h) \<Longrightarrow> getValidatorBytesFromHeader h cfg e = Inr b \<Longrightarrow> length b \<le> 255 * 68"
  using unat_u8_less [of "Extra h ! extraVanity"]
  by (auto simp: getValidatorBytesFromHeader_def Let_def bindE_eq_Inr slice_def split: if_splits)

lemma parseValidators_length:
  assumes "parseValidators h cfg e = Inr (vs, ks)" "ks \<noteq> []"
  shows "length vs \<le> 255"
proof -
  from assms obtain b where b: "getValidatorBytesFromHeader h cfg e = Inr b" "IsLuban cfg (Number h)"
    "length vs = length b div 68"
    by (auto simp: parseValidators_def Let_def bindE_eq_Inr split: if_splits)
  from getValidatorBytes_length [OF b(2,1)] b(3) show ?thesis by simp
qed

lemma switchValidators_length:
  assumes "switchValidators C cfg chain parents h e s = Inr s'" "IsLuban cfg (Number h)" "length (Validators s) < 2 ^ 32"
  shows "length (Validators s') < 2 ^ 32"
proof -
  have "s' = s \<or> (\<exists>newVals h' vs ks. parseValidators h' cfg e = Inr (vs, ks) \<and> newValidatorMap True vs ks = Inr newVals
      \<and> length (Validators s') = length newVals)"
    using assms(1,2) unfolding switchValidators_def Let_def
    by (simp add: bindE_eq_Inr split: option.splits if_splits) (metis installValidators_fields(3))+
  then show ?thesis
  proof (elim disjE exE conjE)
    fix newVals h' vs ks
    assume p: "parseValidators h' cfg e = Inr (vs, ks)" and m: "newValidatorMap True vs ks = Inr newVals"
      and l: "length (Validators s') = length newVals"
    from m have "length newVals \<le> length vs" "length vs \<le> length ks"
      using length_fold_put [of "\<lambda>k. \<lparr> Index = 0, InfoVoteAddress = k \<rparr>" "zip vs ks" "[]"]
      by (auto simp: newValidatorMap_def split: if_splits)
    moreover have "length vs \<le> 255" using parseValidators_length [OF p] \<open>length vs \<le> length ks\<close> by (cases "ks = []") auto
    ultimately show ?thesis using l by simp
  qed (use assms(3) in simp)
qed

text \<open>Recording an accepted signer keeps the window and the bound.\<close>

lemma record_in_window:
  assumes inv: "recentsInv n s" and sane: "sane s" and n: "unat (sNumber s) \<le> n" "unat (numOf h) = n + 1"
    and bohr: "IsBohr cfg (Number h) (Time h)"
    and chk: "checkSigner cfg h v (dropOldHistory (numOf h) s) = Inr ()"
  defines "m \<equiv> gm_put (numOf h) v (Recents (dropOldHistory (numOf h) s))"
  shows "inWindow (window s) (n + 1) m" "\<And>a. a \<noteq> 0 \<Longrightarrow> signCount a m \<le> unat (TurnLength s)"
proof -
  let ?s0 = "dropOldHistory (numOf h) s"
  have "signCount a (Recents ?s0) \<le> signCount a (Recents s)" for a by (simp add: signCount_del)
  then have bound: "signCount a (Recents ?s0) \<le> unat (TurnLength s)" if "a \<noteq> 0" for a
    using inv sane that by (meson order.trans recentsInv_def)
  have win: "inWindow (window s) (n + 1) (Recents ?s0)"
    using inWindow_dropOldHistory [OF sane _ n(2)] inv sane by (simp add: recentsInv_def)
  show "inWindow (window s) (n + 1) m"
    unfolding m_def
    using win dropOldHistory_WF [of s "numOf h"] inv n(2) minerHistoryCheckLen_window(3) [OF sane]
    by (intro inWindow_put) (auto simp: recentsInv_def snapWF_def)
  have "signCount v (Recents ?s0) < unat (TurnLength s)" if "v \<noteq> 0"
    using chk bohr SignRecently_iff [of v ?s0] inWindow_all_counted [of ?s0 n "Recents ?s0" v] bound [OF that] win
      that sane n(1)
    by (auto simp: checkSigner_def sane_def window_def split: if_splits)
  then show "signCount a m \<le> unat (TurnLength s)" if "a \<noteq> 0" for a
    using signCount_put [of a "numOf h" v "Recents ?s0"] bound [OF that] that
    by (auto simp: m_def split: if_splits)
qed

lemma recentsInv_step:
  assumes inv: "recentsInv n s" and n: "unat (sNumber s) \<le> n" "unat (numOf h) = n + 1"
    and bohr: "IsBohr cfg (Number h) (Time h)" and luban: "IsLuban cfg (Number h)"
    and step: "applyHeader C d cfg chain parents h s c = (Inr s', c')"
  shows "recentsInv (n + 1) s'"
proof -
  let ?s0 = "dropOldHistory (numOf h) s"
  from step obtain v s1 s2 where chk: "checkSigner cfg h v ?s0 = Inr ()"
    and u: "updateAttestation h cfg ?s0 = Inr s1" and r: "recordSigner cfg h v s1 = Inr s2"
    and s': "s' = updateIntervals d cfg h s2 \<or>
     switchValidators C cfg chain parents h (EpochLength s2) (updateIntervals d cfg h s2) = Inr s'"
    by (rule applyHeader_Inr)
  have eq: "Validators s2 = Validators s" "TurnLength s2 = TurnLength s"
    using recordSigner_fields(1,2) [OF r] updateAttestation_fields(1,2) [OF u] by simp_all
  then have eq': "sane s2 = sane s" "window s2 = window s" by (simp_all add: sane_def window_def)
  have wf: "snapWF s'" "length (Validators s') < 2 ^ 32"
    using step inv s' switchValidators_length [OF _ luban] eq(1) by (auto simp: recentsInv_def dest: applyHeader_WF)
  from recordSigner_fields(4) [OF r] updateAttestation_fields(4) [OF u]
  obtain P where P: "Recents s2 = filter P (gm_put (numOf h) v (Recents ?s0))" by simp
  have kept: "recentsInv (n + 1) s'" if "s' = updateIntervals d cfg h s2"
    using record_in_window [OF inv _ n bohr chk] wf eq(2) eq'
    by (auto simp: recentsInv_def that P intro: inWindow_filter signCount_filter_le)
  from s' show ?thesis
  proof
    assume "switchValidators C cfg chain parents h (EpochLength s2) (updateIntervals d cfg h s2) = Inr s'"
    then show ?thesis
    proof (cases rule: switchValidators_cases)
      case (switch t newVals vs ks)
      with bohr have "Recents s' = [(- 1 - numOf h div EpochLength s2, 0)]"
        by (simp add: installValidators_fields switchRecents_def)
      with wf show ?thesis by (simp add: recentsInv_def inWindow_def signCount_def)
    qed (rule kept)
  qed (rule kept)
qed

section \<open>Whole batches\<close>

lemma contiguous_tl: "contiguous C (h # hs) = Inr () \<Longrightarrow> contiguous C hs = Inr ()"
  by (cases hs) (auto split: if_splits)

lemma contiguous_next: "contiguous C (h # h' # hs) = Inr () \<Longrightarrow> numOf h' = numOf h + 1 \<and> ParentHash h' = Hash C h"
  by (auto split: if_splits)

lemma contiguous_next_unat:
  assumes "contiguous C (h # hs) = Inr ()" "hs \<noteq> []" "unat (numOf h) + 1 < 2 ^ 64"
  shows "unat (numOf (hd hs)) = unat (numOf h) + 1"
proof -
  from assms(2) obtain h' hs' where hs: "hs = h' # hs'" by (cases hs) auto
  then have "numOf h' = numOf h + 1" using assms(1) contiguous_next by blast
  moreover have "unat (numOf h) + unat (1 :: u64) < 2 ^ LENGTH(64)" using assms(3) by simp
  ultimately show ?thesis using unat_plus_if_lt [of "numOf h" 1] hs by simp
qed

text \<open>Batches of headers for which Luban and Bohr are active.\<close>

definition afterBohr :: "ChainConfig \<Rightarrow> Header list \<Rightarrow> bool" where
  "afterBohr cfg hs \<longleftrightarrow> (\<forall>h \<in> set hs. IsLuban cfg (Number h) \<and> IsBohr cfg (Number h) (Time h))"

lemma recentsInv_fold:
  assumes "recentsInv n s" "unat (sNumber s) \<le> n" "n + length hs < 2 ^ 64" "afterBohr cfg hs"
    and "contiguous C hs = Inr ()" "hs \<noteq> [] \<Longrightarrow> unat (numOf (hd hs)) = n + 1"
    and "foldA (applyHeader C d cfg chain parents) hs s c = (Inr s', c')"
  shows "recentsInv (n + length hs) s' \<and> sNumber s' = sNumber s"
  using assms
proof (induction hs arbitrary: n s c)
  case (Cons h hs)
  from Cons.prems(7) obtain s1 c1 where step: "applyHeader C d cfg chain parents h s c = (Inr s1, c1)"
    and rest: "foldA (applyHeader C d cfg chain parents) hs s1 c1 = (Inr s', c')"
    by (auto simp: bindA_eq_Inr)
  have n: "unat (numOf h) = n + 1" using Cons.prems(6) by simp
  have inv: "recentsInv (n + 1) s1"
    using recentsInv_step [OF Cons.prems(1,2) n _ _ step] Cons.prems(4) by (simp add: afterBohr_def)
  have num: "sNumber s1 = sNumber s" using step by (rule applyHeader_sNumber)
  have "recentsInv (n + 1 + length hs) s' \<and> sNumber s' = sNumber s1"
  proof (rule Cons.IH [OF inv _ _ _ _ _ rest])
    show "unat (numOf (hd hs)) = n + 1 + 1" if "hs \<noteq> []"
      using contiguous_next_unat [of C h hs] Cons.prems(3,5) n that by (cases hs) simp_all
  qed (use Cons.prems num contiguous_tl [OF Cons.prems(5)] in \<open>auto simp: afterBohr_def\<close>)
  with num show ?case by simp
qed simp

lemma apply_snap_Inr:
  assumes "apply_snap C d cfg chain parents b hs s c = (Inr s', c')" "hs \<noteq> []"
  obtains s1 where "contiguous C hs = Inr ()" "numOf (hd hs) = sNumber s + 1" "ParentHash (hd hs) = sHash s"
    "foldA (applyHeader C d cfg chain parents) hs (copy (s\<lparr> IsSnake8Fork := b \<rparr>)) c = (Inr s1, c')"
    "s' = s1\<lparr> sNumber := sNumber s1 + of_nat (length hs), sHash := Hash C (last hs) \<rparr>"
  using assms
  by (auto simp: apply_snap_def Let_def bindA_eq_Inr split: if_splits)

lemma recentsInv_cong:
  "Validators s' = Validators s \<Longrightarrow> Recents s' = Recents s \<Longrightarrow> RecentForkHashes s' = RecentForkHashes s \<Longrightarrow>
    TurnLength s' = TurnLength s \<Longrightarrow> recentsInv n s' = recentsInv n s"
  by (simp add: recentsInv_def snapWF_def sane_def window_def)

lemma recentsInv_apply:
  assumes "recentsInv (unat (sNumber s)) s" "unat (sNumber s) + length hs < 2 ^ 64" "afterBohr cfg hs"
    and "apply_snap C d cfg chain parents b hs s c = (Inr s', c')"
  shows "recentsInv (unat (sNumber s')) s' \<and> unat (sNumber s') = unat (sNumber s) + length hs"
proof (cases "hs = []")
  case True
  with assms(1,4) recentsInv_cong [of "s\<lparr> IsSnake8Fork := b \<rparr>" s] show ?thesis by (simp add: apply_snap_def)
next
  case False
  from apply_snap_Inr [OF assms(4) False] obtain s1 where hs: "contiguous C hs = Inr ()" "numOf (hd hs) = sNumber s + 1"
    and f: "foldA (applyHeader C d cfg chain parents) hs (copy (s\<lparr> IsSnake8Fork := b \<rparr>)) c = (Inr s1, c')"
    and s': "s' = s1\<lparr> sNumber := sNumber s1 + of_nat (length hs), sHash := Hash C (last hs) \<rparr>" by blast
  let ?s0 = "copy (s\<lparr> IsSnake8Fork := b \<rparr>)" and ?n = "unat (sNumber s)"
  have "recentsInv ?n ?s0" using assms(1) recentsInv_cong [of ?s0 s] by (simp add: copy_def)
  moreover have "unat (numOf (hd hs)) = ?n + 1"
    using False assms(2) unat_plus_if_lt [of "sNumber s" 1] hs(2) by (cases hs) simp_all
  ultimately have 1: "recentsInv (?n + length hs) s1" "sNumber s1 = sNumber s"
    using recentsInv_fold [of ?n ?s0 hs cfg C d chain parents c s1 c'] hs(1) f assms(2,3) by (simp_all add: copy_def)
  have "unat (of_nat (length hs) :: u64) = length hs" using assms(2) by (intro unat_of_nat_u64) simp
  then have "unat (sNumber s') = ?n + length hs"
    using assms(2) 1(2) unat_plus_if_lt [of "sNumber s" "of_nat (length hs)"] by (simp add: s')
  with 1(1) recentsInv_cong [of s' s1] show ?thesis by (simp add: s')
qed

section \<open>Batch and step-by-step application agree\<close>

lemma countRecents_zero: "gm_get (countRecents s) 0 = None"
proof -
  have "gm_get (fold (\<lambda>(seen, recent) counts. if seen \<le> b \<or> recent = 0 then counts
      else gm_put recent ((case gm_get counts recent of None \<Rightarrow> 0 | Some c \<Rightarrow> c) + 1) counts) rs acc) 0 = gm_get acc 0"
    for b :: u64 and rs :: "(u64, address) gomap" and acc :: "(address, u8) gomap"
    by (induction rs arbitrary: acc) (auto simp: update_conv')
  then show ?thesis by (simp add: countRecents_def Let_def)
qed

lemma countRecents_turn0: "TurnLength s = 0 \<Longrightarrow> leftHistoryBound s = 0"
  by (simp add: leftHistoryBound_def minerHistoryCheckLen_def)

definition renum :: "u64 \<Rightarrow> hash \<Rightarrow> Snapshot \<Rightarrow> Snapshot" where
  "renum m x s = s\<lparr> sNumber := m, sHash := x \<rparr>"

lemma renum_fields [simp]:
  "Validators (renum m x s) = Validators s" "Recents (renum m x s) = Recents s" "TurnLength (renum m x s) = TurnLength s"
  "RecentForkHashes (renum m x s) = RecentForkHashes s" "EpochLength (renum m x s) = EpochLength s"
  "Attestation (renum m x s) = Attestation s" "IsSnake8Fork (renum m x s) = IsSnake8Fork s"
  "sNumber (renum m x s) = m" "sHash (renum m x s) = x" "FrequencyRLP (renum m x s) = FrequencyRLP s"
  "sane (renum m x s) = sane s" "window (renum m x s) = window s"
  by (simp_all add: renum_def sane_def window_def)

text \<open>The block number of the snapshot does not matter for the check of the next header.\<close>

lemma SignRecently_sNumber:
  assumes "length (Validators s) < 2 ^ 32" "sane s \<Longrightarrow> inWindow (window s) (n + 1) (Recents s)"
    and "\<And>a. sane s \<Longrightarrow> a \<noteq> 0 \<Longrightarrow> signCount a (Recents s) \<le> unat (TurnLength s)"
    and "unat (sNumber s) \<le> n" "unat m \<le> n"
  shows "SignRecently (renum m x s) a = SignRecently s a"
proof (cases "a = 0")
  case True
  then show ?thesis by (simp add: SignRecently_def signRecentlyByCounts_def countRecents_zero)
next
  case a: False
  let ?s = "renum m x s"
  show ?thesis
  proof (cases "TurnLength s = 0")
    case True
    then have "leftHistoryBound s = 0" "leftHistoryBound ?s = 0" by (simp_all add: countRecents_turn0)
    then show ?thesis
      by (simp add: SignRecently_def signRecentlyByCounts_def countRecents_get [OF a] Let_def)
  next
    case False
    with assms(1) have sane: "sane s" by (simp add: sane_def)
    note win = assms(2) [OF sane] and bound = assms(3) [OF sane a]
    have "signCount a (filter (\<lambda>(k, _). leftHistoryBound s < k) (Recents s)) = signCount a (Recents s)"
      "signCount a (filter (\<lambda>(k, _). leftHistoryBound ?s < k) (Recents s)) = signCount a (Recents s)"
      using inWindow_all_counted [OF sane win assms(4) a] inWindow_all_counted [of ?s n "Recents s" a] sane win assms(5) a
      by simp_all
    with SignRecently_iff [OF a False] SignRecently_iff [of a ?s] bound a False show ?thesis by simp
  qed
qed

lemma history_renum [simp]:
  "minerHistoryCheckLen (renum m x s) = minerHistoryCheckLen s"
  "versionHistoryCheckLen (renum m x s) = versionHistoryCheckLen s"
  "validators (renum m x s) = validators s" "getFinalizedNumber (renum m x s) = getFinalizedNumber s"
  by (simp_all add: minerHistoryCheckLen_def versionHistoryCheckLen_def validators_def getFinalizedNumber_def)

lemma renum_comm:
  "(renum m x s)\<lparr> Recents := r \<rparr> = renum m x (s\<lparr> Recents := r \<rparr>)"
  "(renum m x s)\<lparr> RecentForkHashes := f \<rparr> = renum m x (s\<lparr> RecentForkHashes := f \<rparr>)"
  "(renum m x s)\<lparr> Attestation := a \<rparr> = renum m x (s\<lparr> Attestation := a \<rparr>)"
  "(renum m x s)\<lparr> TurnLength := t \<rparr> = renum m x (s\<lparr> TurnLength := t \<rparr>)"
  "(renum m x s)\<lparr> Validators := v \<rparr> = renum m x (s\<lparr> Validators := v \<rparr>)"
  "(renum m x s)\<lparr> BlockInterval := b \<rparr> = renum m x (s\<lparr> BlockInterval := b \<rparr>)"
  "(renum m x s)\<lparr> EpochLength := e \<rparr> = renum m x (s\<lparr> EpochLength := e \<rparr>)"
  by (simp_all add: renum_def)

lemma dropOldHistory_renum: "dropOldHistory k (renum m x s) = renum m x (dropOldHistory k s)"
  by (simp add: dropOldHistory_def Let_def renum_comm)

lemma updateIntervals_renum: "updateIntervals d cfg h (renum m x s) = renum m x (updateIntervals d cfg h s)"
  by (simp add: updateIntervals_def Let_def renum_comm)

lemma updateAttestation_renum:
  "updateAttestation h cfg (renum m x s) = map_sum id (renum m x) (updateAttestation h cfg s)"
  by (simp add: updateAttestation_def renum_comm split: sum.split option.split parlia_error.split)

lemma recordSigner_renum:
  "recordSigner cfg h v (renum m x s) = map_sum id (renum m x) (recordSigner cfg h v s)"
  by (simp add: recordSigner_def Let_def renum_comm split: option.split)

lemma installValidators_renum:
  "installValidators b l k e t vs (renum m x s) = renum m x (installValidators b l k e t vs s)"
  by (cases t) (simp_all add: installValidators_def switchRecents_def Let_def renum_comm)

lemma bindE_map_sum:
  "bindE (map_sum id f r) g = bindE r (\<lambda>a. g (f a))"
  "map_sum id f (bindE r' g') = bindE r' (\<lambda>a. map_sum id f (g' a))"
  by (cases r; simp) (cases r'; simp)

lemma switchValidators_renum:
  "switchValidators C cfg chain parents h e (renum m x s) = map_sum id (renum m x) (switchValidators C cfg chain parents h e s)"
  by (auto simp: switchValidators_def Let_def bindE_map_sum installValidators_renum case_prod_unfold split: option.split)

lemma applyHeader_renum:
  assumes "\<And>a. SignRecently (renum m x (dropOldHistory (numOf h) s)) a = SignRecently (dropOldHistory (numOf h) s) a"
  shows "applyHeader C d cfg chain parents h (renum m x s) c =
    map_prod (map_sum id (renum m x)) id (applyHeader C d cfg chain parents h s c)"
proof -
  have chk: "checkSigner cfg h v (renum m x (dropOldHistory (numOf h) s)) = checkSigner cfg h v (dropOldHistory (numOf h) s)" for v
    by (simp add: checkSigner_def assms)
  show ?thesis
    by (auto simp: applyHeader_def Let_def dropOldHistory_renum chk updateAttestation_renum recordSigner_renum
        bindE_map_sum updateIntervals_renum switchValidators_renum bindA_def liftA_def if_distrib [of "map_sum id (renum m x)"]
        split: prod.split sum.split cong: if_cong)
qed

lemma checkSigner_renum:
  assumes inv: "recentsInv n s" and n: "unat (sNumber s) \<le> n" "unat m \<le> n" "unat (numOf h) = n + 1"
  shows "SignRecently (renum m x (dropOldHistory (numOf h) s)) a = SignRecently (dropOldHistory (numOf h) s) a"
proof (rule SignRecently_sNumber)
  let ?s0 = "dropOldHistory (numOf h) s"
  have eq: "sane ?s0 = sane s" "window ?s0 = window s" "TurnLength ?s0 = TurnLength s" by (simp_all add: sane_def window_def)
  show "inWindow (window ?s0) (n + 1) (Recents ?s0)" if "sane ?s0"
    unfolding eq using that inv inWindow_dropOldHistory [OF _ _ n(3), of s] unfolding eq recentsInv_def by blast
  show "signCount b (Recents ?s0) \<le> unat (TurnLength ?s0)" if "sane ?s0" "b \<noteq> 0" for b
  proof -
    have "signCount b (Recents ?s0) \<le> signCount b (Recents s)" by (simp add: signCount_del)
    with that inv show ?thesis unfolding eq recentsInv_def by (meson order.trans)
  qed
qed (use inv n in \<open>simp_all add: recentsInv_def\<close>)

lemma fold_renum:
  assumes "recentsInv n s" "unat (sNumber s) \<le> n" "unat m \<le> n" "n + length hs < 2 ^ 64" "afterBohr cfg hs"
    and "contiguous C hs = Inr ()" "hs \<noteq> [] \<Longrightarrow> unat (numOf (hd hs)) = n + 1"
  shows "foldA (applyHeader C d cfg chain parents) hs (renum m x s) c =
    map_prod (map_sum id (renum m x)) id (foldA (applyHeader C d cfg chain parents) hs s c)"
  using assms
proof (induction hs arbitrary: n s c)
  case (Cons h hs)
  let ?F = "applyHeader C d cfg chain parents"
  have n: "unat (numOf h) = n + 1" using Cons.prems(7) by simp
  have 1: "?F h (renum m x s) c = map_prod (map_sum id (renum m x)) id (?F h s c)"
    using applyHeader_renum checkSigner_renum [OF Cons.prems(1,2,3) n] by blast
  obtain r c1 where step: "?F h s c = (r, c1)" by fastforce
  show ?case
  proof (cases r)
    case (Inr s1)
    have inv: "recentsInv (n + 1) s1"
      using recentsInv_step [OF Cons.prems(1,2) n] step Inr Cons.prems(5) by (auto simp: afterBohr_def)
    have num: "sNumber s1 = sNumber s" using step Inr by (auto dest: applyHeader_sNumber)
    have "unat (numOf (hd hs)) = n + 1 + 1" if "hs \<noteq> []"
      using contiguous_next_unat [of C h hs] Cons.prems(4,6) n that by (cases hs) simp_all
    then have "foldA ?F hs (renum m x s1) c1 = map_prod (map_sum id (renum m x)) id (foldA ?F hs s1 c1)"
      using Cons.prems num contiguous_tl [OF Cons.prems(6)] by (intro Cons.IH [OF inv]) (auto simp: afterBohr_def)
    then show ?thesis using 1 step Inr by (simp add: bindA_def id_def)
  qed (use 1 step in \<open>simp add: bindA_def\<close>)
qed (simp add: retA_def)

lemma contiguous_append:
  assumes "hs1 \<noteq> []" "hs2 \<noteq> []"
  shows "contiguous C (hs1 @ hs2) = Inr () \<longleftrightarrow> contiguous C hs1 = Inr () \<and> contiguous C hs2 = Inr () \<and>
    numOf (hd hs2) = numOf (last hs1) + 1 \<and> ParentHash (hd hs2) = Hash C (last hs1)"
  using assms
proof (induction hs1)
  case (Cons h hs1)
  then show ?case
  proof (cases hs1)
    case Nil
    then show ?thesis using Cons.prems by (cases hs2) auto
  next
    case (Cons h' hs')
    then show ?thesis using Cons.IH Cons.prems
      by (cases "numOf h' = numOf h + 1"; cases "ParentHash h' = Hash C h") simp_all
  qed
qed simp

lemma numOf_last:
  "contiguous C hs = Inr () \<Longrightarrow> hs \<noteq> [] \<Longrightarrow> numOf (last hs) = numOf (hd hs) + of_nat (length hs) - 1"
proof (induction hs)
  case (Cons h hs)
  show ?case
  proof (cases hs)
    case (Cons h' hs')
    then have "numOf h' = numOf h + 1" using Cons.prems(1) contiguous_next by blast
    with Cons Cons.IH [OF contiguous_tl [OF Cons.prems(1)]] show ?thesis by simp
  qed simp
qed simp

text \<open>What the loop of \<^verbatim>\<open>apply\<close> never touches.\<close>

definition static :: "Snapshot \<Rightarrow> bool \<times> bytes \<times> u64 \<times> hash" where
  "static s = (IsSnake8Fork s, FrequencyRLP s, sNumber s, sHash s)"

lemma static_steps [simp]:
  "static (dropOldHistory n s) = static s" "static (updateIntervals d cfg h s) = static s"
  "static (installValidators b l n k t m s) = static s"
  by (cases t; auto simp: static_def dropOldHistory_def updateIntervals_def installValidators_def switchRecents_def Let_def)+

lemma static_updateAttestation: "updateAttestation h cfg s = Inr s' \<Longrightarrow> static s' = static s"
  by (auto simp: static_def updateAttestation_def split: if_splits sum.splits option.splits parlia_error.splits)

lemma static_recordSigner: "recordSigner cfg h v s = Inr s' \<Longrightarrow> static s' = static s"
  by (auto simp: static_def recordSigner_def Let_def split: if_splits option.splits)

lemma static_applyHeader: "applyHeader C d cfg chain parents h s c = (Inr s', c') \<Longrightarrow> static s' = static s"
  by (erule applyHeader_Inr)
    (auto simp: static_updateAttestation static_recordSigner elim!: switchValidators_cases)

lemma static_fold: "foldA (applyHeader C d cfg chain parents) hs s c = (Inr s', c') \<Longrightarrow> static s' = static s"
  by (induction hs arbitrary: s c) (auto simp: bindA_eq_Inr dest: static_applyHeader)

text \<open>One call of \<^verbatim>\<open>apply\<close> as the checks on the batch followed by the loop.\<close>

lemma apply_snap_iff:
  assumes "hs \<noteq> []"
  shows "apply_snap C d cfg chain parents b hs s c = (Inr s', c') \<longleftrightarrow>
    contiguous C hs = Inr () \<and> numOf (hd hs) = sNumber s + 1 \<and> ParentHash (hd hs) = sHash s \<and>
    (\<exists>t. foldA (applyHeader C d cfg chain parents) hs (copy (s\<lparr> IsSnake8Fork := b \<rparr>)) c = (Inr t, c') \<and>
      s' = renum (sNumber s + of_nat (length hs)) (Hash C (last hs)) t)"
  using assms static_fold [of C d cfg chain parents hs "copy (s\<lparr> IsSnake8Fork := b \<rparr>)" c]
  by (auto simp: apply_snap_def Let_def bindA_eq_Inr renum_def static_def copy_def split: if_splits)

lemma renum_renum [simp]: "renum m x (renum m' x' s) = renum m x s"
  by (simp add: renum_def)

lemma map_prod_Inr:
  "map_prod (map_sum id f) id r = (Inr t, c') \<longleftrightarrow> (\<exists>u. r = (Inr u, c') \<and> t = f u)"
  "(Inr t, c') = map_prod (map_sum id f) id r \<longleftrightarrow> (\<exists>u. r = (Inr u, c') \<and> t = f u)"
  by (cases r; cases "fst r"; auto)+

lemma apply_append_aux:
  assumes inv: "recentsInv (unat (sNumber s)) s" and len: "unat (sNumber s) + (length hs1 + length hs2) < 2 ^ 64"
    and bohr: "afterBohr cfg hs1" "afterBohr cfg hs2" and ne: "hs1 \<noteq> []" "hs2 \<noteq> []"
    and one: "apply_snap C d cfg chain parents b hs1 s c = (Inr s1, c1)"
    and loop: "foldA (applyHeader C d cfg chain parents) hs1 (copy (s\<lparr> IsSnake8Fork := b \<rparr>)) c = (Inr t1, c1)"
  shows "apply_snap C d cfg chain parents b hs2 s1 c1 = (Inr s', c') \<longleftrightarrow>
    contiguous C (hs1 @ hs2) = Inr () \<and>
    (\<exists>t. foldA (applyHeader C d cfg chain parents) hs2 t1 c1 = (Inr t, c') \<and>
      s' = renum (sNumber s + of_nat (length (hs1 @ hs2))) (Hash C (last (hs1 @ hs2))) t)"
proof -
  let ?F = "foldA (applyHeader C d cfg chain parents)" and ?m = "sNumber s + of_nat (length hs1)"
  have s1: "s1 = renum ?m (Hash C (last hs1)) t1" and con: "contiguous C hs1 = Inr ()" "numOf (hd hs1) = sNumber s + 1"
    using one loop by (auto simp: apply_snap_iff [OF ne(1)])
  have n: "recentsInv (unat (sNumber s1)) s1" "unat (sNumber s1) = unat (sNumber s) + length hs1"
    using recentsInv_apply [OF inv _ bohr(1) one] len by auto
  have static: "static t1 = (b, [], sNumber s, sHash s)" using static_fold [OF loop] by (simp add: static_def copy_def)
  then have cp: "copy (s1\<lparr> IsSnake8Fork := b \<rparr>) = s1" by (simp add: s1 copy_def renum_def static_def)
  have t1: "t1 = renum (sNumber s) (sHash s) s1" using static by (simp add: s1 renum_def static_def)
  have last: "numOf (last hs1) = ?m" using numOf_last [OF con(1) ne(1)] con(2) by simp
  have eq: "?F hs2 t1 c1 = map_prod (map_sum id (renum (sNumber s) (sHash s))) id (?F hs2 s1 c1)"
    if c2: "contiguous C hs2 = Inr ()" and hd2: "numOf (hd hs2) = ?m + 1"
    unfolding t1
  proof (rule fold_renum [OF n(1)])
    show "unat (numOf (hd hs2)) = unat (sNumber s1) + 1"
      using hd2 unat_plus_if_lt [of ?m 1] n(2) len ne(2) by (cases hs2) (simp_all add: s1)
  qed (use n(2) len bohr(2) c2 in simp_all)
  have con2: "contiguous C (hs1 @ hs2) = Inr () \<longleftrightarrow>
      contiguous C hs2 = Inr () \<and> numOf (hd hs2) = ?m + 1 \<and> ParentHash (hd hs2) = Hash C (last hs1)"
    using contiguous_append [OF ne, of C] con last by simp
  show ?thesis
    unfolding apply_snap_iff [OF ne(2)] con2 cp
    using eq ne(2) by (auto simp: map_prod_Inr s1 add.assoc)
qed

lemma apply_snap_nil:
  assumes "apply_snap C d cfg chain parents b hs s c = (Inr s1, c1)" "hs \<noteq> []"
  shows "apply_snap C d cfg chain parents b [] s1 c1 = (Inr s1, c1)"
proof -
  from assms obtain t where t: "foldA (applyHeader C d cfg chain parents) hs (copy (s\<lparr> IsSnake8Fork := b \<rparr>)) c = (Inr t, c1)"
    and s1: "s1 = renum (sNumber s + of_nat (length hs)) (Hash C (last hs)) t"
    by (auto simp: apply_snap_iff)
  from static_fold [OF t] have "IsSnake8Fork s1 = b" by (simp add: static_def copy_def s1)
  then show ?thesis by (auto simp: apply_snap_def retA_def)
qed

lemma signCount_card:
  assumes "gm_wf m"
  shows "signCount a m = card {k. (k, a) \<in> set m}"
proof -
  have "distinct (map fst (filter (\<lambda>(k, r). r = a) m))" using assms by (simp add: gm_wf_def distinct_map_filter)
  moreover have "{k. (k, a) \<in> set m} = set (map fst (filter (\<lambda>(k, r). r = a) m))" by force
  ultimately show ?thesis by (simp only: distinct_card signCount_def length_map)
qed

text \<open>What is left after dropping the old history is the part of \<open>Recents\<close> in the next window.\<close>

lemma dropOldHistory_members:
  assumes "sane s" "inWindow (window s) n (Recents s)" "unat number = n + 1" "a \<noteq> 0"
  shows "(k, a) \<in> set (Recents (dropOldHistory number s)) \<longleftrightarrow> (k, a) \<in> set (Recents s) \<and> unat number < unat k + window s"
proof
  assume k: "(k, a) \<in> set (Recents (dropOldHistory number s))"
  then have "(k, a) \<in> set (Recents s)" by (auto simp: AList.delete_eq split: if_splits)
  moreover have "unat number < unat k + window s"
    using inWindow_dropOldHistory [OF assms(1-3)] k assms(3,4) by (auto simp: inWindow_def)
  ultimately show "(k, a) \<in> set (Recents s) \<and> unat number < unat k + window s" by simp
next
  assume k: "(k, a) \<in> set (Recents s) \<and> unat number < unat k + window s"
  have "k \<noteq> number - (minerHistoryCheckLen s + 1)" if "minerHistoryCheckLen s + 1 \<le> number"
    using that minerHistoryCheckLen_window(1) [OF assms(1)] k by (auto simp: unat_sub word_le_nat_alt)
  then show "(k, a) \<in> set (Recents (dropOldHistory number s))" using k by (auto simp: AList.delete_eq)
qed

text \<open>One call of \<open>apply\<close> on a batch is two calls on its parts.\<close>

lemma apply_append:
  assumes "recentsInv (unat (sNumber s)) s" "unat (sNumber s) + length (hs1 @ hs2) < 2 ^ 64" "afterBohr cfg (hs1 @ hs2)"
  shows "apply_snap C d cfg chain parents b (hs1 @ hs2) s c = (Inr s', c') \<longleftrightarrow>
    (\<exists>s1 c1. apply_snap C d cfg chain parents b hs1 s c = (Inr s1, c1) \<and>
      apply_snap C d cfg chain parents b hs2 s1 c1 = (Inr s', c'))"
proof (cases "hs1 = [] \<or> hs2 = []")
  case True
  then show ?thesis
  proof
    assume "hs1 = []"
    then show ?thesis by (auto simp: apply_snap_def retA_def)
  next
    assume "hs2 = []"
    then show ?thesis using apply_snap_nil [of C d cfg chain parents b hs1 s c] by (cases "hs1 = []") (auto simp: apply_snap_def retA_def)
  qed
next
  case False
  then have ne: "hs1 \<noteq> []" "hs2 \<noteq> []" by simp_all
  have len: "unat (sNumber s) + (length hs1 + length hs2) < 2 ^ 64" and bohr: "afterBohr cfg hs1" "afterBohr cfg hs2"
    using assms(2,3) by (auto simp: afterBohr_def)
  let ?F = "applyHeader C d cfg chain parents" and ?A = "apply_snap C d cfg chain parents b"
  show ?thesis
  proof
    assume "apply_snap C d cfg chain parents b (hs1 @ hs2) s c = (Inr s', c')"
    with ne obtain t1 c1 t where con: "contiguous C (hs1 @ hs2) = Inr ()" and hd: "numOf (hd hs1) = sNumber s + 1" "ParentHash (hd hs1) = sHash s"
      and loop: "foldA ?F hs1 (copy (s\<lparr> IsSnake8Fork := b \<rparr>)) c = (Inr t1, c1)" "foldA ?F hs2 t1 c1 = (Inr t, c')"
      and s': "s' = renum (sNumber s + of_nat (length (hs1 @ hs2))) (Hash C (last (hs1 @ hs2))) t"
      by (auto simp: apply_snap_iff foldA_append bindA_eq_Inr)
    from ne con hd loop(1) have one: "apply_snap C d cfg chain parents b hs1 s c = 
        (Inr (renum (sNumber s + of_nat (length hs1)) (Hash C (last hs1)) t1), c1)"
      by (auto simp: apply_snap_iff contiguous_append)
    with apply_append_aux [OF assms(1) len bohr ne this loop(1)] con loop(2) s'
    show "\<exists>s1 c1. ?A hs1 s c = (Inr s1, c1) \<and> ?A hs2 s1 c1 = (Inr s', c')" by blast
  next
    assume "\<exists>s1 c1. ?A hs1 s c = (Inr s1, c1) \<and> ?A hs2 s1 c1 = (Inr s', c')"
    then obtain s1 c1 where one: "?A hs1 s c = (Inr s1, c1)" and two: "?A hs2 s1 c1 = (Inr s', c')" by blast
    from one ne obtain t1 where loop: "foldA ?F hs1 (copy (s\<lparr> IsSnake8Fork := b \<rparr>)) c = (Inr t1, c1)"
      and hd: "numOf (hd hs1) = sNumber s + 1" "ParentHash (hd hs1) = sHash s" by (auto simp: apply_snap_iff)
    from apply_append_aux [OF assms(1) len bohr ne one loop] two loop hd ne
    show "?A (hs1 @ hs2) s c = (Inr s', c')" by (auto simp: apply_snap_iff foldA_append bindA_eq_Inr)
  qed
qed

section \<open>A small network\<close>

text \<open>One validator with turn length 2, and headers whose signer is in the signature cache.\<close>

definition toyCrypto :: crypto where
  "toyCrypto = \<lparr> keccak256 = (\<lambda>_. 7), Ecrecover = (\<lambda>_ _. Some []), sha256 = (\<lambda>_. 0), blsPublicKeyOK = (\<lambda>_. True),
     blsSignatureOK = (\<lambda>_. True), blsVerify = (\<lambda>_ _ _. True), FastAggregateVerify = (\<lambda>_ _ _. True),
     AggregateSignatures = (\<lambda>_. 0), MultipleSignaturesOK = (\<lambda>_. True) \<rparr>"

definition emptyChain :: chain_reader where
  "emptyChain = \<lparr> Config = lubanConfig, CurrentHeader = None, GetHeader = (\<lambda>_ _. None), GetHeaderByNumber = (\<lambda>_. None),
     GetHeaderByHash = (\<lambda>_. None), GetVerifiedBlockByHash = (\<lambda>_. None) \<rparr>"

definition toySnap :: Snapshot where
  "toySnap = \<lparr> sNumber = 100, sHash = 7, EpochLength = 200, BlockInterval = 3000, TurnLength = 2,
     Validators = [(7, \<lparr> Index = 1, InfoVoteAddress = 9 \<rparr>)], Recents = [], RecentForkHashes = [], Attestation = None,
     IsSnake8Fork = False, FrequencyRLP = [] \<rparr>"

definition toyHeader :: "int \<Rightarrow> Header" where
  "toyHeader n = exampleHeader\<lparr> ParentHash := 7, Number := Some n, Extra := replicate 97 0 \<rparr>"

definition toyCache :: sigCache where
  "toyCache = \<lparr> lru_cap = 4, items = [(7, 7)] \<rparr>"

lemma toyHash [simp]: "Hash toyCrypto h = 7"
  by (simp add: Hash_def rlpHash_def toyCrypto_def)

lemma toyForks [simp]: "0 < n \<Longrightarrow> IsLuban lubanConfig (Some n)"
    "IsBohr lubanConfig (Some n) t = (0 \<le> n)"
    "IsLorentz lubanConfig x y = False" "IsMaxwell lubanConfig x y = False" "IsFermi lubanConfig x y = False"
    "ParentHash (toyHeader n) = 7" "0 \<le> n \<Longrightarrow> numOf (toyHeader n) = word_of_int n" "Number (toyHeader n) = Some n"
  "length (Extra (toyHeader n)) = 97"
  by (auto simp: toyHeader_def lubanConfig_def zeroChainConfig_def IsLuban_def IsBohr_def IsLondon_def isBlockForked_def
      IsLorentz_def IsMaxwell_def IsFermi_def isTimestampForked_def exampleHeader_def bigUint64_def)

lemma toyExtra [simp]: "sliceC (Extra (toyHeader n)) 28 32 = Some [0, 0, 0, 0]"
    "getVoteAttestationFromHeader (toyHeader n) cfg e = Inr None"
  by (simp_all add: toyHeader_def getVoteAttestationFromHeader_def sliceC_def slice_def eval_nat_numeral)

lemma toyRecover [simp]: "ecrecover toyCrypto h cid toyCache = (Inr 7, toyCache)"
  by (simp add: ecrecover_def toyCache_def Get_def)

lemma toy_step:
  "applyHeader toyCrypto d cfg chain parents h s toyCache =
    (let s = dropOldHistory (numOf h) s in
     bindE (checkSigner cfg h 7 s) (\<lambda>_. bindE (updateAttestation h cfg s) (\<lambda>s. bindE (recordSigner cfg h 7 s) (\<lambda>s.
       if numOf h > 0 then bindE (modC (numOf h) (EpochLength s)) (\<lambda>r.
         if r = minerHistoryCheckLen (updateIntervals d cfg h s)
         then switchValidators toyCrypto cfg chain parents h (EpochLength s) (updateIntervals d cfg h s)
         else Inr (updateIntervals d cfg h s)) else Inr (updateIntervals d cfg h s)))), toyCache)"
  by (simp add: applyHeader_def bindA_def liftA_def Let_def)

lemmas toy_eval = dropOldHistory_def minerHistoryCheckLen_def modC_def
  versionHistoryCheckLen_def checkSigner_def SignRecently_def signRecentlyByCounts_def countRecents_def updateAttestation_def
  recordSigner_def updateIntervals_def nextForkHashSize_def

lemma toy_header1:
  "applyHeader toyCrypto 200 lubanConfig emptyChain [] (toyHeader 101) toySnap toyCache =
    (Inr (toySnap\<lparr> Recents := [(101, 7)], RecentForkHashes := [(101, [0, 0, 0, 0])] \<rparr>), toyCache)"
  by (simp add: toy_step toy_eval toySnap_def)

lemma toy_header2:
  "applyHeader toyCrypto 200 lubanConfig emptyChain [] (toyHeader 102)
     (toySnap\<lparr> Recents := [(101, 7)], RecentForkHashes := [(101, [0, 0, 0, 0])] \<rparr>) toyCache =
    (Inr (toySnap\<lparr> Recents := [(101, 7), (102, 7)], RecentForkHashes := [(101, [0, 0, 0, 0]), (102, [0, 0, 0, 0])] \<rparr>), toyCache)"
  by (simp add: toy_step toy_eval toySnap_def word_le_nat_alt)

definition toySnap2 :: Snapshot where
  "toySnap2 = toySnap\<lparr> sNumber := 102, Recents := [(101, 7), (102, 7)],
     RecentForkHashes := [(101, [0, 0, 0, 0]), (102, [0, 0, 0, 0])] \<rparr>"

lemma toy_apply: "apply_snap toyCrypto 200 lubanConfig emptyChain [] False ([toyHeader 101] @ [toyHeader 102]) toySnap toyCache =
    (Inr toySnap2, toyCache)"
proof -
  have "copy (toySnap\<lparr> IsSnake8Fork := False \<rparr>) = toySnap" by (simp add: toySnap_def copy_def)
  then show ?thesis
    by (subst apply_snap_iff)
      (simp_all add: bindA_eq_Inr toy_header1 toy_header2 retA_def toySnap2_def renum_def, simp_all add: toySnap_def)
qed

lemma toy_inv: "recentsInv (unat (sNumber toySnap)) toySnap" "afterBohr lubanConfig ([toyHeader 101] @ [toyHeader 102])"
  by (simp_all add: toySnap_def recentsInv_def snapWF_def gm_wf_def inWindow_def signCount_def afterBohr_def)

section \<open>Properties\<close>

text \<open>C10. Invariant of the recent signers: if the snapshot holds only signers of blocks in the
  current window, none more often than the turn length, then so does the snapshot after every batch of
  headers that \<open>apply\<close> accepts after the Bohr fork, and its number advances by the length of the batch.\<close>

theorem recents_invariant:
  assumes "recentsInv (unat (sNumber s)) s" "unat (sNumber s) + length hs < 2 ^ 64" "afterBohr cfg hs"
    and "apply_snap C d cfg chain parents b hs s c = (Inr s', c')"
  shows "recentsInv (unat (sNumber s')) s' \<and> unat (sNumber s') = unat (sNumber s) + length hs"
  using assms by (rule recentsInv_apply)

theorem recents_invariant_witness:
  "recentsInv (unat (sNumber toySnap2)) toySnap2 \<and>
    unat (sNumber toySnap2) = unat (sNumber toySnap) + length ([toyHeader 101] @ [toyHeader 102])"
  by (rule recents_invariant [OF toy_inv(1) _ toy_inv(2) toy_apply]) (simp add: toySnap_def)

text \<open>C11. The check of the signer of the next block on every branch: after the Bohr fork a
  signer that is not a validator is refused, a validator that already signed as many blocks of the
  window that ends with this block as the turn length is refused as a recent signer, and every other one is accepted.\<close>

theorem signer_check_exact:
  assumes "recentsInv (unat (sNumber s)) s" "TurnLength s \<noteq> 0" "IsBohr cfg (Number h) (Time h)"
    and "numOf h = sNumber s + 1" "numOf h \<noteq> 0" "v \<noteq> 0"
  shows "checkSigner cfg h v (dropOldHistory (numOf h) s) =
    (if v \<notin> fst ` set (Validators s) then Inl (errUnauthorizedValidator v)
     else if card {k. (k, v) \<in> set (Recents s) \<and> unat (numOf h) < unat k + window s} < unat (TurnLength s) then Inr ()
     else Inl errRecentlySigned)"
proof -
  let ?s0 = "dropOldHistory (numOf h) s" and ?n = "unat (sNumber s)"
  have n: "unat (numOf h) = ?n + 1" using assms(4,5) unatSuc [of "sNumber s"] by (simp add: add.commute)
  have sane: "sane s" "sane ?s0" using assms(1,2) by (simp_all add: recentsInv_def sane_def)
  have win: "inWindow (window s) ?n (Recents s)" and bound: "signCount v (Recents s) \<le> unat (TurnLength s)"
    using assms(1,6) sane(1) by (simp_all add: recentsInv_def)
  have wf: "gm_wf (Recents ?s0)" using assms(1) dropOldHistory_WF unfolding recentsInv_def snapWF_def by blast
  have all: "signCount v (filter (\<lambda>(k, _). leftHistoryBound ?s0 < k) (Recents ?s0)) = signCount v (Recents ?s0)"
    using inWindow_dropOldHistory [OF sane(1) win n] sane(2) assms(6) by (intro inWindow_all_counted [of _ ?n]) simp_all
  have "signCount v (Recents ?s0) \<le> signCount v (Recents s)" by (simp add: signCount_del)
  with bound have "SignRecently ?s0 v \<longleftrightarrow> unat (TurnLength s) \<le> signCount v (Recents ?s0)"
    using SignRecently_iff [OF assms(6), of ?s0] assms(2) unfolding all dropOldHistory_fields(2) by (meson order.trans)
  moreover have "signCount v (Recents ?s0) = card {k. (k, v) \<in> set (Recents s) \<and> unat (numOf h) < unat k + window s}"
    using dropOldHistory_members [OF sane(1) win n assms(6)] by (simp only: signCount_card [OF wf])
  moreover have "gm_get (Validators ?s0) v = None \<longleftrightarrow> v \<notin> fst ` set (Validators s)" by (simp add: map_of_eq_None_iff)
  ultimately show ?thesis using assms(3) by (auto simp: checkSigner_def not_less)
qed

theorem signer_check_exact_witness:
  "checkSigner lubanConfig (toyHeader 103) 7 (dropOldHistory (numOf (toyHeader 103)) toySnap2) =
    (if 7 \<notin> fst ` set (Validators toySnap2) then Inl (errUnauthorizedValidator 7)
     else if card {k. (k, 7) \<in> set (Recents toySnap2) \<and> unat (numOf (toyHeader 103)) < unat k + window toySnap2}
       < unat (TurnLength toySnap2) then Inr ()
     else Inl errRecentlySigned)"
proof (rule signer_check_exact)
  show "recentsInv (unat (sNumber toySnap2)) toySnap2"
    using recentsInv_apply [OF toy_inv(1) _ toy_inv(2) toy_apply] by (auto simp: toySnap_def)
qed (simp_all add: toySnap2_def toySnap_def)

text \<open>C12. Applying a batch of headers in one call of \<^verbatim>\<open>apply\<close> gives the same snapshot
  and signature cache as applying any prefix of it first and the rest on the resulting snapshot,
  although the loop checks recent signers against the block number of the snapshot it started
  from: for batches after the Bohr fork, and a snapshot that satisfies the recent-signer invariant.\<close>

theorem apply_in_batches:
  assumes "recentsInv (unat (sNumber s)) s" "unat (sNumber s) + length (hs1 @ hs2) < 2 ^ 64" "afterBohr cfg (hs1 @ hs2)"
  shows "apply_snap C d cfg chain parents b (hs1 @ hs2) s c = (Inr s', c') \<longleftrightarrow>
    (\<exists>s1 c1. apply_snap C d cfg chain parents b hs1 s c = (Inr s1, c1) \<and>
      apply_snap C d cfg chain parents b hs2 s1 c1 = (Inr s', c'))"
  using assms by (rule apply_append)

theorem apply_in_batches_witness:
  "\<exists>s1 c1. apply_snap toyCrypto 200 lubanConfig emptyChain [] False [toyHeader 101] toySnap toyCache = (Inr s1, c1) \<and>
      apply_snap toyCrypto 200 lubanConfig emptyChain [] False [toyHeader 102] s1 c1 = (Inr toySnap2, toyCache)"
  using apply_in_batches [OF toy_inv(1) _ toy_inv(2), THEN iffD1, OF _ toy_apply] by (simp add: toySnap_def)

end
