(* ===== verification/Turns.thy ===== *)
theory Turns
  imports Recents
begin

text \<open>
  Who proposes when. The round-robin choice is fair: of any \<open>n * T\<close> consecutive blocks every validator is
  in turn for exactly \<open>T\<close>. The window that \<open>nextProposalBlock\<close> announces consists of blocks for which the
  proposer is in turn.
\<close>

section \<open>Counting positions\<close>

lemma div_mod_cycle: "(x div t) mod n = (x mod (n * t)) div (t :: nat)"
  by (cases "t = 0") (simp_all add: mult.commute [of n] mod_mult2_eq)

lemma card_block:
  assumes "0 < t" "i < n"
  shows "card {y. y < n * t \<and> y div t = i} = (t :: nat)"
proof -
  have "{y. y < n * t \<and> y div t = i} = {i * t ..< i * t + t}"
  proof (intro set_eqI iffI)
    fix y assume "y \<in> {i * t ..< i * t + t}"
    then have "y div t = i" by (intro div_nat_eqI) (simp_all add: mult.commute)
    moreover have "y < n * t"
      using \<open>y \<in> {i * t ..< i * t + t}\<close> mult_le_mono1 [of "Suc i" n t] assms(2) by simp
    ultimately show "y \<in> {y. y < n * t \<and> y div t = i}" by simp
  next
    fix y assume "y \<in> {y. y < n * t \<and> y div t = i}"
    then show "y \<in> {i * t ..< i * t + t}"
      using div_mult_mod_eq [of y t] mod_less_divisor [OF assms(1), of y] by auto
  qed
  then show ?thesis by simp
qed

lemma card_cycle:
  fixes m w :: nat
  assumes "0 < w"
  shows "card {k. k < w \<and> P ((m + k) mod w)} = card {y. y < w \<and> P y}"
proof (rule bij_betw_same_card [of "\<lambda>k. (m + k) mod w"])
  have eq: "k = k'" if "k < w" "k' < w" "(m + k) mod w = (m + k') mod w" "k \<le> k'" for k k'
    using that mod_eq_dvd_iff_nat [of "m + k" "m + k'" w] by (auto dest!: dvd_imp_le)
  have inj: "inj_on (\<lambda>k. (m + k) mod w) {..<w}"
    by (rule inj_onI) (use eq in \<open>metis lessThan_iff nat_le_linear\<close>)
  have "(\<lambda>k. (m + k) mod w) ` {..<w} = {..<w}"
    using inj assms by (intro endo_inj_surj) auto
  then show "bij_betw (\<lambda>k. (m + k) mod w) {k. k < w \<and> P ((m + k) mod w)} {y. y < w \<and> P y}"
    using inj assms by (auto simp: bij_betw_def image_iff set_eq_iff intro: inj_on_subset) (metis lessThan_iff)
qed

lemma card_turns:
  assumes "0 < t" "i < n"
  shows "card {k. k < n * t \<and> ((m + k) div t) mod n = i} = (t :: nat)"
  using assms card_cycle [of "n * t" "\<lambda>y. y div t = i" m] card_block [OF assms]
  by (simp add: div_mod_cycle)

section \<open>Round robin\<close>

lemma length_validators [simp]: "length (validators s) = length (Validators s)"
  by (simp add: validators_def)

lemma set_validators [simp]: "set (validators s) = fst ` set (Validators s)"
  by (simp add: validators_def)

lemma distinct_validators: "snapWF s \<Longrightarrow> distinct (validators s)"
  by (simp add: validators_def snapWF_def gm_wf_def)

lemma validators_upd [simp]: "validators (s\<lparr> sNumber := m \<rparr>) = validators s"
  by (simp add: validators_def)

lemma ucast_u8_zero [simp]: "(ucast (x :: u8) :: u64) = 0 \<longleftrightarrow> x = 0"
  by (metis unat_ucast_u8_u64 unsigned_0 unat_eq_zero)

text \<open>The validator in turn for block \<open>b\<close> by round robin, on unbounded numbers.\<close>

definition turnOf :: "Snapshot \<Rightarrow> nat \<Rightarrow> address" where
  "turnOf s b = validators s ! ((b div unat (TurnLength s)) mod length (Validators s))"

lemma unat_validators: "length (Validators s) < 2 ^ 32 \<Longrightarrow> unat (of_nat (length (Validators s)) :: u64) = length (Validators s)"
  by (intro unat_of_nat_u64) simp

lemma selectValidatorRoundRobin_eq:
  assumes "TurnLength s \<noteq> 0" "Validators s \<noteq> []" "length (Validators s) < 2 ^ 32"
  shows "selectValidatorRoundRobin s = Inr (turnOf s (unat (sNumber s + 1)))"
proof -
  have t: "(ucast (TurnLength s) :: u64) \<noteq> 0" using assms(1) by simp
  have "unat (of_nat (length (Validators s)) :: u64) \<noteq> 0" using unat_validators [OF assms(3)] assms(2) by simp
  then have n: "(of_nat (length (Validators s)) :: u64) \<noteq> 0" by (metis unat_0)
  show ?thesis
    using t n unat_validators [OF assms(3)]
    by (simp add: selectValidatorRoundRobin_def turnOf_def unat_mod unat_div unat_ucast_u8_u64)
qed

text \<open>C18. Round robin is fair: over any run of as many consecutive blocks as there are validators
  times the turn length, every validator is in turn for exactly the turn length of them.\<close>

theorem round_robin_fair:
  assumes "snapWF s" "TurnLength s \<noteq> 0" "length (Validators s) < 2 ^ 32" "v \<in> fst ` set (Validators s)"
    and "unat m + length (Validators s) * unat (TurnLength s) < 2 ^ 64"
  shows "card {k. k < length (Validators s) * unat (TurnLength s) \<and>
      selectValidatorRoundRobin (s\<lparr> sNumber := m + of_nat k \<rparr>) = Inr v} = unat (TurnLength s)"
proof -
  let ?n = "length (Validators s)" and ?t = "unat (TurnLength s)"
  have ne: "Validators s \<noteq> []" using assms(4) by auto
  have t: "0 < ?t" using assms(2) by (simp add: unat_gt_0)
  obtain i where i: "i < ?n" "validators s ! i = v"
    using assms(4) by (metis in_set_conv_nth length_validators set_validators)
  have num: "unat (m + of_nat k + 1) = unat m + 1 + k" if "k < ?n * ?t" for k
  proof -
    have "m + of_nat k + 1 = of_nat (unat m + 1 + k)" by simp
    then show ?thesis using that assms(5) by (simp only: unat_of_nat_u64)
  qed
  have "selectValidatorRoundRobin (s\<lparr> sNumber := m + of_nat k \<rparr>) = Inr v \<longleftrightarrow> ((unat m + 1 + k) div ?t) mod ?n = i"
    if "k < ?n * ?t" for k
  proof -
    let ?j = "((unat m + 1 + k) div ?t) mod ?n"
    have "?j < ?n" using ne by (intro mod_less_divisor) simp
    then have "validators s ! ?j = v \<longleftrightarrow> ?j = i"
      using nth_eq_iff_index_eq [OF distinct_validators [OF assms(1)], of ?j i] i by simp
    then show ?thesis
      using selectValidatorRoundRobin_eq [of "s\<lparr> sNumber := m + of_nat k \<rparr>"] assms(2,3) ne num [OF that]
      by (simp add: turnOf_def)
  qed
  then have "{k. k < ?n * ?t \<and> selectValidatorRoundRobin (s\<lparr> sNumber := m + of_nat k \<rparr>) = Inr v} =
      {k. k < ?n * ?t \<and> ((unat m + 1 + k) div ?t) mod ?n = i}" by blast
  then show ?thesis using card_turns [OF t i(1), of "unat m + 1"] by simp
qed

theorem round_robin_fair_witness:
  "card {k. k < length (Validators toySnap) * unat (TurnLength toySnap) \<and>
      selectValidatorRoundRobin (toySnap\<lparr> sNumber := 100 + of_nat k \<rparr>) = Inr 7} = unat (TurnLength toySnap)"
  by (rule round_robin_fair) (simp_all add: snapWF_def gm_wf_def toySnap_def)

section \<open>The next change of the validator set\<close>

lemma least_congruent:
  fixes N e l :: nat
  assumes "l < e"
  shows "(LEAST b. N < b \<and> b mod e = l) = (if N mod e < l then N - N mod e + l else N - N mod e + e + l)" (is "_ = ?b")
proof (rule Least_equality)
  have N: "N = N div e * e + N mod e" by simp
  have b: "?b = (if N mod e < l then N div e * e + l else (N div e + 1) * e + l)"
    by (simp add: minus_mod_eq_div_mult)
  have r: "N mod e < e" using assms by simp
  have "N < ?b" unfolding b using N r by (simp only: add_mult_distrib split: if_split) linarith
  moreover have "?b mod e = l" unfolding b using assms mod_mult_self3 [of _ e l] by (auto simp del: add_mult_distrib mult_Suc)
  ultimately show "N < ?b \<and> ?b mod e = l" by simp
  show "?b \<le> c" if c: "N < c \<and> c mod e = l" for c
  proof -
    have c': "c = c div e * e + l" using c by (metis div_mult_mod_eq)
    have "N div e \<le> c div e" using c by (simp add: div_le_mono)
    moreover have "N div e \<noteq> c div e" if "\<not> N mod e < l" using N c c' that by (metis add_le_cancel_left linorder_not_less)
    ultimately have "(if N mod e < l then N div e else N div e + 1) \<le> c div e" by auto
    then have "(if N mod e < l then N div e else N div e + 1) * e \<le> c div e * e" by (rule mult_le_mono1)
    then have "(if N mod e < l then N div e else N div e + 1) * e + l \<le> c" using c' by linarith
    then show ?thesis unfolding b by (simp split: if_splits)
  qed
qed

text \<open>The block that \<open>nexValidatorsChangeBlock\<close> returns is the least one after the snapshot whose remainder modulo the epoch
  length is the length of the miner history.\<close>

lemma next_change_least:
  assumes "EpochLength s \<noteq> 0" "minerHistoryCheckLen s < EpochLength s" "unat (sNumber s) + 2 * unat (EpochLength s) < 2 ^ 64"
  shows "\<exists>b. nexValidatorsChangeBlock s = Inr b \<and>
    unat b = (LEAST b. unat (sNumber s) < b \<and> b mod unat (EpochLength s) = unat (minerHistoryCheckLen s))"
proof -
  let ?N = "unat (sNumber s)" and ?e = "unat (EpochLength s)" and ?l = "unat (minerHistoryCheckLen s)"
  let ?cur = "sNumber s - sNumber s mod EpochLength s"
  have l: "?l < ?e" using assms(2) by (simp add: word_less_nat_alt)
  have cur: "unat ?cur = ?N - ?N mod ?e"
    by (subst unat_minus_if_le) (simp_all add: word_le_nat_alt unat_mod)
  have "unat (?cur + minerHistoryCheckLen s) = ?N - ?N mod ?e + ?l"
    using cur l assms(3) by (subst unat_plus_if_lt) simp_all
  moreover have "unat (?cur + EpochLength s + minerHistoryCheckLen s) = ?N - ?N mod ?e + ?e + ?l"
    using cur l assms(3) unat_plus_if_lt [of ?cur "EpochLength s"] by (subst unat_plus_if_lt) simp_all
  ultimately show ?thesis
    unfolding least_congruent [OF l]
    by (auto simp: nexValidatorsChangeBlock_def modC_pos assms(1) Let_def word_less_nat_alt unat_mod)
qed

section \<open>The announced proposal window\<close>

text \<open>Stored indexes are positions in the sorted list of validators, offset by 1, or 0.\<close>

definition indexOK :: "Snapshot \<Rightarrow> bool" where
  "indexOK s \<longleftrightarrow> (\<forall>(a, i) \<in> set (Validators s).
     Index i = 0 \<or> (Index i \<le> length (Validators s) \<and> validators s ! (Index i - 1) = a))"

lemma indexFrom_iff: "distinct xs \<Longrightarrow> indexFrom k xs a = Some i \<longleftrightarrow> k \<le> i \<and> i < k + length xs \<and> xs ! (i - k) = a"
proof (induction xs arbitrary: k)
  case (Cons x xs)
  then show ?case by (auto simp: nth_Cons' Suc_diff_Suc split: if_splits)
qed simp

lemma indexOfVal_Some:
  assumes "snapWF s" "indexOK s" "indexOfVal s a = Some i"
  shows "i < length (Validators s)" "validators s ! i = a"
proof -
  have "i < length (Validators s) \<and> validators s ! i = a"
  proof (cases "\<exists>info. gm_get (Validators s) a = Some info \<and> 0 < Index info")
    case True
    then obtain info where info: "gm_get (Validators s) a = Some info" "0 < Index info" by blast
    with assms(3) have "i = Index info - 1" by (simp add: indexOfVal_def)
    moreover have "Index info \<le> length (Validators s) \<and> validators s ! (Index info - 1) = a"
      using assms(2) info map_of_SomeD [OF info(1)] by (auto simp: indexOK_def)
    ultimately show ?thesis using info(2) by auto
  next
    case False
    with assms(3) have "indexFrom 0 (validators s) a = Some i" by (auto simp: indexOfVal_def split: option.splits if_splits)
    then show ?thesis using distinct_validators [OF assms(1)] by (simp add: indexFrom_iff)
  qed
  then show "i < length (Validators s)" "validators s ! i = a" by simp_all
qed

text \<open>The arithmetic of the window, on natural numbers.\<close>

lemma window_turn:
  fixes N t n e :: nat
  assumes "0 < t" "e < n"
  defines "start \<equiv> N + ((e + n - (N div t) mod n) mod n) * t"
  assumes "start - start mod t \<le> b" "b < start - start mod t + t"
  shows "(b div t) mod n = e"
proof -
  have "start div t = N div t + (e + n - (N div t) mod n) mod n" using assms(1) by (simp add: start_def)
  moreover have "(N div t + (e + n - (N div t) mod n) mod n) mod n = e"
  proof -
    have lt: "(N div t) mod n < n" using assms(2) by (intro mod_less_divisor) simp
    have "(N div t + (e + n - (N div t) mod n) mod n) mod n = ((N div t) mod n + (e + n - (N div t) mod n)) mod n"
      by (simp add: mod_simps)
    also have "(N div t) mod n + (e + n - (N div t) mod n) = e + n"
      using lt by simp
    finally show ?thesis using assms(2) by simp
  qed
  moreover have "b div t = start div t"
    using assms(4,5) by (intro div_nat_eqI) (simp_all add: minus_mod_eq_mult_div add.commute)
  ultimately show ?thesis by simp
qed

lemma nextProposalBlock_Inr:
  assumes "nextProposalBlock s p = Inr (st, en)" "TurnLength s \<noteq> 0" "Validators s \<noteq> []" "length (Validators s) < 2 ^ 32"
    and "unat (sNumber s) + (length (Validators s) + 1) * unat (TurnLength s) < 2 ^ 64"
  obtains e where "indexOfVal s p = Some e"
    "unat st = (let start = unat (sNumber s) + ((e + length (Validators s) -
        (unat (sNumber s) div unat (TurnLength s)) mod length (Validators s)) mod length (Validators s)) * unat (TurnLength s)
      in start - start mod unat (TurnLength s))"
    "unat en < unat st + unat (TurnLength s)" "st \<le> en"
proof -
  let ?n = "length (Validators s)" and ?t = "ucast (TurnLength s) :: u64" and ?T = "unat (TurnLength s)" and ?N = "unat (sNumber s)"
  have t: "?t \<noteq> 0" "0 < ?T" using assms(2) by (simp_all add: unat_gt_0)
  have un: "unat (of_nat ?n :: u64) = ?n" by (rule unat_validators [OF assms(4)])
  then have n: "(of_nat ?n :: u64) \<noteq> 0" using assms(3) by (metis length_0_conv unsigned_0)
  define cur where "cur = sNumber s div ?t mod of_nat ?n"
  have cur: "unat cur = (?N div ?T) mod ?n" by (simp add: cur_def unat_mod unat_div un)
  obtain e where e: "indexOfVal s p = Some e"
    using assms(1) t(1) n by (auto simp: nextProposalBlock_def Let_def modC_pos divC_pos split: option.splits)
  define k where "k = (e + ?n - unat cur) mod ?n"
  have k: "k < ?n" using assms(3) by (simp add: k_def)
  define st0 where "st0 = sNumber s + of_nat (k * ?T)"
  have st0_alt: "st0 = sNumber s + of_nat k * ?t" by (simp add: st0_def)
  have kT: "?N + k * ?T + ?T < 2 ^ 64"
    using assms(5) mult_le_mono1 [of "k + 1" ?n ?T] k by simp
  have "unat (of_nat (k * ?T) :: u64) = k * ?T" using kT by (intro unat_of_nat_u64) simp
  then have st0: "unat st0 = ?N + k * ?T" unfolding st0_def using kT by (subst unat_plus_if_lt) simp_all
  have st1: "unat (st0 - st0 mod ?t) = unat st0 - unat st0 mod ?T"
    by (subst unat_minus_if_le) (simp_all add: word_le_nat_alt unat_mod)
  have "unat (st0 - st0 mod ?t + ?t) = unat (st0 - st0 mod ?t) + ?T"
    using st0 st1 kT by (subst unat_plus_if_lt) simp_all
  then have en1: "unat (st0 - st0 mod ?t + ?t - 1) = unat (st0 - st0 mod ?t) + ?T - 1"
    using t(2) by (subst unat_minus_if_le) (simp_all add: word_le_nat_alt)
  from assms(1) obtain c where c: "st = st0 - st0 mod ?t" "st < c"
      "en = c \<and> c \<le> st0 - st0 mod ?t + ?t - 1 \<or> en = st0 - st0 mod ?t + ?t - 1"
    using t(1) n e
    by (auto simp: nextProposalBlock_def Let_def modC_pos divC_pos bindE_eq_Inr not_le
        simp flip: cur_def k_def st0_alt split: if_splits)
  have le: "en \<le> st0 - st0 mod ?t + ?t - 1" "st \<le> en"
    using c(2,3) en1 t(2) unfolding c(1) by (auto simp: word_le_nat_alt word_less_nat_alt)
  show ?thesis
  proof (rule that [OF e])
    show "unat en < unat st + ?T" using le(1) en1 t(2) unfolding c(1) word_le_nat_alt by linarith
  qed (use le(2) st0 st1 cur in \<open>simp_all add: c(1) k_def Let_def\<close>)
qed

definition windowSnap :: Snapshot where
  "windowSnap = toySnap\<lparr> sNumber := 102, Validators := [(7, \<lparr> Index = 2, InfoVoteAddress = 9 \<rparr>), (5, \<lparr> Index = 1, InfoVoteAddress = 8 \<rparr>)] \<rparr>"

text \<open>C19. The announced window is right: for every block of the window that \<open>nextProposalBlock\<close>
  returns, the proposer is the validator in turn by round robin, and the window is not empty.\<close>

theorem proposal_window_in_turn:
  assumes "nextProposalBlock s p = Inr (st, en)" "snapWF s" "indexOK s" "TurnLength s \<noteq> 0" "Validators s \<noteq> []"
    and "length (Validators s) < 2 ^ 32" "unat (sNumber s) + (length (Validators s) + 1) * unat (TurnLength s) < 2 ^ 64"
  shows "st \<le> en \<and> (\<forall>b. b + 1 \<in> {st..en} \<longrightarrow> selectValidatorRoundRobin (s\<lparr> sNumber := b \<rparr>) = Inr p)"
proof -
  from nextProposalBlock_Inr [OF assms(1,4,5,6,7)] obtain e where e: "indexOfVal s p = Some e"
    and st: "unat st = (let start = unat (sNumber s) + ((e + length (Validators s) -
        (unat (sNumber s) div unat (TurnLength s)) mod length (Validators s)) mod length (Validators s)) * unat (TurnLength s)
      in start - start mod unat (TurnLength s))"
    and en: "unat en < unat st + unat (TurnLength s)" and le: "st \<le> en" .
  note i = indexOfVal_Some [OF assms(2,3) e]
  have "selectValidatorRoundRobin (s\<lparr> sNumber := b \<rparr>) = Inr p" if "b + 1 \<in> {st..en}" for b
  proof -
    have "(unat (b + 1) div unat (TurnLength s)) mod length (Validators s) = e"
      using that en st i(1) assms(4)
      by (intro window_turn [of _ _ _ "unat (sNumber s)"]) (simp_all add: word_le_nat_alt Let_def unat_gt_0)
    then show ?thesis
      using selectValidatorRoundRobin_eq [of "s\<lparr> sNumber := b \<rparr>"] assms(4-6) i(2) by (simp add: turnOf_def)
  qed
  with le show ?thesis by blast
qed

theorem proposal_window_in_turn_witness:
  "nextProposalBlock windowSnap 5 = Inr (104, 105) \<and>
    selectValidatorRoundRobin (windowSnap\<lparr> sNumber := 103 \<rparr>) = Inr 5 \<and>
    selectValidatorRoundRobin (windowSnap\<lparr> sNumber := 104 \<rparr>) = Inr 5"
proof -
  have n: "nextProposalBlock windowSnap 5 = Inr (104, 105)"
    by (simp add: nextProposalBlock_def windowSnap_def toySnap_def validators_def indexOfVal_def nexValidatorsChangeBlock_def
        minerHistoryCheckLen_def modC_def divC_def)
  have "104 \<le> (105 :: u64) \<and>
    (\<forall>b. b + 1 \<in> {104..105} \<longrightarrow> selectValidatorRoundRobin (windowSnap\<lparr> sNumber := b \<rparr>) = Inr 5)"
    by (rule proposal_window_in_turn [OF n]) (simp_all add: snapWF_def gm_wf_def indexOK_def windowSnap_def toySnap_def validators_def)
  from n conjunct2 [OF this, THEN spec, of 103] conjunct2 [OF this, THEN spec, of 104] show ?thesis by simp
qed

section \<open>The stored indexes\<close>

lemma indexFrom_None: "indexFrom k vs v = None \<longleftrightarrow> v \<notin> set vs"
  by (induction vs arbitrary: k) auto

lemma setIndexes_fold:
  assumes "distinct vs"
  shows "gm_get (fold (\<lambda>(idx, v) m. case gm_get m v of
       None \<Rightarrow> m | Some info \<Rightarrow> gm_put v (info\<lparr> Index := idx + 1 \<rparr>) m) (enumerate k vs) m) a =
    (case indexFrom k vs a of None \<Rightarrow> gm_get m a
     | Some i \<Rightarrow> map_option (\<lambda>info. info\<lparr> Index := i + 1 \<rparr>) (gm_get m a))"
  using assms
proof (induction vs arbitrary: k m)
  case (Cons v vs)
  show ?case
  proof (cases "a = v")
    case True
    then have "indexFrom (k + 1) vs a = None" using Cons.prems by (simp add: indexFrom_None)
    with True Cons show ?thesis by (cases "gm_get m v") (simp_all add: update_conv')
  next
    case False
    with Cons show ?thesis by (cases "gm_get m v") (simp_all add: update_conv' split: option.split)
  qed
qed simp

lemma setIndexes_get:
  assumes "gm_wf m" "vs = sort (map fst m)" "gm_get (setIndexes vs m) a = Some i"
  shows "0 < Index i" "Index i \<le> length m" "vs ! (Index i - 1) = a"
proof -
  have d: "distinct vs" using assms(1,2) by (simp add: gm_wf_def)
  have "a \<in> set vs" using assms(3) map_of_eq_None_iff [of "setIndexes vs m" a] keys_setIndexes [of vs m]
    by (metis assms(2) image_set option.distinct(1) set_sort)
  then obtain j where j: "j < length vs" "vs ! j = a" by (auto simp: in_set_conv_nth)
  then have "indexFrom 0 vs a = Some j" using d by (simp add: indexFrom_iff)
  then have "Index i = j + 1" using assms(3) setIndexes_fold [OF d, of 0 m a] by (auto simp: setIndexes_def)
  with j assms(2) show "0 < Index i" "Index i \<le> length m" "vs ! (Index i - 1) = a" by simp_all
qed

lemma indexOK_setIndexes:
  assumes "gm_wf m" "validators s = sort (map fst m)" "Validators s = setIndexes (sort (map fst m)) m"
  shows "indexOK s"
  unfolding indexOK_def
proof (intro ballI)
  fix x assume x: "x \<in> set (Validators s)"
  obtain a i where ai: "x = (a, i)" by fastforce
  then have "gm_get (setIndexes (sort (map fst m)) m) a = Some i"
    using x gm_wf_setIndexes [OF assms(1)] assms(3) by (simp add: gm_wf_def)
  then show "case x of (a, i) \<Rightarrow> Index i = 0 \<or> Index i \<le> length (Validators s) \<and> validators s ! (Index i - 1) = a"
    using setIndexes_get [OF assms(1) refl] assms(2,3) ai by simp
qed

lemma indexOK_cong: "Validators s' = Validators s \<Longrightarrow> indexOK s' = indexOK s"
  by (simp add: indexOK_def validators_def)

lemma indexOK_zero: "(\<And>a i. (a, i) \<in> set (Validators s) \<Longrightarrow> Index i = 0) \<Longrightarrow> indexOK s"
  by (auto simp: indexOK_def)

lemma put_fold_values:
  assumes "(a, i) \<in> set (fold (\<lambda>x m. gm_put (f x) (g x) m) xs m)" "\<And>x. Index (g x) = 0" "\<And>a i. (a, i) \<in> set m \<Longrightarrow> Index i = 0"
  shows "Index i = 0"
  using assms
proof (induction xs arbitrary: m)
  case (Cons x xs)
  have "Index i = 0" if "(a, i) \<in> set (gm_put (f x) (g x) m)" for a i
    using that Cons.prems(2,3) by (induction m) (auto split: if_splits)
  with Cons show ?case by simp
qed simp

lemma newValidatorMap_values:
  assumes "newValidatorMap l vs ks = Inr m" "(a, i) \<in> set m"
  shows "Index i = 0"
  using assms put_fold_values [of a i "\<lambda>x. x" "\<lambda>_. \<lparr> Index = 0, InfoVoteAddress = 0 \<rparr>" vs "[]"]
    put_fold_values [of a i fst "\<lambda>x. \<lparr> Index = 0, InfoVoteAddress = snd x \<rparr>" "zip vs ks" "[]"]
  by (auto simp: newValidatorMap_def case_prod_unfold split: if_splits)

lemma indexOK_installValidators:
  assumes "gm_wf m" "\<And>a i. (a, i) \<in> set m \<Longrightarrow> Index i = 0"
  shows "indexOK (installValidators b l n k t m s)"
proof (cases l)
  case True
  then show ?thesis
    by (intro indexOK_setIndexes [OF assms(1)])
      (simp_all add: installValidators_def Let_def validators_def keys_setIndexes)
next
  case False
  then show ?thesis using assms(2) by (intro indexOK_zero) (simp add: installValidators_def Let_def)
qed

lemma indexOK_switchValidators:
  assumes "switchValidators C cfg chain parents h e s = Inr s'" "indexOK s"
  shows "indexOK s'"
  using assms(1)
proof (cases rule: switchValidators_cases)
  case (switch t newVals vs ks)
  show ?thesis
    unfolding switch(2) by (rule indexOK_installValidators [OF switch(1)]) (rule newValidatorMap_values [OF switch(3)])
qed (use assms(2) in simp)

lemma indexOK_applyHeader:
  assumes "applyHeader C d cfg chain parents h s c = (Inr s', c')" "indexOK s"
  shows "indexOK s'"
  using assms(1)
proof (rule applyHeader_Inr)
  fix v s1 s2
  assume u: "updateAttestation h cfg (dropOldHistory (numOf h) s) = Inr s1" and r: "recordSigner cfg h v s1 = Inr s2"
    and s': "s' = updateIntervals d cfg h s2 \<or>
      switchValidators C cfg chain parents h (EpochLength s2) (updateIntervals d cfg h s2) = Inr s'"
  have "Validators (updateIntervals d cfg h s2) = Validators s"
    using updateAttestation_fields(1) [OF u] recordSigner_fields(1) [OF r] by simp
  then have keep: "indexOK (updateIntervals d cfg h s2)" using assms(2) indexOK_cong by blast
  from s' show "indexOK s'" using keep indexOK_switchValidators by blast
qed

lemma apply_snap_wf:
  assumes "apply_snap C d cfg chain parents b hs s c = (Inr s', c')" "snapWF s" "indexOK s"
  shows "snapWF s' \<and> indexOK s'"
proof (cases "hs = []")
  case True
  with assms(1) have "s' = s\<lparr> IsSnake8Fork := b \<rparr>" by (simp add: apply_snap_def retA_def)
  with assms(2,3) show ?thesis by (simp add: snapWF_def indexOK_def validators_def)
next
  case False
  let ?s0 = "copy (s\<lparr> IsSnake8Fork := b \<rparr>)" and ?I = "\<lambda>s. snapWF s \<and> indexOK s"
  from assms(1) False obtain t where t: "foldA (applyHeader C d cfg chain parents) hs ?s0 c = (Inr t, c')"
    and s': "s' = renum (sNumber s + of_nat (length hs)) (Hash C (last hs)) t" by (auto simp: apply_snap_iff)
  have "?I ?s0" using assms(2,3) by (simp add: copy_def snapWF_def indexOK_def validators_def)
  then have "?I t" using foldA_invariant [of hs ?I, OF _ _ t] applyHeader_WF indexOK_applyHeader by blast
  then show ?thesis by (simp add: s' snapWF_def indexOK_def validators_def)
qed

lemma newSnapshot_wf: "snapWF (newSnapshot d n x vals keys b) \<and> indexOK (newSnapshot d n x vals keys b)"
proof -
  define infos where "infos = fold (\<lambda>(v, k) m. gm_put v \<lparr> Index = 0, InfoVoteAddress = k \<rparr> m)
    (zip vals (if length keys = length vals then keys else replicate (length vals) 0)) []"
  have wf: "gm_wf infos" unfolding infos_def by (rule gm_wf_fold) auto
  have zero: "Index i = 0" if "(a, i) \<in> set infos" for a i
    using that put_fold_values [of a i fst "\<lambda>x. \<lparr> Index = 0, InfoVoteAddress = snd x \<rparr>" _ "[]"]
    unfolding infos_def case_prod_unfold by simp
  have v: "Validators (newSnapshot d n x vals keys b) =
      (if length keys = length vals then setIndexes (sort (map fst infos)) infos else infos)"
    unfolding newSnapshot_def Let_def infos_def [symmetric] by (simp add: validators_def)
  have "snapWF (newSnapshot d n x vals keys b)"
    using wf gm_wf_setIndexes [OF wf] unfolding snapWF_def v by (simp add: newSnapshot_def Let_def)
  moreover have "indexOK (newSnapshot d n x vals keys b)"
  proof (cases "length keys = length vals")
    case True
    then show ?thesis by (intro indexOK_setIndexes [OF wf]) (simp_all add: v validators_def keys_setIndexes)
  next
    case False
    then show ?thesis by (intro indexOK_zero) (simp add: v zero)
  qed
  ultimately show ?thesis by simp
qed

text \<open>C17. Every snapshot is well-formed: the maps have distinct keys and a stored index is the position
  of the validator in the sorted list. A new snapshot is, and \<open>apply\<close> returns well-formed snapshots only.\<close>

theorem snapshots_well_formed:
  "snapWF (newSnapshot d n x vals keys b) \<and> indexOK (newSnapshot d n x vals keys b) \<and>
   (snapWF s \<and> indexOK s \<and> apply_snap C d cfg chain parents b hs s c = (Inr s', c') \<longrightarrow> snapWF s' \<and> indexOK s')"
  using newSnapshot_wf apply_snap_wf by blast

theorem snapshots_well_formed_witness:
  "snapWF (newSnapshot 200 0 7 [7] [9] False) \<and> indexOK (newSnapshot 200 0 7 [7] [9] False) \<and> snapWF toySnap2 \<and> indexOK toySnap2"
proof -
  have "snapWF toySnap \<and> indexOK toySnap" by (simp add: snapWF_def gm_wf_def indexOK_def toySnap_def validators_def)
  then show ?thesis using snapshots_well_formed toy_apply by metis
qed

end
