(* ===== verification/Timing.thy ===== *)
theory Timing
  imports Turns
begin

text \<open>
  When a block may be produced: the back-off of validators that are not in turn
  (\<open>backOffTime\<close> of \<open>parlia.go\<close>) and the block times of \<open>ramanujanfork.go\<close>. The numbers that
  \<open>math/rand\<close> draws are a parameter: \<open>draw seed n i\<close> is the position drawn for index \<open>i\<close> when a list of
  length \<open>n\<close> is shuffled with this seed; all that is used of it is that the position is at most \<open>i\<close>.
  The clock is the parameter \<open>now\<close>, in milliseconds.
\<close>

section \<open>Constants\<close>

definition wiggleTime :: u64 where "wiggleTime = 1000"
definition defaultInitialBackOffTime :: u64 where "defaultInitialBackOffTime = 1000"
definition lorentzInitialBackOffTime :: u64 where "lorentzInitialBackOffTime = 2000"
definition millisecondsUnit :: nat where "millisecondsUnit = 50"
definition kAncestorGenerationDepth :: nat where "kAncestorGenerationDepth = 3"
definition wiggleTimeBeforeFork :: int where "wiggleTimeBeforeFork = 500000000"
definition fixedBackOffTimeBeforeFork :: int where "fixedBackOffTimeBeforeFork = 200000000"

section \<open>Shuffling\<close>

type_synonym draws = "u64 \<Rightarrow> nat \<Rightarrow> nat \<Rightarrow> nat"

text \<open>\<open>rand.Shuffle\<close> swaps the positions from the last down to the second with a drawn one.\<close>

definition swap :: "nat \<Rightarrow> nat \<Rightarrow> 'a list \<Rightarrow> 'a list" where
  "swap i j xs = xs[i := xs ! j, j := xs ! i]"

fun shuffleFrom :: "(nat \<Rightarrow> nat) \<Rightarrow> nat \<Rightarrow> 'a list \<Rightarrow> 'a list" where
  "shuffleFrom d 0 xs = xs"
| "shuffleFrom d (Suc i) xs = shuffleFrom d i (swap (Suc i) (d (Suc i)) xs)"

definition Shuffle :: "draws \<Rightarrow> u64 \<Rightarrow> 'a list \<Rightarrow> 'a list" where
  "Shuffle draw seed xs = shuffleFrom (draw seed (length xs)) (length xs - 1) xs"

section \<open>Back-off\<close>

text \<open>The index of the last occurrence.\<close>

definition lastIndexOf :: "'a \<Rightarrow> 'a list \<Rightarrow> nat option" where
  "lastIndexOf v xs = fold (\<lambda>(index, a) idx. if v = a then Some index else idx) (enumerate 0 xs) None"

text \<open>The shuffled back-off steps and the time of the validator at \<open>idx\<close>.\<close>

definition backOffAt :: "draws \<Rightarrow> u64 \<Rightarrow> bool \<Rightarrow> u64 \<Rightarrow> nat \<Rightarrow> nat \<Rightarrow> u64" where
  "backOffAt draw randSeed isParentLorentz delay n idx =
     (let step = of_nat (Shuffle draw randSeed [0..<n] ! idx) in
      if delay = 0 \<and> isParentLorentz
      then (if step = 0 then 0 else lorentzInitialBackOffTime + (step - 1) * wiggleTime)
      else delay + step * wiggleTime)"

definition backOffSeed :: "ChainConfig \<Rightarrow> Snapshot \<Rightarrow> Header \<Rightarrow> u64 result" where
  "backOffSeed cfg snap header =
     (if IsBohr cfg (Number header) (Time header) then divC (numOf header) (ucast (TurnLength snap))
      else Inr (sNumber snap))"

definition backOffAmong ::
  "draws \<Rightarrow> ChainConfig \<Rightarrow> Snapshot \<Rightarrow> Header \<Rightarrow> bool \<Rightarrow> u64 \<Rightarrow> address list \<Rightarrow> address \<Rightarrow> u64 result" where
  "backOffAmong draw cfg snap header isParentLorentz delay vals v =
     (case lastIndexOf v vals of
        None \<Rightarrow> Inr 0
      | Some idx \<Rightarrow> bindE (backOffSeed cfg snap header) (\<lambda>randSeed.
          Inr (backOffAt draw randSeed isParentLorentz delay (length vals) idx)))"

text \<open>The validators that are neither recent signers nor, after Bohr, the validator in turn.\<close>

definition backOffCandidates :: "ChainConfig \<Rightarrow> Snapshot \<Rightarrow> Header \<Rightarrow> address \<Rightarrow> address list" where
  "backOffCandidates cfg snap header inTurnAddr =
     filter (\<lambda>a. \<not> signRecentlyByCounts snap a (countRecents snap) \<and>
         \<not> (IsBohr cfg (Number header) (Time header) \<and> a = inTurnAddr)) (validators snap)"

definition backOffTime :: "crypto \<Rightarrow> draws \<Rightarrow> ChainConfig \<Rightarrow> Snapshot \<Rightarrow> Header \<Rightarrow> Header \<Rightarrow> address \<Rightarrow> u64 result" where
  "backOffTime C draw cfg snap parent header v =
     bindE (inturn C snap v) (\<lambda>b.
       if b then Inr 0
       else
         (let isParentLorentz = IsLorentz cfg (Number parent) (Time parent);
              delay = (if isParentLorentz then lorentzInitialBackOffTime else defaultInitialBackOffTime) in
          if IsPlanck cfg (Number header) then
            (if signRecentlyByCounts snap v (countRecents snap) then Inr 0
             else bindE (inturnValidator C snap) (\<lambda>inTurnAddr.
               let delay = (if signRecentlyByCounts snap inTurnAddr (countRecents snap) then 0 else delay) in
               backOffAmong draw cfg snap header isParentLorentz delay
                 (backOffCandidates cfg snap header inTurnAddr) v))
          else backOffAmong draw cfg snap header isParentLorentz delay (validators snap) v))"

section \<open>Block times\<close>

text \<open>A duration in nanoseconds; \<open>nowNano\<close> is the clock in nanoseconds and \<open>Int63n\<close> a random number below
  its argument.\<close>

definition delayForRamanujanFork :: "(int \<Rightarrow> int) \<Rightarrow> int \<Rightarrow> ChainConfig \<Rightarrow> Snapshot \<Rightarrow> Header \<Rightarrow> int result" where
  "delayForRamanujanFork Int63n nowNano cfg snap header =
     (let delay = sint (MilliTimestamp header) * 1000000 - nowNano in
      if IsRamanujan cfg (Number header) then Inr delay
      else (case Difficulty header of
          None \<Rightarrow> Inl Panic
        | Some difficulty \<Rightarrow>
            if difficulty = diffNoTurn then
              (let wiggle = int (length (Validators snap) div 2 + 1) * wiggleTimeBeforeFork in
               Inr (delay + (fixedBackOffTimeBeforeFork + Int63n wiggle)))
            else Inr delay))"

definition blockTimeForRamanujanFork ::
  "crypto \<Rightarrow> draws \<Rightarrow> u64 \<Rightarrow> ChainConfig \<Rightarrow> address \<Rightarrow> Snapshot \<Rightarrow> Header \<Rightarrow> Header \<Rightarrow> u64 result" where
  "blockTimeForRamanujanFork C draw now cfg v snap header parent =
     (let blockTime = MilliTimestamp parent + BlockInterval snap in
      bindE (if IsRamanujan cfg (Number header)
             then bindE (backOffTime C draw cfg snap parent header v) (\<lambda>b. Inr (blockTime + b))
             else Inr blockTime) (\<lambda>blockTime.
        if blockTime < now
        then Inr (of_nat (CeilDiv (unat now) millisecondsUnit) * of_nat millisecondsUnit)
        else Inr blockTime))"

definition blockTimeVerifyForRamanujanFork ::
  "crypto \<Rightarrow> draws \<Rightarrow> ChainConfig \<Rightarrow> Snapshot \<Rightarrow> Header \<Rightarrow> Header \<Rightarrow> unit result" where
  "blockTimeVerifyForRamanujanFork C draw cfg snap header parent =
     (if IsRamanujan cfg (Number header)
      then bindE (backOffTime C draw cfg snap parent header (Coinbase header)) (\<lambda>b.
        if MilliTimestamp header < MilliTimestamp parent + BlockInterval snap + b then Inl ErrFutureBlock else Inr ())
      else Inr ())"

text \<open>How \<open>Prepare\<close> writes the block time into the header.\<close>

definition setBlockTime :: "ChainConfig \<Rightarrow> u64 \<Rightarrow> Header \<Rightarrow> Header" where
  "setBlockTime cfg blockTime header =
     (let header = header\<lparr> Time := blockTime div 1000 \<rparr> in
      if IsLorentz cfg (Number header) (Time header) then SetMilliseconds (blockTime mod 1000) header
      else header\<lparr> MixDigest := 0 \<rparr>)"

definition GetAncestorGenerationDepth :: "ChainConfig \<Rightarrow> Header \<Rightarrow> nat" where
  "GetAncestorGenerationDepth cfg header =
     (if IsFermi cfg (Number header) (Time header) then kAncestorGenerationDepth else 1)"

section \<open>Days\<close>

definition sameDayInUTC :: "u64 \<Rightarrow> u64 \<Rightarrow> bool" where
  "sameDayInUTC first second \<longleftrightarrow> first div BreatheBlockInterval = second div BreatheBlockInterval"

definition isBreatheBlock :: "u64 \<Rightarrow> u64 \<Rightarrow> bool" where
  "isBreatheBlock lastBlockTime blockTime \<longleftrightarrow> lastBlockTime \<noteq> 0 \<and> \<not> sameDayInUTC lastBlockTime blockTime"

section \<open>The shuffle is a permutation\<close>

definition drawsOK :: "draws \<Rightarrow> bool" where
  "drawsOK draw \<longleftrightarrow> (\<forall>seed n i. draw seed n i \<le> i)"

lemma shuffleFrom_perm:
  assumes "\<And>i. d i \<le> i" "xs \<noteq> [] \<Longrightarrow> k < length xs"
  shows "length (shuffleFrom d k xs) = length xs \<and> set (shuffleFrom d k xs) = set xs \<and>
    distinct (shuffleFrom d k xs) = distinct xs"
  using assms(2)
proof (induction k arbitrary: xs)
  case (Suc k)
  have "d (Suc k) < length xs" if "xs \<noteq> []" using Suc.prems [OF that] assms(1) [of "Suc k"] by simp
  with Suc show ?case using Suc.IH [of "[]"] by (cases "xs = []") (simp_all add: swap_def)
qed simp

lemma Shuffle_perm:
  assumes "drawsOK draw"
  shows "length (Shuffle draw seed xs) = length xs" "set (Shuffle draw seed xs) = set xs"
    "distinct (Shuffle draw seed xs) = distinct xs"
  using shuffleFrom_perm [of "draw seed (length xs)" xs "length xs - 1"] assms by (simp_all add: Shuffle_def drawsOK_def)

section \<open>Bounds and separation of the back-off\<close>

lemma indexFrom_SomeD: "indexFrom k xs v = Some i \<Longrightarrow> v \<in> set xs"
  using indexFrom_None [of k xs v] by auto

lemma lastIndexOf_eq: "distinct xs \<Longrightarrow> lastIndexOf v xs = indexFrom 0 xs v"
proof -
  have "fold (\<lambda>(index, a) idx. if v = a then Some index else idx) (enumerate k xs) acc =
      (case indexFrom k xs v of None \<Rightarrow> acc | Some i \<Rightarrow> Some i)" if "distinct xs" for k acc
    using that by (induction xs arbitrary: k acc) (auto simp: indexFrom_None dest: indexFrom_SomeD split: option.split)
  then show "distinct xs \<Longrightarrow> ?thesis" by (simp add: lastIndexOf_def split: option.split)
qed

lemma shuffled_step:
  fixes seed :: u64
  assumes "drawsOK draw" "i < n" "n < 2 ^ 32"
  defines "step \<equiv> \<lambda>i. Shuffle draw seed [0..<n] ! i"
  shows "step i < n" "unat (of_nat (step i) :: u64) = step i" "j < n \<Longrightarrow> i \<noteq> j \<Longrightarrow> step i \<noteq> step j"
proof -
  note perm = Shuffle_perm [OF assms(1), of seed "[0..<n]"]
  have "step i \<in> set (Shuffle draw seed [0..<n])" using perm(1) assms(2) by (simp add: step_def)
  then show lt: "step i < n" using perm(2) by simp
  then show "unat (of_nat (step i) :: u64) = step i" using assms(3) by (intro unat_of_nat_u64) simp
  show "step i \<noteq> step j" if "j < n" "i \<noteq> j"
    using perm(1,3) assms(2) that by (simp add: step_def nth_eq_iff_index_eq)
qed

text \<open>The back-off on natural numbers.\<close>

definition backOffNat :: "bool \<Rightarrow> nat \<Rightarrow> nat \<Rightarrow> nat" where
  "backOffNat lorentz delay step =
     (if delay = 0 \<and> lorentz then (if step = 0 then 0 else step * 1000 + 1000) else delay + step * 1000)"

lemma unat_backOffAt:
  assumes "drawsOK draw" "idx < n" "n < 2 ^ 32" "unat delay \<le> 2000"
  shows "unat (backOffAt draw seed lorentz delay n idx) =
    backOffNat lorentz (unat delay) (Shuffle draw seed [0..<n] ! idx)"
proof -
  let ?st = "Shuffle draw seed [0..<n] ! idx"
  note st = shuffled_step(1,2) [OF assms(1-3), of seed]
  have zero: "(of_nat ?st :: u64) = 0 \<longleftrightarrow> ?st = 0" using unat_eq_zero [of "of_nat ?st :: u64"] unfolding st(2) by blast
  have eq: "backOffAt draw seed lorentz delay n idx = of_nat (backOffNat lorentz (unat delay) ?st)"
  proof (cases "delay = 0 \<and> lorentz \<and> ?st \<noteq> 0")
    case True
    have "lorentzInitialBackOffTime + (of_nat ?st - 1) * wiggleTime = (of_nat ?st * 1000 + 1000 :: u64)"
      by (simp add: lorentzInitialBackOffTime_def wiggleTime_def algebra_simps)
    with True zero show ?thesis by (simp add: backOffAt_def backOffNat_def Let_def)
  next
    case False
    then show ?thesis using zero by (auto simp: backOffAt_def backOffNat_def Let_def wiggleTime_def unat_eq_zero)
  qed
  have "backOffNat lorentz (unat delay) ?st < 2 ^ 64"
    using st(1) assms(3,4) by (auto simp: backOffNat_def)
  then show ?thesis unfolding eq by (rule unat_of_nat_u64)
qed

lemma backOffNat_le: "step < n \<Longrightarrow> delay \<le> 2000 \<Longrightarrow> backOffNat lorentz delay step \<le> 1000 * n + 1000"
  by (auto simp: backOffNat_def)

lemma backOffNat_separated: "step < step' \<Longrightarrow> backOffNat lorentz delay step + 1000 \<le> backOffNat lorentz delay step'"
  by (auto simp: backOffNat_def)

lemma map_sum_eq_Inr: "map_sum f g r = Inr y \<longleftrightarrow> (\<exists>x. r = Inr x \<and> y = g x)"
  by (cases r) auto

text \<open>The back-off of an eligible validator: its delay, which is the same for all, and its own step.\<close>

definition backOffDelay :: "ChainConfig \<Rightarrow> Snapshot \<Rightarrow> Header \<Rightarrow> address \<Rightarrow> u64" where
  "backOffDelay cfg snap parent inTurnAddr =
     (if signRecentlyByCounts snap inTurnAddr (countRecents snap) then 0
      else if IsLorentz cfg (Number parent) (Time parent) then lorentzInitialBackOffTime else defaultInitialBackOffTime)"

lemma backOffTime_eligible:
  assumes "snapWF s" "drawsOK draw" "length (Validators s) < 2 ^ 32" "IsPlanck cfg (Number h)"
    and "inturnValidator C s = Inr a" "v \<in> set (backOffCandidates cfg s h a)" "v \<noteq> a"
    and "backOffSeed cfg s h = Inr seed"
  obtains i where "i < length (backOffCandidates cfg s h a)" "backOffCandidates cfg s h a ! i = v"
    "map_sum id unat (backOffTime C draw cfg s parent h v) =
       Inr (backOffNat (IsLorentz cfg (Number parent) (Time parent)) (unat (backOffDelay cfg s parent a))
         (Shuffle draw seed [0..<length (backOffCandidates cfg s h a)] ! i))"
proof -
  let ?c = "backOffCandidates cfg s h a"
  have d: "distinct ?c" using distinct_validators [OF assms(1)] by (simp add: backOffCandidates_def)
  have len: "length ?c < 2 ^ 32"
    using assms(3) length_filter_le [of _ "validators s"] order.strict_trans1 by (fastforce simp: backOffCandidates_def)
  obtain i where i: "i < length ?c" "?c ! i = v" using assms(6) by (auto simp: in_set_conv_nth)
  then have idx: "lastIndexOf v ?c = Some i" using d by (simp add: lastIndexOf_eq indexFrom_iff)
  have le: "unat (backOffDelay cfg s parent a) \<le> 2000"
    by (simp add: backOffDelay_def lorentzInitialBackOffTime_def defaultInitialBackOffTime_def)
  have "backOffTime C draw cfg s parent h v =
      Inr (backOffAt draw seed (IsLorentz cfg (Number parent) (Time parent)) (backOffDelay cfg s parent a) (length ?c) i)"
    using assms(4-8) idx
    by (simp add: backOffTime_def inturn_def backOffAmong_def backOffDelay_def Let_def) (simp add: backOffCandidates_def)
  with i show ?thesis using that unat_backOffAt [OF assms(2) i(1) len le] by simp
qed

text \<open>C21. The back-off separates the validators: after Planck two eligible validators that are not in turn
  wait for times that differ by at least the wiggle time of one second, and none
  of them waits longer than one second per eligible validator plus one.\<close>

theorem backoff_separated:
  assumes "snapWF s" "drawsOK draw" "length (Validators s) < 2 ^ 32" "IsPlanck cfg (Number h)"
    and "inturnValidator C s = Inr a" "backOffSeed cfg s h = Inr seed"
    and "v \<in> set (backOffCandidates cfg s h a)" "w \<in> set (backOffCandidates cfg s h a)" "v \<noteq> a" "w \<noteq> a" "v \<noteq> w"
  shows "\<exists>t t'. backOffTime C draw cfg s parent h v = Inr t \<and> backOffTime C draw cfg s parent h w = Inr t' \<and>
    1000 \<le> \<bar>int (unat t) - int (unat t')\<bar> \<and> unat t \<le> 1000 * length (backOffCandidates cfg s h a) + 1000"
proof -
  let ?c = "backOffCandidates cfg s h a" and ?l = "IsLorentz cfg (Number parent) (Time parent)"
  let ?d = "unat (backOffDelay cfg s parent a)" and ?st = "\<lambda>i. Shuffle draw seed [0..<length (backOffCandidates cfg s h a)] ! i"
  have len: "length ?c < 2 ^ 32"
    using assms(3) length_filter_le [of _ "validators s"] order.strict_trans1 by (fastforce simp: backOffCandidates_def)
  obtain i where i: "i < length ?c" "?c ! i = v"
    and 1: "map_sum id unat (backOffTime C draw cfg s parent h v) = Inr (backOffNat ?l ?d (?st i))"
    by (rule backOffTime_eligible [OF assms(1-5,7,9,6)])
  obtain j where j: "j < length ?c" "?c ! j = w"
    and 2: "map_sum id unat (backOffTime C draw cfg s parent h w) = Inr (backOffNat ?l ?d (?st j))"
    by (rule backOffTime_eligible [OF assms(1-5,8,10,6)])
  from 1 2 obtain t t' where t: "backOffTime C draw cfg s parent h v = Inr t" "unat t = backOffNat ?l ?d (?st i)"
    "backOffTime C draw cfg s parent h w = Inr t'" "unat t' = backOffNat ?l ?d (?st j)"
    by (auto simp: map_sum_eq_Inr)
  have "?st i \<noteq> ?st j" using shuffled_step(3) [OF assms(2) i(1) len j(1)] assms(11) i(2) j(2) by blast
  then have "1000 \<le> \<bar>int (unat t) - int (unat t')\<bar>"
    using backOffNat_separated [of "?st i" "?st j" ?l ?d] backOffNat_separated [of "?st j" "?st i" ?l ?d] t(2,4)
    by (cases "?st i" "?st j" rule: linorder_cases) simp_all
  moreover have "?d \<le> 2000" by (simp add: backOffDelay_def lorentzInitialBackOffTime_def defaultInitialBackOffTime_def)
  then have "unat t \<le> 1000 * length ?c + 1000"
    unfolding t(2) by (rule backOffNat_le [OF shuffled_step(1) [OF assms(2) i(1) len]])
  ultimately show ?thesis using t(1,3) by blast
qed

section \<open>Produced times are accepted\<close>

lemma backOffTime_cong:
  assumes "Number h' = Number h" "IsBohr cfg (Number h) (Time h') = IsBohr cfg (Number h) (Time h)"
  shows "backOffTime C draw cfg s parent h' v = backOffTime C draw cfg s parent h v"
proof -
  have "backOffSeed cfg s h' = backOffSeed cfg s h" using assms by (simp add: backOffSeed_def)
  then have "backOffAmong draw cfg s h' = backOffAmong draw cfg s h" by (simp add: fun_eq_iff backOffAmong_def split: option.split)
  moreover have "backOffCandidates cfg s h' = backOffCandidates cfg s h"
    using assms by (simp add: fun_eq_iff backOffCandidates_def)
  ultimately show ?thesis by (simp only: backOffTime_def assms(1))
qed

lemma backOffTime_bounds:
  assumes "backOffTime C draw cfg s parent h v = Inr b" "snapWF s" "drawsOK draw" "length (Validators s) < 2 ^ 32"
  shows "1000 dvd unat b" "unat b \<le> 1000 * length (Validators s) + 2000"
proof -
  have among: "1000 dvd unat b \<and> unat b \<le> 1000 * length (Validators s) + 2000"
    if r: "backOffAmong draw cfg s h lor delay vals v = Inr b" and d: "delay \<in> {0, 1000, 2000}"
      and vs: "distinct vals" "length vals \<le> length (Validators s)" for lor delay vals
  proof (cases "lastIndexOf v vals")
    case None
    with r show ?thesis by (simp add: backOffAmong_def)
  next
    case (Some i)
    then have i: "i < length vals" using vs(1) by (simp add: lastIndexOf_eq indexFrom_iff)
    from r Some obtain seed where b: "b = backOffAt draw seed lor delay (length vals) i"
      by (auto simp: backOffAmong_def bindE_eq_Inr)
    have len: "length vals < 2 ^ 32" using vs(2) assms(4) by simp
    have ud: "unat delay \<in> {0, 1000, 2000}" using d by auto
    then have "unat b = backOffNat lor (unat delay) (Shuffle draw seed [0..<length vals] ! i)"
      unfolding b by (intro unat_backOffAt [OF assms(3) i len]) auto
    moreover have "Shuffle draw seed [0..<length vals] ! i < length (Validators s)"
      using shuffled_step(1) [OF assms(3) i len] vs(2) by (rule order.strict_trans2)
    ultimately show ?thesis using ud by (auto simp: backOffNat_def)
  qed
  have cand: "distinct (backOffCandidates cfg s h a)" "length (backOffCandidates cfg s h a) \<le> length (Validators s)" for a
    using distinct_validators [OF assms(2)] length_filter_le [of _ "validators s"] by (simp_all add: backOffCandidates_def)
  have all: "distinct (validators s)" "length (validators s) \<le> length (Validators s)"
    using distinct_validators [OF assms(2)] by simp_all
  have delays: "lorentzInitialBackOffTime = 2000" "defaultInitialBackOffTime = 1000"
    by (simp_all add: lorentzInitialBackOffTime_def defaultInitialBackOffTime_def)
  have "b = 0 \<or> (\<exists>lor delay vals. backOffAmong draw cfg s h lor delay vals v = Inr b \<and> delay \<in> {0, 1000, 2000} \<and>
      distinct vals \<and> length vals \<le> length (Validators s))"
    using assms(1) cand all
    by (simp add: backOffTime_def Let_def bindE_eq_Inr delays split: if_splits) (use all in blast)+
  with among have "1000 dvd unat b \<and> unat b \<le> 1000 * length (Validators s) + 2000" by auto
  then show "1000 dvd unat b" "unat b \<le> 1000 * length (Validators s) + 2000" by simp_all
qed

lemma div_mod_1000: "x div 1000 * 1000 + x mod 1000 = (x :: u64)"
  by (rule div_mult_mod_eq)

lemma MilliTimestamp_setBlockTime:
  "MilliTimestamp (setBlockTime cfg bt h) =
    (if IsLorentz cfg (Number h) (bt div 1000) then bt else bt div 1000 * 1000)"
proof -
  have up: "(ucast (ucast x :: hash) :: u64) = x" for x :: u64 by transfer simp
  then have "(ucast (x :: u64) :: hash) = 0 \<longleftrightarrow> x = 0" for x by (metis unsigned_0)
  moreover note up
  moreover have "bt mod 1000 mod 1000 = bt mod 1000" by (simp add: u64_eq_iff_unat unat_mod)
  ultimately show ?thesis
    using div_mod_1000 [of bt] by (simp add: setBlockTime_def MilliTimestamp_def SetMilliseconds_def Let_def) (metis add.right_neutral)
qed

lemma blockTime_ge:
  assumes "blockTimeForRamanujanFork C draw now cfg v s h parent = Inr bt" "IsRamanujan cfg (Number h)"
    and "backOffTime C draw cfg s parent h v = Inr b" "unat now < 2 ^ 63"
  shows "MilliTimestamp parent + BlockInterval s + b \<le> bt"
proof -
  let ?req = "MilliTimestamp parent + BlockInterval s + b"
  have bt: "bt = (if ?req < now then of_nat (CeilDiv (unat now) millisecondsUnit) * of_nat millisecondsUnit else ?req)"
    using assms(1-3) by (simp add: blockTimeForRamanujanFork_def Let_def split: if_splits)
  have "of_nat (CeilDiv (unat now) millisecondsUnit) * of_nat millisecondsUnit = (of_nat ((unat now + 49) div 50 * 50) :: u64)"
    by (simp add: CeilDiv_def millisecondsUnit_def add.commute)
  moreover have "unat (of_nat ((unat now + 49) div 50 * 50) :: u64) = (unat now + 49) div 50 * 50"
    using assms(4) by (intro unat_of_nat_u64) simp
  ultimately show ?thesis by (auto simp: bt word_le_nat_alt word_less_nat_alt)
qed

text \<open>C22. Producer and verifier agree on time: a header to which \<open>Prepare\<close> gives the block time of
  \<open>blockTimeForRamanujanFork\<close> passes \<open>blockTimeVerifyForRamanujanFork\<close>, as long as the new time does
  not change whether Bohr is active. Before Lorentz, where the header keeps whole seconds only, the parent and
  the block interval must be whole seconds.\<close>

theorem produced_time_accepted:
  assumes "blockTimeForRamanujanFork C draw now cfg v s h parent = Inr bt"
    and "snapWF s" "drawsOK draw" "length (Validators s) < 2 ^ 32"
    and "IsBohr cfg (Number h) (bt div 1000) = IsBohr cfg (Number h) (Time h)"
    and "unat (MilliTimestamp parent) + unat (BlockInterval s) + 2 ^ 43 < 2 ^ 64" "unat now < 2 ^ 63"
    and "IsLorentz cfg (Number h) (bt div 1000) \<or> 1000 dvd unat (MilliTimestamp parent) + unat (BlockInterval s)"
  shows "blockTimeVerifyForRamanujanFork C draw cfg s (setBlockTime cfg bt (h\<lparr> Coinbase := v \<rparr>)) parent = Inr ()"
proof (cases "IsRamanujan cfg (Number h)")
  case True
  let ?h = "setBlockTime cfg bt (h\<lparr> Coinbase := v \<rparr>)"
  from assms(1) True obtain b where b: "backOffTime C draw cfg s parent h v = Inr b"
    by (auto simp: blockTimeForRamanujanFork_def Let_def bindE_eq_Inr split: if_splits)
  have h: "Number ?h = Number h" "Time ?h = bt div 1000" "Coinbase ?h = v"
    by (simp_all add: setBlockTime_def SetMilliseconds_def Let_def)
  then have bo: "backOffTime C draw cfg s parent ?h v = Inr b"
    using backOffTime_cong [of ?h h cfg] assms(5) b by simp
  note bounds = backOffTime_bounds [OF b assms(2,3,4)]
  let ?req = "MilliTimestamp parent + BlockInterval s + b"
  have req: "unat ?req = unat (MilliTimestamp parent) + unat (BlockInterval s) + unat b"
    using bounds(2) assms(4,6) unat_plus_if_lt [of "MilliTimestamp parent" "BlockInterval s"]
    by (subst unat_plus_if_lt) simp_all
  have ge: "unat ?req \<le> unat bt" using blockTime_ge [OF assms(1) True b assms(7)] by (simp add: word_le_nat_alt)
  have "unat ?req \<le> unat (MilliTimestamp ?h)"
  proof (cases "IsLorentz cfg (Number h) (bt div 1000)")
    case False
    then obtain k where k: "unat ?req = 1000 * k" using assms(8) bounds(1) req by (metis dvd_add dvd_def)
    have lt: "unat bt div 1000 * 1000 < 2 ^ 64" by (rule order.strict_trans1 [OF div_times_less_eq_dividend unat_u64_less])
    have "unat (bt div 1000 * 1000) = unat bt div 1000 * 1000"
      using lt by (subst unat_mult_if_lt) (simp_all add: unat_div)
    with False ge k show ?thesis by (simp add: MilliTimestamp_setBlockTime)
  qed (use ge in \<open>simp add: MilliTimestamp_setBlockTime\<close>)
  then show ?thesis by (simp add: blockTimeVerifyForRamanujanFork_def h bo word_less_nat_alt)
qed (simp add: blockTimeVerifyForRamanujanFork_def setBlockTime_def SetMilliseconds_def Let_def)

text \<open>Three validators with turn length 2, after all the forks in question.\<close>

definition timeConfig :: ChainConfig where
  "timeConfig = lubanConfig\<lparr> RamanujanBlock := Some 0, PlanckBlock := Some 0 \<rparr>"

definition timeSnap :: Snapshot where
  "timeSnap = toySnap\<lparr> Validators := [(3, \<lparr> Index = 1, InfoVoteAddress = 9 \<rparr>), (5, \<lparr> Index = 2, InfoVoteAddress = 9 \<rparr>),
     (7, \<lparr> Index = 3, InfoVoteAddress = 9 \<rparr>)] \<rparr>"

lemma timeSnap_facts: "snapWF timeSnap" "validators timeSnap = [3, 5, 7]" "inturnValidator toyCrypto timeSnap = Inr 7"
  "IsPlanck timeConfig (Some 101)" "IsRamanujan timeConfig (Some 101)"
  "IsBohr timeConfig (Some 101) t" "backOffSeed timeConfig timeSnap (toyHeader 101) = Inr 50"
  "countRecents timeSnap = []"
  by (simp_all add: timeSnap_def toySnap_def snapWF_def gm_wf_def validators_def inturnValidator_def selectValidatorRoundRobin_def
      divC_def modC_def timeConfig_def lubanConfig_def zeroChainConfig_def IsPlanck_def IsRamanujan_def IsBohr_def IsLondon_def
      isBlockForked_def isTimestampForked_def backOffSeed_def countRecents_def toyForks)

lemma timeSnap_candidates: "backOffCandidates timeConfig timeSnap (toyHeader 101) 7 = [3, 5]"
  using timeSnap_facts by (simp add: backOffCandidates_def signRecentlyByCounts_def)

theorem backoff_separated_witness:
  "\<exists>t t'. backOffTime toyCrypto (\<lambda>_ _ _. 0) timeConfig timeSnap (toyHeader 100) (toyHeader 101) 3 = Inr t \<and>
    backOffTime toyCrypto (\<lambda>_ _ _. 0) timeConfig timeSnap (toyHeader 100) (toyHeader 101) 5 = Inr t' \<and>
    1000 \<le> \<bar>int (unat t) - int (unat t')\<bar> \<and>
    unat t \<le> 1000 * length (backOffCandidates timeConfig timeSnap (toyHeader 101) 7) + 1000"
  by (rule backoff_separated [where seed = 50]) (simp_all add: timeSnap_facts timeSnap_candidates drawsOK_def, simp add: timeSnap_def)

theorem produced_time_accepted_witness:
  "blockTimeVerifyForRamanujanFork toyCrypto (\<lambda>_ _ _. 0) timeConfig timeSnap
    (setBlockTime timeConfig 1700000003000 (toyHeader 101\<lparr> Coinbase := 7 \<rparr>)) (toyHeader 100) = Inr ()"
proof (rule produced_time_accepted)
  have m: "MilliTimestamp (toyHeader 100) = 1700000000000" by (simp add: MilliTimestamp_def toyHeader_def exampleHeader_def)
  show "blockTimeForRamanujanFork toyCrypto (\<lambda>_ _ _. 0) 1700000000000 timeConfig 7 timeSnap (toyHeader 101) (toyHeader 100)
      = Inr 1700000003000"
    by (simp add: blockTimeForRamanujanFork_def backOffTime_def inturn_def timeSnap_facts m)
      (simp add: timeSnap_def toySnap_def)
  show "unat (MilliTimestamp (toyHeader 100)) + unat (BlockInterval timeSnap) + 2 ^ 43 < 2 ^ 64"
    "IsLorentz timeConfig (Number (toyHeader 101)) (1700000003000 div 1000) \<or>
     1000 dvd unat (MilliTimestamp (toyHeader 100)) + unat (BlockInterval timeSnap)"
    by (simp_all add: m timeSnap_def toySnap_def)
qed (simp_all add: timeSnap_facts drawsOK_def, simp add: timeSnap_def)

end
