(* ===== verification/Sig_Cache.thy ===== *)
theory Sig_Cache
  imports Recents
begin

text \<open>
  The signature cache of the engine is transparent: the verdict of \<open>apply\<close> does not depend on what the
  cache holds, as long as its entries are right for the headers in question. The cache is the LRU cache,
  used through the contract \<open>value_cache\<close>; keys are header hashes, so two headers in question must not have
  the same hash.
\<close>

text \<open>The entries of the cache are signers of the headers of \<open>H\<close>.\<close>

definition signerOf :: "crypto \<Rightarrow> int option \<Rightarrow> Header set \<Rightarrow> hash \<Rightarrow> address \<Rightarrow> bool" where
  "signerOf C chainId H k a \<longleftrightarrow> (\<exists>h \<in> H. Hash C h = k \<and> recoverSigner C h chainId = Inr a)"

definition sigCoherent :: "crypto \<Rightarrow> int option \<Rightarrow> Header set \<Rightarrow> sigCache \<Rightarrow> bool" where
  "sigCoherent C chainId H c \<longleftrightarrow> lru_cache.coherent (signerOf C chainId H) c"

lemma ecrecover_memo: "ecrecover C h chainId c = lru_cache.memo (recoverSigner C h chainId) (Hash C h) c"
  by (simp add: ecrecover_def lru_cache.memo_def)

lemma ecrecover_correct:
  assumes "inj_on (Hash C) H" "h \<in> H" "sigCoherent C chainId H c"
  shows "fst (ecrecover C h chainId c) = recoverSigner C h chainId" "sigCoherent C chainId H (snd (ecrecover C h chainId c))"
proof -
  have "signerOf C chainId H (Hash C h) v \<longleftrightarrow> recoverSigner C h chainId = Inr v" for v
    using assms(1,2) by (auto simp: signerOf_def dest: inj_onD)
  from lru_cache.memo_correct [OF assms(3) [unfolded sigCoherent_def] this]
  show "fst (ecrecover C h chainId c) = recoverSigner C h chainId" "sigCoherent C chainId H (snd (ecrecover C h chainId c))"
    by (simp_all add: ecrecover_memo sigCoherent_def)
qed

lemma sigCoherent_New: "sigCoherent C chainId H (NewBasicLRU n)"
  by (simp add: sigCoherent_def lru_cache.coherent_def lru_wf_New) (simp add: NewBasicLRU_def Peek_def)

text \<open>An action is cache-independent if coherent caches give equal results and stay coherent.\<close>

definition cacheFree :: "(sigCache \<Rightarrow> bool) \<Rightarrow> (sigCache, parlia_error, 'a) act \<Rightarrow> bool" where
  "cacheFree ok m \<longleftrightarrow> (\<forall>c c'. ok c \<longrightarrow> ok c' \<longrightarrow> fst (m c) = fst (m c') \<and> ok (snd (m c)))"

lemma cacheFreeD:
  assumes "cacheFree ok m" "ok c" "ok c'"
  shows "fst (m c) = fst (m c')" "ok (snd (m c))"
  using assms unfolding cacheFree_def by blast+

lemma cacheFree_pure [simp]: "cacheFree ok (retA a)" "cacheFree ok (liftA r)"
  by (simp_all add: cacheFree_def retA_def liftA_def)

lemma cacheFree_bind:
  assumes m: "cacheFree ok m" and f: "\<And>a. cacheFree ok (f a)"
  shows "cacheFree ok (bindA m f)"
  unfolding cacheFree_def
proof (intro allI impI)
  fix c c' assume ok: "ok c" "ok c'"
  obtain r d where 1: "m c = (r, d)" by fastforce
  obtain r' d' where 2: "m c' = (r', d')" by fastforce
  have "r = r'" "ok d" "ok d'" using cacheFreeD [OF m ok] cacheFreeD [OF m ok(2,1)] 1 2 by simp_all
  then show "fst (bindA m f c) = fst (bindA m f c') \<and> ok (snd (bindA m f c))"
    using cacheFreeD [OF f, of d d'] unfolding bindA_def 1 2 by (cases r') simp_all
qed

lemma cacheFree_fold:
  assumes "\<And>x a. x \<in> set xs \<Longrightarrow> cacheFree ok (f x a)"
  shows "cacheFree ok (foldA f xs a)"
  using assms by (induction xs arbitrary: a) (simp_all add: cacheFree_bind)

lemma cacheFree_ecrecover:
  assumes "inj_on (Hash C) H" "h \<in> H"
  shows "cacheFree (sigCoherent C chainId H) (ecrecover C h chainId)"
  using ecrecover_correct [OF assms] by (simp add: cacheFree_def)

lemma cacheFree_apply:
  assumes "inj_on (Hash C) H" "set hs \<subseteq> H"
  shows "cacheFree (sigCoherent C (ChainID cfg) H) (apply_snap C d cfg chain parents b hs s)"
  unfolding apply_snap_def applyHeader_def Let_def using assms
  by (auto intro!: cacheFree_bind cacheFree_fold cacheFree_ecrecover)

text \<open>C16. The signature cache is transparent: for headers with different hashes, applying a
  batch with any cache whose entries are right gives the same snapshot or error as with an empty
  cache, and leaves a cache whose entries are right.\<close>

theorem apply_cache_transparent:
  assumes "inj_on (Hash C) H" "set hs \<subseteq> H" "sigCoherent C (ChainID cfg) H c"
  shows "fst (apply_snap C d cfg chain parents b hs s c) = fst (apply_snap C d cfg chain parents b hs s (NewBasicLRU n)) \<and>
    sigCoherent C (ChainID cfg) H (snd (apply_snap C d cfg chain parents b hs s c))"
  using cacheFreeD [OF cacheFree_apply [OF assms(1,2)] assms(3) sigCoherent_New] by blast

lemma toySeal: "EncodeSigHeader (toyHeader 101) (Some 88888) = Inr (enc sigHeaderType (sigHeaderVal (Some 88888) (toyHeader 101)))"
proof (rule EncodeSigHeader_enc)
  have "bitLen 2 \<le> 80" "bitLen 0 \<le> 256" by (simp_all add: bitLen_le)
  then show "SanityCheck (toyHeader 101) = Inr ()" by (simp add: SanityCheck_def toyHeader_def exampleHeader_def)
qed (simp_all add: wfHeader_def toyHeader_def exampleHeader_def)

theorem apply_cache_transparent_witness:
  "fst (apply_snap toyCrypto 200 lubanConfig emptyChain [] False [toyHeader 101] toySnap toyCache) =
     fst (apply_snap toyCrypto 200 lubanConfig emptyChain [] False [toyHeader 101] toySnap (NewBasicLRU 4096)) \<and>
   sigCoherent toyCrypto (ChainID lubanConfig) {toyHeader 101}
     (snd (apply_snap toyCrypto 200 lubanConfig emptyChain [] False [toyHeader 101] toySnap toyCache))"
proof (rule apply_cache_transparent)
  have "recoverSigner toyCrypto (toyHeader 101) (ChainID lubanConfig) = Inr 7"
    using toySeal by (simp add: recoverSigner_def toyCrypto_def SealHash_def lubanConfig_def)
  then show "sigCoherent toyCrypto (ChainID lubanConfig) {toyHeader 101} toyCache"
    by (simp add: sigCoherent_def lru_cache.coherent_def signerOf_def lru_wf_def toyCache_def Peek_def)
qed simp_all

end
