(* ===== verification/Header_Rules.thy ===== *)
theory Header_Rules
  imports Chain_Types Networks Complex_Main
begin

text \<open>
  The fee and gas rules of a header that do not depend on the validator set: the gas limit
  (\<open>consensus/misc/gaslimit.go\<close>), the base fee (\<open>consensus/misc/eip1559/eip1559.go\<close>) and the blob gas
  (\<open>consensus/misc/eip4844/eip4844.go\<close>). A Parlia chain keeps a minimum base fee and a minimum blob price.

  The lemmas bound what one block can change: the base fee never falls below the minimum and moves by about
  an eighth, the approximated exponential is monotone and lies between its factor and the real exponential.
\<close>

section \<open>Gas limit\<close>

text \<open>\<open>int64(a) - int64(b)\<close>, negated if negative, read as \<open>uint64\<close>.\<close>

definition absDiff :: "u64 \<Rightarrow> u64 \<Rightarrow> u64" where
  "absDiff a b = (let diff = a - b in if sint diff < 0 then - diff else diff)"

definition VerifyGaslimit :: "u64 \<Rightarrow> u64 \<Rightarrow> unit result" where
  "VerifyGaslimit parentGasLimit headerGasLimit =
     (let limit = parentGasLimit div GasLimitBoundDivisor in
      if absDiff parentGasLimit headerGasLimit \<ge> limit then Inl (ErrMsg ''invalid gas limit'')
      else if headerGasLimit < MinGasLimit then Inl (ErrMsg ''invalid gas limit below minimum'')
      else Inr ())"

section \<open>Base fee\<close>

text \<open>A nil base fee of the parent and a gas target of zero panic inside \<open>big.Int\<close>.\<close>

definition CalcBaseFee :: "ChainConfig \<Rightarrow> Header \<Rightarrow> int result" where
  "CalcBaseFee config parent =
     (if \<not> IsLondon config (Number parent)
      then Inr (if Parlia config \<noteq> None then InitialBaseFeeForBSC else InitialBaseFee)
      else
        (let parentGasTarget = GasLimit parent div ElasticityMultiplier config in
         case BaseFee parent of
           None \<Rightarrow> Inl Panic
         | Some parentBaseFee \<Rightarrow>
             if GasUsed parent = parentGasTarget then Inr parentBaseFee
             else if GasUsed parent > parentGasTarget then
               (if parentGasTarget = 0 then Inl Panic
                else
                  (let num = uint (GasUsed parent - parentGasTarget) * parentBaseFee;
                       num = num div uint parentGasTarget;
                       num = num div uint (BaseFeeChangeDenominator config) in
                   if num < 1 then Inr (parentBaseFee + 1) else Inr (parentBaseFee + num)))
             else
               (let num = uint (parentGasTarget - GasUsed parent) * parentBaseFee;
                    num = num div uint parentGasTarget;
                    num = num div uint (BaseFeeChangeDenominator config);
                    floor0 = (if Parlia config \<noteq> None then InitialBaseFeeForBSC else 0);
                    baseFee = parentBaseFee - num in
                if baseFee < floor0 then Inr floor0 else Inr baseFee)))"

definition VerifyEIP1559Header :: "ChainConfig \<Rightarrow> Header \<Rightarrow> Header \<Rightarrow> unit result" where
  "VerifyEIP1559Header config parent header =
     bindE
       (if IsNotInBSC config then
          (let parentGasLimit = (if \<not> IsLondon config (Number parent)
                 then GasLimit parent * ElasticityMultiplier config else GasLimit parent)
           in VerifyGaslimit parentGasLimit (GasLimit header))
        else Inr ())
       (\<lambda>_. case BaseFee header of
          None \<Rightarrow> Inl (ErrMsg ''header is missing baseFee'')
        | Some fee \<Rightarrow> bindE (CalcBaseFee config parent) (\<lambda>expectedBaseFee.
            if fee \<noteq> expectedBaseFee then Inl (ErrMsg ''invalid baseFee'') else Inr ()))"

section \<open>Blob gas\<close>

text \<open>The loop of \<open>fakeExponential\<close>: \<open>accum\<close> is the next Taylor term. The arguments of the code come from
  \<open>uint64\<close> values and positive constants.\<close>

function fakeExpLoop :: "nat \<Rightarrow> nat \<Rightarrow> nat \<Rightarrow> nat \<Rightarrow> nat \<Rightarrow> nat" where
  "fakeExpLoop numerator denominator i accum output =
     (if accum > 0
      then fakeExpLoop numerator denominator (i + 1) (accum * numerator div denominator div i) (output + accum)
      else output)"
  by auto
termination
proof (relation "measures [\<lambda>(n, d, i, a, _). if d = 0 then (if a = 0 then 0 else 1) else n + 1 - i * d, \<lambda>(_, _, _, a, _). a]")
  fix n d i a out :: nat
  assume a: "0 < a"
  show "((n, d, i + 1, a * n div d div i, out + a), (n, d, i, a, out))
      \<in> measures [\<lambda>(n, d, i, a, _). if d = 0 then (if a = 0 then 0 else 1) else n + 1 - i * d, \<lambda>(_, _, _, a, _). a]"
  proof (cases "d = 0 \<or> i * d \<le> n")
    case True
    with a show ?thesis by auto
  next
    case False
    then have "a * n < a * (i * d)" using a by simp
    then have "a * n div (d * i) < a" using False a
      by (simp add: less_mult_imp_div_less mult.assoc mult.commute [of d])
    with False show ?thesis by (simp add: div_mult2_eq)
  qed
qed simp

declare fakeExpLoop.simps [simp del]

definition fakeExponential :: "nat \<Rightarrow> nat \<Rightarrow> nat \<Rightarrow> nat result" where
  "fakeExponential factor numerator denominator =
     (if denominator = 0 then Inl Panic
      else Inr (fakeExpLoop numerator denominator 1 (factor * denominator) 0 div denominator))"

definition MinBlobGasprice :: "ChainConfig \<Rightarrow> int" where
  "MinBlobGasprice config = (if Parlia config \<noteq> None then BlobTxMinBlobGaspriceForBSC else BlobTxMinBlobGasprice)"

definition blobBaseFee :: "ChainConfig \<Rightarrow> BlobConfig \<Rightarrow> u64 \<Rightarrow> nat result" where
  "blobBaseFee config bc excessBlobGas =
     fakeExponential (nat (MinBlobGasprice config)) (unat excessBlobGas) (unat (UpdateFraction bc))"

definition blobPrice :: "ChainConfig \<Rightarrow> BlobConfig \<Rightarrow> u64 \<Rightarrow> nat result" where
  "blobPrice config bc excessBlobGas =
     bindE (blobBaseFee config bc excessBlobGas) (\<lambda>f. Inr (f * unat BlobTxBlobGasPerBlob))"

definition maxBlobGas :: "BlobConfig \<Rightarrow> u64" where
  "maxBlobGas bc = word_of_int (Max bc) * BlobTxBlobGasPerBlob"

definition latestBlobConfig :: "ChainConfig \<Rightarrow> u64 \<Rightarrow> BlobConfig option" where
  "latestBlobConfig cfg time =
     (case BlobSchedule cfg of
        None \<Rightarrow> None
      | Some s \<Rightarrow>
          (let london = LondonBlock cfg in
           if IsBPO5 cfg london time \<and> BPO5Blob s \<noteq> None then BPO5Blob s
           else if IsBPO4 cfg london time \<and> BPO4Blob s \<noteq> None then BPO4Blob s
           else if IsBPO3 cfg london time \<and> BPO3Blob s \<noteq> None then BPO3Blob s
           else if IsBPO2 cfg london time \<and> BPO2Blob s \<noteq> None then BPO2Blob s
           else if IsBPO1 cfg london time \<and> BPO1Blob s \<noteq> None then BPO1Blob s
           else if IsOsaka cfg london time \<and> OsakaBlob s \<noteq> None then OsakaBlob s
           else if IsPrague cfg london time \<and> PragueBlob s \<noteq> None then PragueBlob s
           else if IsCancun cfg london time \<and> CancunBlob s \<noteq> None then CancunBlob s
           else None))"

definition IsBlobEligibleBlock :: "ChainConfig \<Rightarrow> u64 \<Rightarrow> u64 \<Rightarrow> bool" where
  "IsBlobEligibleBlock cfg blockNumber time =
     (if \<not> IsMendel cfg (LondonBlock cfg) time then True else blockNumber mod BlobEligibleBlockInterval = 0)"

text \<open>\<open>calcExcessBlobGas\<close>: a parent with excess but without used blob gas is a nil dereference; so is a missing
  configuration. The scaled excess divides by \<open>bcfg.Max\<close>.\<close>

definition scaledExcess :: "BlobConfig \<Rightarrow> u64 \<Rightarrow> u64 \<Rightarrow> u64 result" where
  "scaledExcess bcfg parentExcessBlobGas parentBlobGasUsed =
     bindE (divC (parentBlobGasUsed * word_of_int (Max bcfg - Target bcfg)) (word_of_int (Max bcfg)))
       (\<lambda>scaled. Inr (parentExcessBlobGas + scaled))"

definition calcExcessBlobGas :: "ChainConfig \<Rightarrow> bool \<Rightarrow> BlobConfig \<Rightarrow> Header \<Rightarrow> u64 result" where
  "calcExcessBlobGas config eip7918 bcfg parent =
     bindE (case ExcessBlobGas parent of
         None \<Rightarrow> Inr (0, 0)
       | Some e \<Rightarrow> (case BlobGasUsed parent of None \<Rightarrow> Inl Panic | Some b \<Rightarrow> Inr (e, b)))
     (\<lambda>(parentExcessBlobGas, parentBlobGasUsed).
       let excessBlobGas = parentExcessBlobGas + parentBlobGasUsed;
           targetGas = word_of_int (Target bcfg) * BlobTxBlobGasPerBlob in
       if excessBlobGas < targetGas then Inr 0
       else if eip7918 then
         (case BaseFee parent of
            None \<Rightarrow> Inl Panic
          | Some fee \<Rightarrow> bindE (blobPrice config bcfg parentExcessBlobGas) (\<lambda>price.
              if BlobBaseCost * fee > int price then scaledExcess bcfg parentExcessBlobGas parentBlobGasUsed
              else Inr (excessBlobGas - targetGas)))
       else Inr (excessBlobGas - targetGas))"

definition CalcExcessBlobGas :: "ChainConfig \<Rightarrow> Header \<Rightarrow> u64 \<Rightarrow> u64 result" where
  "CalcExcessBlobGas config parent headTimestamp =
     (let eip7918 = IsOsaka config (LondonBlock config) headTimestamp \<and> IsNotInBSC config in
      if IsMendel config (LondonBlock config) headTimestamp \<and> numOf parent mod BlobEligibleBlockInterval \<noteq> 0
      then (case ExcessBlobGas parent of Some e \<Rightarrow> Inr e | None \<Rightarrow> Inr 0)
      else (case latestBlobConfig config headTimestamp of
          None \<Rightarrow> Inl Panic
        | Some bcfg \<Rightarrow> calcExcessBlobGas config eip7918 bcfg parent))"

definition VerifyEIP4844Header :: "ChainConfig \<Rightarrow> Header \<Rightarrow> Header \<Rightarrow> unit result" where
  "VerifyEIP4844Header config parent header =
     (if numOf header \<noteq> numOf parent + 1 then Inl Panic
      else (case latestBlobConfig config (Time header) of
          None \<Rightarrow> Inl Panic
        | Some bcfg \<Rightarrow>
            (case ExcessBlobGas header of
               None \<Rightarrow> Inl (ErrMsg ''header is missing excessBlobGas'')
             | Some excess \<Rightarrow>
                 (case BlobGasUsed header of
                    None \<Rightarrow> Inl (ErrMsg ''header is missing blobGasUsed'')
                  | Some used \<Rightarrow>
                      if \<not> IsBlobEligibleBlock config (numOf header) (Time header) \<and> used \<noteq> 0
                      then Inl (ErrMsg ''blob transactions not allowed in block'')
                      else if used > maxBlobGas bcfg then Inl (ErrMsg ''blob gas used exceeds maximum allowance'')
                      else if used mod BlobTxBlobGasPerBlob \<noteq> 0
                      then Inl (ErrMsg ''blob gas used not a multiple of blob gas per blob'')
                      else bindE (CalcExcessBlobGas config parent (Time header)) (\<lambda>expectedExcessBlobGas.
                        if excess \<noteq> expectedExcessBlobGas then Inl (ErrMsg ''invalid excessBlobGas'') else Inr ())))))"

definition CalcBlobFee :: "ChainConfig \<Rightarrow> Header \<Rightarrow> nat result" where
  "CalcBlobFee config header =
     (case latestBlobConfig config (Time header) of
        None \<Rightarrow> Inl Panic
      | Some bcfg \<Rightarrow>
          (case ExcessBlobGas header of None \<Rightarrow> Inl Panic | Some excess \<Rightarrow> blobBaseFee config bcfg excess))"

definition MaxBlobsPerBlock :: "ChainConfig \<Rightarrow> u64 \<Rightarrow> int" where
  "MaxBlobsPerBlock cfg time = (case latestBlobConfig cfg time of None \<Rightarrow> 0 | Some bc \<Rightarrow> Max bc)"

definition MaxBlobGasPerBlock :: "ChainConfig \<Rightarrow> u64 \<Rightarrow> u64" where
  "MaxBlobGasPerBlock cfg time = word_of_int (MaxBlobsPerBlock cfg time) * BlobTxBlobGasPerBlob"

definition LatestMaxBlobsPerBlock :: "ChainConfig \<Rightarrow> int" where
  "LatestMaxBlobsPerBlock cfg = (case latestBlobConfig cfg (- 1) of None \<Rightarrow> 0 | Some bc \<Rightarrow> Max bc)"

section \<open>Bounds\<close>

subsection \<open>Gas limit\<close>

lemma signed_small: "- (2 ^ 63) \<le> k \<Longrightarrow> k < 2 ^ 63 \<Longrightarrow> signed_take_bit 63 k = (k :: int)"
  by (rule signed_take_bit_int_eq_self)

lemma sint_diff_small:
  assumes "uint (a :: u64) < 2 ^ 63" "uint b < 2 ^ 63"
  shows "sint (a - b) = uint a - uint b"
proof -
  have pos: "0 \<le> uint a" "0 \<le> uint b" by simp_all
  have "signed_take_bit 63 (uint a) = uint a" "signed_take_bit 63 (uint b) = uint b"
    "signed_take_bit 63 (uint a - uint b) = uint a - uint b"
    using assms pos by (intro signed_small; linarith)+
  then show ?thesis unfolding sint_word_diff by (simp add: sint_uint)
qed

lemma uint_absDiff:
  assumes "uint a < 2 ^ 63" "uint b < 2 ^ 63"
  shows "uint (absDiff a b) = \<bar>uint a - uint b\<bar>"
proof (cases "a < b")
  case True
  then have "uint (b - a) = uint b - uint a" by (intro uint_minus_simple_alt [THEN iffD1]) simp
  with True show ?thesis
    by (simp add: absDiff_def sint_diff_small [OF assms] word_less_def)
next
  case False
  then have "uint (a - b) = uint a - uint b" by (intro uint_minus_simple_alt [THEN iffD1]) simp
  with False show ?thesis
    by (simp add: absDiff_def sint_diff_small [OF assms] word_less_def)
qed

lemma gas_limit_step:
  assumes "VerifyGaslimit a b = Inr ()" "uint a < 2 ^ 63" "uint b < 2 ^ 63"
  shows "\<bar>uint a - uint b\<bar> < uint a div 1024 \<and> 5000 \<le> uint b"
  using assms uint_absDiff [OF assms(2,3)]
  by (auto simp: VerifyGaslimit_def params_consts word_le_def word_less_def uint_div split: if_splits)

subsection \<open>Base fee\<close>

lemma mult_div_le:
  assumes "d \<le> t" "0 < t" "0 \<le> b"
  shows "d * b div t \<le> (b :: int)"
  using zdiv_mono1 [of "d * b" "t * b" t] assms by (simp add: mult_right_mono)

lemma mult_div_Suc_le:
  assumes "d \<le> t + 1" "0 < t" "0 \<le> b"
  shows "d * b div t \<le> (b :: int) + b div t"
proof -
  have "d * b \<le> b * t + b" using mult_right_mono [OF assms(1,3)] by (simp add: algebra_simps)
  then have "d * b div t \<le> (b * t + b) div t" using assms(2) by (rule zdiv_mono1)
  with assms(2) show ?thesis by simp
qed

lemma base_fee_up:
  assumes c: "IsLondon c (Number p)" "CalcBaseFee c p = Inr f" "BaseFee p = Some b"
    and used: "GasUsed p \<le> GasLimit p" "GasUsed p > GasLimit p div 2" and b: "8 \<le> b"
  shows "b < f \<and> f \<le> b + (b + b div uint (GasLimit p div 2)) div 8"
proof -
  define t where "t = uint (GasLimit p div 2)"
  have t0: "GasLimit p div 2 \<noteq> 0" using c used(2)
    by (auto simp: CalcBaseFee_def ElasticityMultiplier_def params_consts split: if_splits)
  then have t: "0 < t" "t = uint (GasLimit p) div 2"
    by (simp_all add: t_def uint_div word_neq_0_conv word_less_def)
  define num where "num = uint (GasUsed p - GasLimit p div 2) * b div t div 8"
  have d: "uint (GasUsed p - GasLimit p div 2) = uint (GasUsed p) - t"
    unfolding t_def using used(2) by (intro uint_minus_simple_alt [THEN iffD1]) simp
  with used(1) have "uint (GasUsed p - GasLimit p div 2) \<le> t + 1" by (simp add: t(2) word_le_def)
  then have "num \<le> (b + b div t) div 8"
    unfolding num_def using mult_div_Suc_le [of _ t b] t(1) b by (intro zdiv_mono1) auto
  moreover have "0 \<le> b div t" using b t(1) by (simp add: pos_imp_zdiv_nonneg_iff)
  then have "1 \<le> (b + b div t) div 8" using b zdiv_mono1 [of 8 "b + b div t" 8] by simp
  moreover have "f = (if num < 1 then b + 1 else b + num)"
    using c used(2) t0 by (simp add: CalcBaseFee_def ElasticityMultiplier_def BaseFeeChangeDenominator_def params_consts
        num_def t_def Let_def split: if_splits)
  ultimately show ?thesis unfolding t_def by (auto split: if_splits)
qed

lemma base_fee_down:
  assumes c: "Parlia c \<noteq> None" "IsLondon c (Number p)" "CalcBaseFee c p = Inr f" "BaseFee p = Some b"
    and used: "GasUsed p < GasLimit p div 2" and b: "InitialBaseFeeForBSC \<le> b"
  shows "InitialBaseFeeForBSC \<le> f \<and> b - b div 8 \<le> f \<and> f \<le> b"
proof -
  define t where "t = uint (GasLimit p div 2)"
  have t: "0 < t" using used by (simp add: t_def word_less_def) (metis le_less_trans uint_ge_0)
  have b0: "0 \<le> b" using b by (simp add: params_consts)
  define num where "num = uint (GasLimit p div 2 - GasUsed p) * b div t div 8"
  have "uint (GasLimit p div 2 - GasUsed p) = t - uint (GasUsed p)"
    unfolding t_def using used by (intro uint_minus_simple_alt [THEN iffD1]) simp
  then have "uint (GasLimit p div 2 - GasUsed p) \<le> t" by simp
  then have "num \<le> b div 8" unfolding num_def using mult_div_le [OF _ t b0] by (intro zdiv_mono1) auto
  moreover have "0 \<le> num" unfolding num_def using t b0 by (simp add: pos_imp_zdiv_nonneg_iff)
  moreover have "f = (if b - num < InitialBaseFeeForBSC then InitialBaseFeeForBSC else b - num)"
    using c used by (auto simp: CalcBaseFee_def ElasticityMultiplier_def BaseFeeChangeDenominator_def params_consts
        num_def t_def Let_def split: if_splits)
  ultimately show ?thesis using b by auto
qed

lemma base_fee_step:
  assumes c: "Parlia c \<noteq> None" "IsLondon c (Number p)" "CalcBaseFee c p = Inr f" "BaseFee p = Some b"
    and b: "InitialBaseFeeForBSC \<le> b" and used: "GasUsed p \<le> GasLimit p"
  shows "InitialBaseFeeForBSC \<le> f \<and> b - b div 8 \<le> f \<and> f \<le> b + (b + b div uint (GasLimit p div 2)) div 8"
proof -
  have b8: "8 \<le> b" using b by (simp add: params_consts)
  have pos: "0 \<le> (b + b div uint (GasLimit p div 2)) div 8" "0 \<le> b div 8"
    using b8 by (simp_all add: pos_imp_zdiv_nonneg_iff div_int_pos_iff)
  consider (eq) "GasUsed p = GasLimit p div 2" | (up) "GasUsed p > GasLimit p div 2" | (down) "GasUsed p < GasLimit p div 2"
    by fastforce
  then show ?thesis
  proof cases
    case eq
    with c have "f = b" by (simp add: CalcBaseFee_def ElasticityMultiplier_def params_consts)
    with b pos show ?thesis by simp
  next
    case up
    with base_fee_up [OF c(2-4) used up b8] b pos show ?thesis by auto
  next
    case down
    with base_fee_down [OF c down b] pos show ?thesis by auto
  qed
qed

subsection \<open>The exponential\<close>

lemma fakeExpLoop_0 [simp]: "fakeExpLoop n d i 0 out = out"
  by (simp add: fakeExpLoop.simps)

lemma fakeExpLoop_pos:
  "a \<noteq> 0 \<Longrightarrow> fakeExpLoop n d i a out = fakeExpLoop n d (Suc i) (a * n div d div i) (out + a)"
  by (subst fakeExpLoop.simps) simp

lemma fakeExpLoop_ge: "out + a \<le> fakeExpLoop n d i a out"
proof (induction n d i a out rule: fakeExpLoop.induct)
  case (1 n d i a out)
  then show ?case by (cases "a = 0") (simp_all add: fakeExpLoop_pos [of a] add_leD1)
qed

lemma fakeExpLoop_mono:
  "n \<le> n' \<Longrightarrow> a \<le> a' \<Longrightarrow> out \<le> out' \<Longrightarrow> fakeExpLoop n d i a out \<le> fakeExpLoop n' d i a' out'"
proof (induction n d i a out arbitrary: a' out' rule: fakeExpLoop.induct)
  case (1 n d i a out)
  show ?case
  proof (cases "a = 0")
    case True
    then show ?thesis using 1(4) fakeExpLoop_ge [of out' a' n' d i] by simp
  next
    case False
    have "a * n div d div i \<le> a' * n' div d div i"
      using 1(2,3) by (intro div_le_mono mult_mono) auto
    with 1(1) [of "a' * n' div d div i" "out' + a'"] 1(2-4) False show ?thesis
      by (simp add: fakeExpLoop_pos [of a] fakeExpLoop_pos [of a'])
  qed
qed

lemma exp_partial_sum:
  assumes "0 \<le> (x :: real)"
  shows "(\<Sum>k<m. x ^ k / fact k) \<le> exp x"
proof -
  have "(\<Sum>k<m. x ^ k /\<^sub>R fact k) \<le> (\<Sum>k. x ^ k /\<^sub>R fact k)"
    using assms by (intro sum_le_suminf summable_exp_generic) auto
  then show ?thesis by (simp add: exp_def divide_inverse mult.commute)
qed

lemma fakeExpLoop_le_exp:
  assumes "0 < d" "x = real n / real d" "real a \<le> c * (x ^ i / fact i)" "real out \<le> c * (\<Sum>k<i. x ^ k / fact k)" "0 \<le> c"
  shows "real (fakeExpLoop n d (Suc i) a out) \<le> c * exp x"
  using assms
proof (induction n d "Suc i" a out arbitrary: i rule: fakeExpLoop.induct)
  case (1 n d a out)
  show ?case
  proof (cases "a = 0")
    case True
    have "c * (\<Sum>k<i. x ^ k / fact k) \<le> c * exp x"
      using exp_partial_sum [of x i] "1.prems"(2,5) by (intro mult_left_mono) auto
    with True "1.prems"(4) show ?thesis by simp
  next
    case False
    have "real (a * n div d div Suc i) \<le> real (a * n div d) / real (Suc i)"
      by (rule of_nat_div_le_of_nat)
    also have "\<dots> \<le> real a * x / real (Suc i)"
      using of_nat_div_le_of_nat [of "a * n" d] "1.prems"(2) by (intro divide_right_mono) auto
    also have "\<dots> \<le> c * (x ^ i / fact i) * x / real (Suc i)"
      using "1.prems"(2,3) by (intro divide_right_mono mult_right_mono) auto
    also have "\<dots> = c * (x ^ Suc i / fact (Suc i))" by (simp add: mult.assoc mult.commute mult.left_commute)
    finally have "real (a * n div d div Suc i) \<le> c * (x ^ Suc i / fact (Suc i))" .
    moreover have "real (out + a) \<le> c * (\<Sum>k<Suc i. x ^ k / fact k)"
      using "1.prems"(3,4) by (simp add: distrib_left)
    ultimately show ?thesis using "1.hyps" [of "Suc i"] "1.prems"(1,2,5) False
      by (simp add: fakeExpLoop_pos [of a])
  qed
qed

lemma fakeExponential_bounds:
  assumes "0 < d"
  shows "\<exists>r. fakeExponential f n d = Inr r \<and> f \<le> r \<and> real r \<le> real f * exp (real n / real d)"
proof -
  define L where "L = fakeExpLoop n d 1 (f * d) 0"
  have "real L \<le> real (f * d) * exp (real n / real d)"
    unfolding L_def One_nat_def using assms by (intro fakeExpLoop_le_exp) auto
  then have "real L / real d \<le> real f * exp (real n / real d)"
    using assms by (simp add: pos_divide_le_eq ac_simps)
  then have "real (L div d) \<le> real f * exp (real n / real d)"
    using of_nat_div_le_of_nat [of L d, where ?'a = real] by linarith
  moreover have "f \<le> L div d"
    using fakeExpLoop_ge [of 0 "f * d" n d 1] assms div_le_mono [of "f * d" L d] by (simp add: L_def)
  ultimately show ?thesis using assms by (simp add: fakeExponential_def L_def)
qed

lemma fakeExponential_mono:
  assumes "fakeExponential f n d = Inr r" "fakeExponential f n' d = Inr r'" "n \<le> n'"
  shows "r \<le> r'"
  using assms fakeExpLoop_mono [of n n' "f * d" "f * d" 0 0 d 1]
  by (auto simp: fakeExponential_def div_le_mono split: if_splits)

section \<open>Properties\<close>

text \<open>C25. The base fee policy of a Parlia chain. A header accepted after its parent carries a base fee of at least
  the initial base fee; the first London block carries exactly that fee; and afterwards one block lowers the fee
  by at most an eighth and raises it by at most an eighth (plus the rounding of an odd gas limit).\<close>

theorem base_fee_policy:
  assumes "Parlia c \<noteq> None" "VerifyEIP1559Header c parent header = Inr ()"
    and "IsLondon c (Number parent) \<Longrightarrow> BaseFee parent = Some b \<and> InitialBaseFeeForBSC \<le> b"
    and "GasUsed parent \<le> GasLimit parent"
  shows "\<exists>f. BaseFee header = Some f \<and> InitialBaseFeeForBSC \<le> f \<and>
    (\<not> IsLondon c (Number parent) \<longrightarrow> f = InitialBaseFeeForBSC) \<and>
    (IsLondon c (Number parent) \<longrightarrow>
      b - b div 8 \<le> f \<and> f \<le> b + (b + b div uint (GasLimit parent div 2)) div 8)"
proof -
  obtain f where f: "BaseFee header = Some f" "CalcBaseFee c parent = Inr f"
    using assms(2) by (auto simp: VerifyEIP1559Header_def bindE_eq_Inr split: option.splits if_splits)
  show ?thesis
  proof (cases "IsLondon c (Number parent)")
    case True
    with f assms base_fee_step [OF assms(1) True f(2)] show ?thesis by auto
  next
    case False
    with f assms(1) show ?thesis by (auto simp: CalcBaseFee_def)
  qed
qed

text \<open>A header with the fields that the fee rules read.\<close>

definition feeHeader :: "int \<Rightarrow> u64 \<Rightarrow> u64 \<Rightarrow> int \<Rightarrow> Header" where
  "feeHeader number limit used fee =
     \<lparr> ParentHash = 0, UncleHash = 0, Coinbase = 0, Root = 0, TxHash = 0, ReceiptHash = 0, Bloom = [],
       Difficulty = Some 2, Number = Some number, GasLimit = limit, GasUsed = used, Time = 0, Extra = [],
       MixDigest = 0, Nonce = 0, BaseFee = Some fee, WithdrawalsHash = None, BlobGasUsed = None,
       ExcessBlobGas = None, ParentBeaconRoot = None, RequestsHash = None \<rparr>"

theorem base_fee_policy_witness:
  "\<exists>f. BaseFee (feeHeader 11 30000000 0 3375000000000) = Some f \<and> InitialBaseFeeForBSC \<le> f \<and>
    3000000000000 - 3000000000000 div 8 \<le> f \<and>
    f \<le> 3000000000000 + (3000000000000 + 3000000000000 div uint ((30000000 :: u64) div 2)) div 8"
  using base_fee_policy [of "zeroChainConfig\<lparr> LondonBlock := Some 0, Parlia := Some \<lparr> Period = 3, Epoch = 200 \<rparr> \<rparr>"
      "feeHeader 10 30000000 30000000 3000000000000" "feeHeader 11 30000000 0 3375000000000" 3000000000000]
  by (simp add: feeHeader_def VerifyEIP1559Header_def CalcBaseFee_def IsNotInBSC_def IsLondon_def isBlockForked_def
      zeroChainConfig_def ElasticityMultiplier_def BaseFeeChangeDenominator_def params_consts uint_div)

text \<open>C26. The blob fee, computed from the excess blob gas by \<open>fakeExponential\<close>: the loop ends and gives a fee for
  every non-zero update fraction, the fee is at least the minimum price of the chain, it is at most
  the exponential that it approximates, and a larger excess never gives a smaller fee.\<close>

theorem blob_fee_bounds:
  assumes "UpdateFraction bc \<noteq> 0" "e \<le> e'"
  shows "\<exists>fee fee'. blobBaseFee config bc e = Inr fee \<and> blobBaseFee config bc e' = Inr fee' \<and>
    MinBlobGasprice config \<le> int fee \<and> fee \<le> fee' \<and>
    real fee \<le> MinBlobGasprice config * exp (real (unat e) / real (unat (UpdateFraction bc)))"
proof -
  have d: "0 < unat (UpdateFraction bc)" using assms(1) by (simp add: unat_gt_0)
  have min: "0 \<le> MinBlobGasprice config" by (simp add: MinBlobGasprice_def params_consts)
  obtain fee where fee: "blobBaseFee config bc e = Inr fee" "nat (MinBlobGasprice config) \<le> fee"
    "real fee \<le> real (nat (MinBlobGasprice config)) * exp (real (unat e) / real (unat (UpdateFraction bc)))"
    unfolding blobBaseFee_def using fakeExponential_bounds [OF d] by blast
  obtain fee' where fee': "blobBaseFee config bc e' = Inr fee'"
    unfolding blobBaseFee_def using fakeExponential_bounds [OF d] by blast
  have "fee \<le> fee'"
    using fakeExponential_mono [OF fee(1) [unfolded blobBaseFee_def] fee' [unfolded blobBaseFee_def]] assms(2)
    by (simp add: word_le_nat_alt)
  with fee fee' min show ?thesis by auto
qed

theorem blob_fee_bounds_witness:
  "\<exists>fee fee'. blobBaseFee MainnetChainConfig DefaultCancunBlobConfig 0 = Inr fee \<and>
    blobBaseFee MainnetChainConfig DefaultCancunBlobConfig 131072 = Inr fee' \<and> fee \<le> fee' \<and> 1 \<le> fee"
  using blob_fee_bounds [of DefaultCancunBlobConfig 0 131072 MainnetChainConfig]
  by (simp add: DefaultCancunBlobConfig_def MinBlobGasprice_def MainnetChainConfig_def zeroChainConfig_def params_consts)
    fastforce

end
