(* ===== verification/Engine.thy ===== *)
theory Engine
  imports Timing Sig_Cache Header_Rules
begin

text \<open>
  The Parlia engine (\<open>consensus/parlia/parlia.go\<close>): its caches, the reconstruction of a snapshot from the
  caches, the database and the headers of the chain, and the verification of headers, attestations and seals.

  \<open>Parlia\<close> of the code is split: \<open>Engine\<close> holds what does not change (configuration, signing address, vote
  pool, clock and randomness), \<open>EngineState\<close> what the operations update: the three LRU caches, the snapshots
  in the database and the double-sign counter. The caches hold pointers to snapshots, and two operations write
  through them: \<open>apply\<close> sets a flag of its receiver, and \<open>snapshot\<close> changes the snapshot it has just put into the cache;
  both writes are made in the cache entry here. The key of the double-sign cache is the concatenation of two
  hexadecimal strings of fixed length in the code and a pair here. Writing to the database does not fail.
\<close>

section \<open>State\<close>

definition inMemorySnapshots :: int where "inMemorySnapshots = 1280"
definition inMemorySignatures :: int where "inMemorySignatures = 4096"
definition inMemoryHeaders :: int where "inMemoryHeaders = 86400"
definition checkpointInterval :: u64 where "checkpointInterval = 1024"
definition gasLimitBoundDivisorBeforeLorentz :: u64 where "gasLimitBoundDivisorBeforeLorentz = 256"
definition MaxAttestationExtraLength :: nat where "MaxAttestationExtraLength = 256"

record Engine =
  chainConfig :: ChainConfig
  defaultEpochLength :: u64
  genesisHash :: hash
  val :: address
  fakeDiff :: bool
  VotePool :: "(hash \<Rightarrow> u64 \<Rightarrow> VoteEnvelope list) option"
  rand :: draws

record EngineState =
  recentSnaps :: "(hash, Snapshot) lru"
  signatures :: sigCache
  recentHeaders :: "(hash \<times> address, hash) lru"
  db :: "hash \<Rightarrow> Snapshot option"
  doubleSigns :: nat

type_synonym 'a engine_act = "(EngineState, parlia_error, 'a) act"

text \<open>\<open>New\<close>: the default epoch length becomes the one of the configuration; a missing Parlia configuration
  is a nil dereference.\<close>

definition NewEngine :: "ChainConfig \<Rightarrow> hash \<Rightarrow> draws \<Rightarrow> Engine result" where
  "NewEngine cfg genesis draw = (case Parlia cfg of
       None \<Rightarrow> Inl Panic
     | Some parliaConfig \<Rightarrow> Inr \<lparr> chainConfig = cfg, defaultEpochLength = Epoch parliaConfig, genesisHash = genesis,
         val = 0, fakeDiff = False, VotePool = None, rand = draw \<rparr>)"

definition NewState :: "(hash \<Rightarrow> Snapshot option) \<Rightarrow> EngineState" where
  "NewState d = \<lparr> recentSnaps = NewBasicLRU inMemorySnapshots, signatures = NewBasicLRU inMemorySignatures,
     recentHeaders = NewBasicLRU inMemoryHeaders, db = d, doubleSigns = 0 \<rparr>"

text \<open>A step on the signature cache as a step of the engine.\<close>

definition onSignatures :: "(sigCache, parlia_error, 'a) act \<Rightarrow> 'a engine_act" where
  "onSignatures m st = (case m (signatures st) of (r, c) \<Rightarrow> (r, st\<lparr> signatures := c \<rparr>))"

text \<open>A caller that replaces the error of a call by its own; a panic is not an error value.\<close>

definition replaceError :: "parlia_error \<Rightarrow> 'a engine_act \<Rightarrow> 'a engine_act" where
  "replaceError e' m st = (case m st of
       (Inl e, st') \<Rightarrow> (Inl (if e = Panic \<or> e = NoReturn then e else e'), st')
     | (Inr a, st') \<Rightarrow> (Inr a, st'))"

section \<open>Ancestors\<close>

definition getParent :: "crypto \<Rightarrow> chain_reader \<Rightarrow> Header \<Rightarrow> Header list \<Rightarrow> Header result" where
  "getParent C chain header parents =
     (let number = numOf header;
          parent = (if parents \<noteq> [] then Some (last parents) else GetHeader chain (ParentHash header) (number - 1)) in
      case parent of
        None \<Rightarrow> Inl ErrUnknownAncestor
      | Some parent \<Rightarrow>
          if numOf parent \<noteq> number - 1 \<or> Hash C parent \<noteq> ParentHash header then Inl ErrUnknownAncestor
          else Inr parent)"

definition trimParents :: "Header list \<Rightarrow> Header list" where
  "trimParents parents = (if length parents > 1 then butlast parents else [])"

section \<open>Snapshots\<close>

text \<open>A trusted checkpoint: the genesis block, or a block \<open>offset\<close> after the start of an epoch.\<close>

definition checkpointOffset :: u64 where "checkpointOffset = 200"

definition isCheckpoint :: "u64 \<Rightarrow> nat \<Rightarrow> bool" where
  "isCheckpoint number headers \<longleftrightarrow>
     number = 0 \<or> (number mod maxwellEpochLength = checkpointOffset \<and> headers > FullImmutabilityThreshold)"

definition checkpointInfo :: "crypto \<Rightarrow> Engine \<Rightarrow> chain_reader \<Rightarrow> u64 \<Rightarrow> Header option \<times> hash \<times> u64 \<times> u64" where
  "checkpointInfo C p chain number =
     (if number = 0 then
        (case GetHeaderByNumber chain 0 of
           None \<Rightarrow> (None, 0, defaultBlockInterval, defaultEpochLength p)
         | Some checkpoint \<Rightarrow> (Some checkpoint, Hash C checkpoint, defaultBlockInterval, defaultEpochLength p))
      else
        (let checkpoint = GetHeaderByNumber chain (number - checkpointOffset);
             (blockHash, blockInterval) = (case GetHeaderByNumber chain number of
                 None \<Rightarrow> (0, defaultBlockInterval)
               | Some b \<Rightarrow> (Hash C b,
                   if IsFermi (chainConfig p) (Number b) (Time b) then fermiBlockInterval
                   else if IsMaxwell (chainConfig p) (Number b) (Time b) then maxwellBlockInterval
                   else if IsLorentz (chainConfig p) (Number b) (Time b) then lorentzBlockInterval
                   else defaultBlockInterval));
             epochLength = (if number > checkpointOffset then
                 (case GetHeaderByNumber chain (number - checkpointOffset - 1) of
                    None \<Rightarrow> defaultEpochLength p
                  | Some b \<Rightarrow>
                      if IsMaxwell (chainConfig p) (Number b) (Time b) then maxwellEpochLength
                      else if IsLorentz (chainConfig p) (Number b) (Time b) then lorentzEpochLength
                      else defaultEpochLength p)
               else defaultEpochLength p)
         in (checkpoint, blockHash, blockInterval, epochLength)))"

definition checkpointSnapshot :: "crypto \<Rightarrow> Engine \<Rightarrow> chain_reader \<Rightarrow> u64 \<Rightarrow> bool \<Rightarrow> Snapshot option result" where
  "checkpointSnapshot C p chain number isSnake8Fork =
     (case checkpointInfo C p chain number of
        (Some checkpoint, blockHash, blockInterval, epochLength) \<Rightarrow>
          if blockHash = 0 then Inr None
          else bindE (parseValidators checkpoint (chainConfig p) epochLength) (\<lambda>(vals, voteAddrs).
            let snap = newSnapshot (defaultEpochLength p) number blockHash vals voteAddrs isSnake8Fork in
            bindE (parseTurnLength checkpoint (chainConfig p) epochLength) (\<lambda>turnLength.
              let snap = (case turnLength of None \<Rightarrow> snap | Some t \<Rightarrow> snap\<lparr> TurnLength := t \<rparr>) in
              Inr (Some (snap\<lparr> BlockInterval := blockInterval, EpochLength := epochLength \<rparr>))))
      | (None, _) \<Rightarrow> Inr None)"

text \<open>The header at \<open>hash\<close>: the last explicit parent, if any is left, else from the chain.\<close>

definition gatherHeader :: "crypto \<Rightarrow> chain_reader \<Rightarrow> u64 \<Rightarrow> hash \<Rightarrow> Header list \<Rightarrow> (Header \<times> Header list) result" where
  "gatherHeader C chain number hash parents =
     (if parents \<noteq> [] then
        (let header = last parents in
         if Hash C header \<noteq> hash \<or> numOf header \<noteq> number then Inl ErrUnknownAncestor
         else Inr (header, butlast parents))
      else (case GetHeader chain hash number of
          None \<Rightarrow> Inl ErrUnknownAncestor
        | Some header \<Rightarrow> Inr (header, [])))"

text \<open>The backward search for a snapshot. The headers passed on the way are collected in ascending order, the
  order after the reversal of the code. The first component of the result is the key of the cache entry that
  was found, \<open>None\<close> for a snapshot that is not in the cache. The search goes down one block per round, so
  \<open>number + 1\<close> rounds reach the genesis block.\<close>

fun findSnapshot ::
  "crypto \<Rightarrow> Engine \<Rightarrow> chain_reader \<Rightarrow> bool \<Rightarrow> nat \<Rightarrow> u64 \<Rightarrow> hash \<Rightarrow> Header list \<Rightarrow> Header list \<Rightarrow>
   (hash option \<times> Snapshot \<times> Header list \<times> Header list) engine_act" where
  "findSnapshot C p chain isSnake8Fork 0 number hash parents headers st = (Inl NoReturn, st)"
| "findSnapshot C p chain isSnake8Fork (Suc fuel) number hash parents headers st =
     (case Get hash (recentSnaps st) of
        (Some s, c) \<Rightarrow> (Inr (Some hash, s, headers, parents), st\<lparr> recentSnaps := c \<rparr>)
      | (None, c) \<Rightarrow>
          (case (if number mod checkpointInterval = 0
                 then loadSnapshot (defaultEpochLength p) (db st) hash isSnake8Fork else Inl errNotFound) of
             Inr s \<Rightarrow> (Inr (None, s, headers, parents), st)
           | Inl _ \<Rightarrow>
               (case (if isCheckpoint number (length headers)
                      then checkpointSnapshot C p chain number isSnake8Fork else Inr None) of
                  Inl e \<Rightarrow> (Inl e, st)
                | Inr (Some s) \<Rightarrow> (Inr (None, s, headers, parents), st\<lparr> db := store s (db st) \<rparr>)
                | Inr None \<Rightarrow>
                    (case gatherHeader C chain number hash parents of
                       Inl e \<Rightarrow> (Inl e, st)
                     | Inr (header, parents') \<Rightarrow>
                         findSnapshot C p chain isSnake8Fork fuel (number - 1) (ParentHash header) parents'
                           (header # headers) st))))"

text \<open>A write through the pointer that the cache holds under \<open>key\<close>.\<close>

definition writeCached :: "hash \<Rightarrow> (Snapshot \<Rightarrow> Snapshot) \<Rightarrow> EngineState \<Rightarrow> EngineState" where
  "writeCached key f st = st\<lparr> recentSnaps := (recentSnaps st)\<lparr> items :=
     map (\<lambda>(k, s). (k, if k = key then f s else s)) (items (recentSnaps st)) \<rparr> \<rparr>"

definition markReceiver :: "hash option \<Rightarrow> bool \<Rightarrow> EngineState \<Rightarrow> EngineState" where
  "markReceiver key isSnake8Fork st = (case key of
       None \<Rightarrow> st | Some k \<Rightarrow> writeCached k (\<lambda>s. s\<lparr> IsSnake8Fork := isSnake8Fork \<rparr>) st)"

text \<open>What \<open>snapshot\<close> does to its result from Snake8 on.\<close>

definition populateFrequency :: "Engine \<Rightarrow> bool \<Rightarrow> Header option \<Rightarrow> Snapshot \<Rightarrow> Snapshot result" where
  "populateFrequency p isSnake8Fork extraHeader snap =
     (if \<not> isSnake8Fork then Inr snap
      else (case extraHeader of
          None \<Rightarrow> Inr (snap\<lparr> TurnLength := 50 \<rparr>)
        | Some h \<Rightarrow>
            (case parseValidatorFrequencies h (chainConfig p) of
               Inr freq \<Rightarrow> Inr (snap\<lparr> FrequencyRLP := freq, TurnLength := 50 \<rparr>)
             | Inl Panic \<Rightarrow> Inl Panic
             | Inl _ \<Rightarrow> Inr (snap\<lparr> TurnLength := 50 \<rparr>))))"

definition keepSnapshot :: "Engine \<Rightarrow> bool \<Rightarrow> Header option \<Rightarrow> nat \<Rightarrow> Snapshot \<Rightarrow> Snapshot engine_act" where
  "keepSnapshot p isSnake8Fork extraHeader applied snap st =
     (let st = st\<lparr> recentSnaps := snd (Add (sHash snap) snap (recentSnaps st)) \<rparr> in
      case populateFrequency p isSnake8Fork extraHeader snap of
        Inl e \<Rightarrow> (Inl e, st)
      | Inr snap \<Rightarrow>
          (let st = writeCached (sHash snap) (\<lambda>_. snap) st;
               st = (if sNumber snap mod checkpointInterval = 0 \<and> applied > 0
                     then st\<lparr> db := store snap (db st) \<rparr> else st)
           in (Inr snap, st)))"

definition snapshot ::
  "crypto \<Rightarrow> Engine \<Rightarrow> chain_reader \<Rightarrow> u64 \<Rightarrow> hash \<Rightarrow> Header list \<Rightarrow> bool \<Rightarrow> Header option \<Rightarrow> Snapshot engine_act" where
  "snapshot C p chain number hash parents isSnake8Fork extraHeader =
     bindA (findSnapshot C p chain isSnake8Fork (unat number + 1) number hash parents []) (\<lambda>(key, s, headers, rest) st.
       bindA (onSignatures (apply_snap C (defaultEpochLength p) (chainConfig p) chain rest isSnake8Fork headers s))
         (keepSnapshot p isSnake8Fork extraHeader (length headers)) (markReceiver key isSnake8Fork st))"

text \<open>The snapshot that \<open>header\<close> is checked against: that of its parent.\<close>

definition parentSnapshot ::
  "crypto \<Rightarrow> Engine \<Rightarrow> chain_reader \<Rightarrow> Header \<Rightarrow> Header list \<Rightarrow> Header option \<Rightarrow> Snapshot engine_act" where
  "parentSnapshot C p chain header parents extraHeader =
     bindA (liftA (isSnake8Enabled (chainConfig p) chain header)) (\<lambda>isSnake8.
       snapshot C p chain (numOf header - 1) (ParentHash header) parents isSnake8 extraHeader)"

text \<open>The snapshot after \<open>header\<close>.\<close>

definition headSnapshot :: "crypto \<Rightarrow> Engine \<Rightarrow> chain_reader \<Rightarrow> Header \<Rightarrow> Header list \<Rightarrow> Snapshot engine_act" where
  "headSnapshot C p chain header parents =
     bindA (liftA (isSnake8Enabled (chainConfig p) chain header)) (\<lambda>isSnake8.
       snapshot C p chain (numOf header) (Hash C header) parents isSnake8 (Some header))"

definition epochLength :: "crypto \<Rightarrow> Engine \<Rightarrow> chain_reader \<Rightarrow> Header \<Rightarrow> Header list \<Rightarrow> u64 engine_act" where
  "epochLength C p chain header parents =
     (if numOf header = 0 then retA (defaultEpochLength p)
      else bindA (parentSnapshot C p chain header parents None) (\<lambda>snap. retA (EpochLength snap)))"

definition Engine_BlockInterval :: "crypto \<Rightarrow> Engine \<Rightarrow> chain_reader \<Rightarrow> Header \<Rightarrow> u64 engine_act" where
  "Engine_BlockInterval C p chain header =
     (if numOf header = 0 then retA defaultBlockInterval
      else bindA (parentSnapshot C p chain header [] None) (\<lambda>snap. retA (BlockInterval snap)))"

section \<open>Fast finality\<close>

definition GetJustifiedNumberAndHash ::
  "crypto \<Rightarrow> Engine \<Rightarrow> chain_reader \<Rightarrow> Header list \<Rightarrow> (u64 \<times> hash) engine_act" where
  "GetJustifiedNumberAndHash C p chain headers =
     (if headers = [] then liftA (Inl (ErrMsg ''illegal chain or header''))
      else bindA (headSnapshot C p chain (last headers) headers) (\<lambda>snap.
        case Attestation snap of
          None \<Rightarrow> (case GetHeaderByNumber chain 0 of
              None \<Rightarrow> liftA (Inl Panic) | Some genesis \<Rightarrow> retA (0, Hash C genesis))
        | Some a \<Rightarrow> retA (TargetNumber a, TargetHash a)))"

text \<open>The set bits of the vote address set, and the vote addresses of the validators that they select.\<close>

definition bitCount :: "u64 \<Rightarrow> nat" where
  "bitCount w = length (filter (bit w) [0..<64])"

definition votedKeys :: "Snapshot \<Rightarrow> u64 \<Rightarrow> blskey list" where
  "votedKeys snap voteAddressSet =
     map (\<lambda>(_, v). case gm_get (Validators snap) v of Some info \<Rightarrow> InfoVoteAddress info | None \<Rightarrow> 0)
       (filter (\<lambda>(index, _). bit voteAddressSet index) (enumerate 0 (validators snap)))"

definition quorum :: "Snapshot \<Rightarrow> nat" where
  "quorum snap = CeilDiv (length (Validators snap) * 2) 3"

definition verifyQuorum :: "crypto \<Rightarrow> Snapshot \<Rightarrow> VoteAttestation \<Rightarrow> unit result" where
  "verifyQuorum C snap attestation =
     (if bitCount (VoteAddressSet attestation) > length (validators snap)
      then Inl (ErrMsg ''invalid attestation, vote number larger than validators number'')
      else
        (let votedAddrs = votedKeys snap (VoteAddressSet attestation) in
         if \<not> list_all (blsPublicKeyOK C) votedAddrs then Inl (ErrMsg ''BLS public key converts failed'')
         else if length votedAddrs < quorum snap
         then Inl (ErrMsg ''invalid attestation, not enough validators voted'')
         else if \<not> blsSignatureOK C (AggSignature attestation) then Inl (ErrMsg ''BLS signature converts failed'')
         else if \<not> FastAggregateVerify C votedAddrs (VoteData_Hash C (AttData attestation)) (AggSignature attestation)
         then Inl (ErrMsg ''invalid attestation, signature verify failed'')
         else Inr ()))"

text \<open>The search of the target among the ancestors, \<open>n\<close> generations deep.\<close>

fun matchTarget ::
  "crypto \<Rightarrow> chain_reader \<Rightarrow> VoteData \<Rightarrow> nat \<Rightarrow> Header \<Rightarrow> Header list \<Rightarrow> (Header \<times> Header list) result" where
  "matchTarget C chain d 0 ancestor ancestorParents = Inl (ErrMsg ''invalid attestation, target mismatch'')"
| "matchTarget C chain d (Suc n) ancestor ancestorParents =
     (if TargetNumber d = numOf ancestor \<and> TargetHash d = Hash C ancestor then Inr (ancestor, ancestorParents)
      else bindE (getParent C chain ancestor ancestorParents) (\<lambda>parent.
        matchTarget C chain d n parent (trimParents ancestorParents)))"

definition verifyVoteAttestation :: "crypto \<Rightarrow> Engine \<Rightarrow> chain_reader \<Rightarrow> Header \<Rightarrow> Header list \<Rightarrow> unit engine_act" where
  "verifyVoteAttestation C p chain header parents =
     bindA (epochLength C p chain header parents) (\<lambda>epoch.
     bindA (liftA (getVoteAttestationFromHeader header (Config chain) epoch)) (\<lambda>att.
     case att of
       None \<Rightarrow> retA ()
     | Some attestation \<Rightarrow>
         (case AttData attestation of
            None \<Rightarrow> liftA (Inl (ErrMsg ''invalid attestation, vote data is nil''))
          | Some d \<Rightarrow>
              if length (AttExtra attestation) > MaxAttestationExtraLength
              then liftA (Inl (ErrMsg ''invalid attestation, too large extra length''))
              else if SourceNumber d \<ge> TargetNumber d
              then liftA (Inl (ErrMsg ''invalid attestation, SourceNumber not lower than TargetNumber''))
              else
                bindA (liftA (getParent C chain header parents)) (\<lambda>parent.
                bindA (replaceError (ErrMsg ''unexpected error when getting the highest justified number and hash'')
                    (GetJustifiedNumberAndHash C p chain (if parents \<noteq> [] then parents else [parent])))
                  (\<lambda>(justifiedBlockNumber, justifiedBlockHash).
                if SourceNumber d \<noteq> justifiedBlockNumber \<or> SourceHash d \<noteq> justifiedBlockHash
                then liftA (Inl (ErrMsg ''invalid attestation, source mismatch''))
                else
                  bindA (liftA (matchTarget C chain d (GetAncestorGenerationDepth (chainConfig p) header) parent
                      (trimParents parents))) (\<lambda>(ancestor, ancestorParents).
                  bindA (parentSnapshot C p chain ancestor ancestorParents (Some ancestor)) (\<lambda>snap.
                  liftA (verifyQuorum C snap attestation))))))))"

section \<open>Verification of headers\<close>

definition proposalKey :: "Header \<Rightarrow> hash \<times> address" where
  "proposalKey header = (ParentHash header, Coinbase header)"

definition checkDoubleSign :: "crypto \<Rightarrow> Header \<Rightarrow> EngineState \<Rightarrow> EngineState" where
  "checkDoubleSign C header st =
     (case Get (proposalKey header) (recentHeaders st) of
        (preHash, c) \<Rightarrow>
          if preHash \<noteq> None \<and> preHash \<noteq> Some (Hash C header)
          then st\<lparr> recentHeaders := c, doubleSigns := doubleSigns st + 1 \<rparr>
          else st\<lparr> recentHeaders := snd (Add (proposalKey header) (Hash C header) c) \<rparr>)"

definition verifyDifficulty :: "crypto \<Rightarrow> Snapshot \<Rightarrow> address \<Rightarrow> Header \<Rightarrow> unit result" where
  "verifyDifficulty C snap signer header =
     bindE (inturn C snap signer) (\<lambda>b. case Difficulty header of
         None \<Rightarrow> Inl Panic
       | Some d \<Rightarrow>
           if b \<and> d \<noteq> diffInTurn then Inl errWrongDifficulty
           else if \<not> b \<and> d \<noteq> diffNoTurn then Inl errWrongDifficulty
           else Inr ())"

definition verifySeal :: "crypto \<Rightarrow> Engine \<Rightarrow> chain_reader \<Rightarrow> Header \<Rightarrow> Header list \<Rightarrow> unit engine_act" where
  "verifySeal C p chain header parents =
     (if numOf header = 0 then liftA (Inl errUnknownBlock)
      else
        bindA (parentSnapshot C p chain header parents (Some header)) (\<lambda>snap.
        bindA (onSignatures (ecrecover C header (ChainID (chainConfig p)))) (\<lambda>signer.
        if signer \<noteq> Coinbase header then liftA (Inl errCoinBaseMisMatch)
        else (\<lambda>st.
          ((if gm_get (Validators snap) signer = None then Inl (errUnauthorizedValidator signer)
            else if SignRecently snap signer then Inl errRecentlySigned
            else if \<not> fakeDiff p then verifyDifficulty C snap signer header
            else Inr ()),
           checkDoubleSign C header st)))))"

definition verifyGas :: "Engine \<Rightarrow> Header \<Rightarrow> Header \<Rightarrow> unit result" where
  "verifyGas p parent header =
     (let capacity = 0x7fffffffffffffff;
          gasLimitBoundDivisor = (if IsLorentz (chainConfig p) (Number header) (Time header)
             then GasLimitBoundDivisor else gasLimitBoundDivisorBeforeLorentz);
          limit = GasLimit parent div gasLimitBoundDivisor in
      if GasLimit header > capacity then Inl (ErrMsg ''invalid gasLimit'')
      else if GasUsed header > GasLimit header then Inl (ErrMsg ''invalid gasUsed'')
      else if absDiff (GasLimit parent) (GasLimit header) \<ge> limit \<or> GasLimit header < MinGasLimit
      then Inl (ErrMsg ''invalid gas limit'')
      else Inr ())"

text \<open>A failed attestation counts as an error only from Plato on; a panic always ends the call.\<close>

definition tolerateBeforePlato :: "bool \<Rightarrow> unit engine_act \<Rightarrow> unit engine_act" where
  "tolerateBeforePlato isPlato m st = (case m st of
       (Inl e, st') \<Rightarrow> (if isPlato \<or> e = Panic \<or> e = NoReturn then Inl e else Inr (), st')
     | (Inr a, st') \<Rightarrow> (Inr a, st'))"

definition verifyCascadingFields :: "crypto \<Rightarrow> Engine \<Rightarrow> chain_reader \<Rightarrow> Header \<Rightarrow> Header list \<Rightarrow> unit engine_act" where
  "verifyCascadingFields C p chain header parents =
     (if numOf header = 0 then retA ()
      else
        bindA (liftA (getParent C chain header parents)) (\<lambda>parent.
        bindA (liftA (verifySnake8Extra (chainConfig p) header parent)) (\<lambda>_.
        bindA (parentSnapshot C p chain header parents (Some header)) (\<lambda>snap.
        bindA (liftA (blockTimeVerifyForRamanujanFork C (rand p) (chainConfig p) snap header parent)) (\<lambda>_.
        bindA (liftA (verifyGas p parent header)) (\<lambda>_.
        bindA (tolerateBeforePlato (IsPlato (Config chain) (Number header))
            (verifyVoteAttestation C p chain header parents)) (\<lambda>_.
        verifySeal C p chain header parents)))))))"

definition verifyBlobFields :: "chain_reader \<Rightarrow> Header \<Rightarrow> Header \<Rightarrow> unit result" where
  "verifyBlobFields chain header parent =
     (if \<not> IsCancun (Config chain) (Number header) (Time header) then
        (if ExcessBlobGas header \<noteq> None then Inl (ErrMsg ''invalid excessBlobGas'')
         else if BlobGasUsed header \<noteq> None then Inl (ErrMsg ''invalid blobGasUsed'')
         else if WithdrawalsHash header \<noteq> None then Inl (ErrMsg ''invalid WithdrawalsHash'')
         else Inr ())
      else if \<not> Header_EmptyWithdrawalsHash header then Inl (ErrMsg ''header has wrong WithdrawalsHash'')
      else VerifyEIP4844Header (Config chain) parent header)"

definition verifyPragueFields :: "chain_reader \<Rightarrow> Header \<Rightarrow> unit result" where
  "verifyPragueFields chain header =
     (if \<not> IsPrague (Config chain) (Number header) (Time header) then
        (if ParentBeaconRoot header \<noteq> None then Inl (ErrMsg ''invalid parentBeaconRoot'')
         else if RequestsHash header \<noteq> None then Inl (ErrMsg ''invalid RequestsHash'')
         else Inr ())
      else if ParentBeaconRoot header \<noteq> Some 0 then Inl (ErrMsg ''invalid parentBeaconRoot'')
      else if RequestsHash header = None then Inl (ErrMsg ''header has nil RequestsHash after Prague'')
      else Inr ())"

definition verifyBaseFee :: "chain_reader \<Rightarrow> Header \<Rightarrow> Header \<Rightarrow> unit result" where
  "verifyBaseFee chain header parent =
     (if \<not> IsLondon (Config chain) (Number header)
      then (if BaseFee header \<noteq> None then Inl (ErrMsg ''invalid baseFee before fork'') else Inr ())
      else VerifyEIP1559Header (Config chain) parent header)"

definition verifyExtra :: "Engine \<Rightarrow> Header \<Rightarrow> u64 \<Rightarrow> unit result" where
  "verifyExtra p header epoch =
     bindE (getValidatorBytesFromHeader header (chainConfig p) epoch) (\<lambda>signersBytes.
     bindE (modC (numOf header) epoch) (\<lambda>r.
       let isEpoch = (r = 0) in
       if \<not> isEpoch \<and> signersBytes \<noteq> [] \<and> \<not> isPrefixOf validatorFrequencyDataPrefix signersBytes
       then Inl errExtraValidators
       else if isEpoch \<and> signersBytes = [] then Inl errInvalidSpanValidators
       else Inr ()))"

definition verifyMixDigest :: "chain_reader \<Rightarrow> Header \<Rightarrow> unit result" where
  "verifyMixDigest chain header =
     (if \<not> IsLorentz (Config chain) (Number header) (Time header)
      then (if MixDigest header \<noteq> 0 then Inl errInvalidMixDigest else Inr ())
      else if MilliTimestamp header div 1000 \<noteq> Time header then Inl (ErrMsg ''invalid MixDigest'')
      else Inr ())"

text \<open>\<open>now\<close> is the clock in seconds.\<close>

definition verifyHeader ::
  "crypto \<Rightarrow> Engine \<Rightarrow> chain_reader \<Rightarrow> u64 \<Rightarrow> Header \<Rightarrow> Header list \<Rightarrow> unit engine_act" where
  "verifyHeader C p chain now header parents =
     (if Number header = None then liftA (Inl errUnknownBlock)
      else if Time header > now + 1 then liftA (Inl ErrFutureBlock)
      else if length (Extra header) < extraVanity then liftA (Inl errMissingVanity)
      else if length (Extra header) < extraVanity + extraSeal then liftA (Inl errMissingSignature)
      else
        bindA (epochLength C p chain header parents) (\<lambda>epoch.
        bindA (liftA (verifyExtra p header epoch)) (\<lambda>_.
        bindA (liftA (verifyMixDigest chain header)) (\<lambda>_.
        if UncleHash header \<noteq> EmptyUncleHash C then liftA (Inl errInvalidUncleHash)
        else if numOf header > 0 \<and> Difficulty header = None then liftA (Inl errInvalidDifficulty)
        else
          bindA (liftA (getParent C chain header parents)) (\<lambda>parent.
          bindA (liftA (verifyBaseFee chain header parent)) (\<lambda>_.
          bindA (liftA (verifyBlobFields chain header parent)) (\<lambda>_.
          bindA (liftA (verifyPragueFields chain header)) (\<lambda>_.
          verifyCascadingFields C p chain header parents))))))))"

definition VerifyHeader :: "crypto \<Rightarrow> Engine \<Rightarrow> chain_reader \<Rightarrow> u64 \<Rightarrow> Header \<Rightarrow> unit engine_act" where
  "VerifyHeader C p chain now header = verifyHeader C p chain now header []"

text \<open>The results of a batch, in the order of the batch; \<open>now\<close> is the clock at each header.\<close>

fun verifyBatch ::
  "crypto \<Rightarrow> Engine \<Rightarrow> chain_reader \<Rightarrow> (nat \<Rightarrow> u64) \<Rightarrow> Header list \<Rightarrow> Header list \<Rightarrow> EngineState \<Rightarrow>
   unit result list \<times> EngineState" where
  "verifyBatch C p chain now before [] st = ([], st)"
| "verifyBatch C p chain now before (h # hs) st =
     (case verifyHeader C p chain (now (length before)) h before st of (r, st') \<Rightarrow>
      (case verifyBatch C p chain now (before @ [h]) hs st' of (rs, st'') \<Rightarrow> (r # rs, st'')))"

definition VerifyHeaders ::
  "crypto \<Rightarrow> Engine \<Rightarrow> chain_reader \<Rightarrow> (nat \<Rightarrow> u64) \<Rightarrow> Header list \<Rightarrow> EngineState \<Rightarrow> unit result list \<times> EngineState" where
  "VerifyHeaders C p chain now headers = verifyBatch C p chain now [] headers"

end
