(* ===== verification/Snapshot_Search.thy ===== *)
theory Snapshot_Search
  imports Engine
begin

text \<open>
  The snapshots that the engine hands out do not depend on its caches. The reference is the snapshot
  computed from the genesis block by applying the headers one at a time with no cache at all; the engine instead starts from
  what it finds in memory or in the database, applies the headers in between as one batch, takes signers from
  its signature cache, and stores what it has computed.

  The theorems are about chains before Snake8 and after Bohr, with headers that are closed under parents and have different hashes;
  the reader of the chain is a parameter, and these are the laws assumed of it (\<open>soundChain\<close>).
\<close>

section \<open>The reference\<close>

definition applyPure :: "crypto \<Rightarrow> Engine \<Rightarrow> chain_reader \<Rightarrow> Header list \<Rightarrow> Snapshot \<Rightarrow> Snapshot result" where
  "applyPure C p chain hs s =
     fst (apply_snap C (defaultEpochLength p) (chainConfig p) chain [] False hs s (NewBasicLRU 1))"

fun refSnapshot :: "crypto \<Rightarrow> Engine \<Rightarrow> chain_reader \<Rightarrow> nat \<Rightarrow> hash \<Rightarrow> Snapshot result" where
  "refSnapshot C p chain 0 hash =
     bindE (checkpointSnapshot C p chain 0 False) (\<lambda>r. case r of None \<Rightarrow> Inl ErrUnknownAncestor | Some s \<Rightarrow> Inr s)"
| "refSnapshot C p chain (Suc n) hash =
     (case GetHeader chain hash (of_nat (Suc n)) of
        None \<Rightarrow> Inl ErrUnknownAncestor
      | Some h \<Rightarrow> bindE (refSnapshot C p chain n (ParentHash h)) (applyPure C p chain [h]))"

section \<open>The chain\<close>

definition headersOf :: "chain_reader \<Rightarrow> Header set" where
  "headersOf chain = {h. \<exists>x n. GetHeader chain x n = Some h}"

definition soundChain :: "crypto \<Rightarrow> Engine \<Rightarrow> Header set \<Rightarrow> chain_reader \<Rightarrow> bool" where
  "soundChain C p H chain \<longleftrightarrow>
     (\<forall>x n h. GetHeader chain x n = Some h \<longrightarrow> Hash C h = x \<and> numOf h = n) \<and>
     (\<forall>x n h. GetHeader chain x n = Some h \<longrightarrow> n \<noteq> 0 \<longrightarrow>
        GetHeader chain (ParentHash h) (n - 1) \<noteq> None \<and>
        IsLuban (chainConfig p) (Number h) \<and> IsBohr (chainConfig p) (Number h) (Time h)) \<and>
     (\<forall>h \<in> headersOf chain. \<forall>e. parseTurnLength h (chainConfig p) e \<noteq> Inr (Some 0)) \<and>
     headersOf chain \<subseteq> H \<and> inj_on (Hash C) H \<and>
     (\<exists>g. GetHeaderByNumber chain 0 = Some g \<and> GetHeader chain (Hash C g) 0 = Some g \<and> Hash C g \<noteq> 0 \<and>
        length (Extra g) < 2 ^ 32 \<and> (\<forall>x h. GetHeader chain x 0 = Some h \<longrightarrow> h = g)) \<and>
     defaultEpochLength p \<noteq> 0"

lemma soundChain_get:
  assumes "soundChain C p H chain" "GetHeader chain x n = Some h"
  shows "Hash C h = x" "numOf h = n" "h \<in> headersOf chain"
  using assms unfolding soundChain_def headersOf_def by blast+

lemma soundChain_parent:
  assumes "soundChain C p H chain" "GetHeader chain x n = Some h" "n \<noteq> 0"
  obtains h' where "GetHeader chain (ParentHash h) (n - 1) = Some h'"
proof -
  have "GetHeader chain (ParentHash h) (n - 1) \<noteq> None" using assms unfolding soundChain_def by blast
  with that show thesis by blast
qed

lemma soundChain_afterBohr:
  "soundChain C p H chain \<Longrightarrow> GetHeader chain x n = Some h \<Longrightarrow> n \<noteq> 0 \<Longrightarrow> afterBohr (chainConfig p) [h]"
  unfolding soundChain_def afterBohr_def by simp

lemma soundChain_genesis:
  assumes "soundChain C p H chain"
  obtains g where "GetHeaderByNumber chain 0 = Some g" "GetHeader chain (Hash C g) 0 = Some g" "Hash C g \<noteq> 0"
    "length (Extra g) < 2 ^ 32" "\<And>x h. GetHeader chain x 0 = Some h \<Longrightarrow> h = g"
  using assms unfolding soundChain_def by blast

lemma soundChain_turn:
  "soundChain C p H chain \<Longrightarrow> h \<in> headersOf chain \<Longrightarrow> parseTurnLength h (chainConfig p) e = Inr t \<Longrightarrow> t \<noteq> Some 0"
  unfolding soundChain_def by blast

lemma soundChain_epoch: "soundChain C p H chain \<Longrightarrow> defaultEpochLength p \<noteq> 0"
  unfolding soundChain_def by blast

lemma soundChain_inj: "soundChain C p H chain \<Longrightarrow> headersOf chain \<subseteq> H" "soundChain C p H chain \<Longrightarrow> inj_on (Hash C) H"
  unfolding soundChain_def by blast+

lemma soundChain_same_number:
  assumes "soundChain C p H chain" "GetHeader chain x n = Some h" "GetHeader chain x m = Some h'"
  shows "n = m"
proof -
  have "h = h'" using soundChain_get [OF assms(1,2)] soundChain_get [OF assms(1,3)]
      soundChain_inj [OF assms(1)] by (metis inj_onD subsetD)
  with soundChain_get(2) [OF assms(1,2)] soundChain_get(2) [OF assms(1,3)] show ?thesis by simp
qed

section \<open>Applying without a cache\<close>

lemma applyPure_cache:
  assumes "soundChain C p H chain" "set hs \<subseteq> headersOf chain" "sigCoherent C (ChainID (chainConfig p)) H c"
  shows "fst (apply_snap C (defaultEpochLength p) (chainConfig p) chain [] False hs s c) = applyPure C p chain hs s"
    "sigCoherent C (ChainID (chainConfig p)) H
      (snd (apply_snap C (defaultEpochLength p) (chainConfig p) chain [] False hs s c))"
proof -
  have sub: "set hs \<subseteq> H" using soundChain_inj(1) [OF assms(1)] assms(2) by blast
  note free = cacheFree_apply [OF soundChain_inj(2) [OF assms(1)] sub, of "chainConfig p" "defaultEpochLength p" chain "[]" False s]
  show "fst (apply_snap C (defaultEpochLength p) (chainConfig p) chain [] False hs s c) = applyPure C p chain hs s"
    using cacheFreeD(1) [OF free assms(3) sigCoherent_New] by (simp add: applyPure_def)
  show "sigCoherent C (ChainID (chainConfig p)) H
      (snd (apply_snap C (defaultEpochLength p) (chainConfig p) chain [] False hs s c))"
    by (rule cacheFreeD(2) [OF free assms(3,3)])
qed

lemma applyPure_Inr:
  "applyPure C p chain hs s = Inr s' \<longleftrightarrow>
    (\<exists>c'. apply_snap C (defaultEpochLength p) (chainConfig p) chain [] False hs s (NewBasicLRU 1) = (Inr s', c'))"
  by (cases "apply_snap C (defaultEpochLength p) (chainConfig p) chain [] False hs s (NewBasicLRU 1)") (auto simp: applyPure_def)

lemma applyPure_append:
  assumes chain: "soundChain C p H chain" "set (hs1 @ hs2) \<subseteq> headersOf chain"
    and inv: "recentsInv (unat (sNumber s)) s" "unat (sNumber s) + length (hs1 @ hs2) < 2 ^ 64" "afterBohr (chainConfig p) (hs1 @ hs2)"
  shows "applyPure C p chain (hs1 @ hs2) s = Inr s' \<longleftrightarrow>
    (\<exists>s1. applyPure C p chain hs1 s = Inr s1 \<and> applyPure C p chain hs2 s1 = Inr s')" (is "_ \<longleftrightarrow> ?R")
proof -
  let ?A = "apply_snap C (defaultEpochLength p) (chainConfig p) chain [] False"
  have two: "(\<exists>c'. ?A hs2 s1 c1 = (Inr s', c')) \<longleftrightarrow> applyPure C p chain hs2 s1 = Inr s'"
    if "?A hs1 s (NewBasicLRU 1) = (Inr s1, c1)" for s1 c1
  proof -
    have "sigCoherent C (ChainID (chainConfig p)) H c1"
      using applyPure_cache(2) [OF chain(1) _ sigCoherent_New, of hs1 s 1] chain(2) that by simp
    from applyPure_cache(1) [OF chain(1) _ this, of hs2 s1] chain(2)
    show ?thesis by (cases "?A hs2 s1 c1") auto
  qed
  have "applyPure C p chain (hs1 @ hs2) s = Inr s' \<longleftrightarrow>
      (\<exists>s1 c1. ?A hs1 s (NewBasicLRU 1) = (Inr s1, c1) \<and> (\<exists>c'. ?A hs2 s1 c1 = (Inr s', c')))"
    unfolding applyPure_Inr apply_append [OF inv] by blast
  also have "\<dots> \<longleftrightarrow> ?R" unfolding applyPure_Inr [of _ _ _ hs1] using two by blast
  finally show ?thesis .
qed

lemma applyPure_fields:
  assumes "applyPure C p chain [h] s = Inr s'"
  shows "sNumber s' = sNumber s + 1" "sHash s' = Hash C h" "IsSnake8Fork s' = False" "numOf h = sNumber s + 1" "ParentHash h = sHash s"
proof -
  from assms obtain c' t where *: "numOf h = sNumber s + 1" "ParentHash h = sHash s" "s' = renum (sNumber s + 1) (Hash C h) t"
    "foldA (applyHeader C (defaultEpochLength p) (chainConfig p) chain []) [h] (copy (s\<lparr> IsSnake8Fork := False \<rparr>)) (NewBasicLRU 1) = (Inr t, c')"
    by (auto simp: applyPure_Inr apply_snap_iff)
  from static_fold [OF *(4)] have "IsSnake8Fork t = False" by (simp add: static_def copy_def)
  with * show "sNumber s' = sNumber s + 1" "sHash s' = Hash C h" "IsSnake8Fork s' = False" "numOf h = sNumber s + 1" "ParentHash h = sHash s"
    by simp_all
qed

section \<open>Invariants of the reference\<close>

text \<open>None of the lengths is zero, the value that the database format uses for a missing field.\<close>

definition lensOK :: "Snapshot \<Rightarrow> bool" where
  "lensOK s \<longleftrightarrow> TurnLength s \<noteq> 0 \<and> EpochLength s \<noteq> 0 \<and> BlockInterval s \<noteq> 0"

lemma findAncient_mem:
  "h \<in> headersOf chain \<Longrightarrow> findAncient C chain [] n h = Some h' \<Longrightarrow> h' \<in> headersOf chain"
proof (induction n arbitrary: h)
  case (Suc n)
  then obtain h1 where h1: "findParent C chain [] h = Some h1" "findAncient C chain [] n h1 = Some h'"
    by (auto split: option.splits)
  from h1(1) have "GetHeader chain (ParentHash h) (numOf h - 1) = Some h1" by (simp add: findParent_def Let_def)
  then have "h1 \<in> headersOf chain" by (auto simp: headersOf_def)
  with Suc.IH h1(2) show ?case by blast
qed simp

lemma lensOK_install:
  assumes "lensOK s" "t \<noteq> Some 0"
  shows "lensOK (installValidators b l n k t m s)"
proof -
  have "TurnLength (installValidators b l n k t m s) = (case t of None \<Rightarrow> TurnLength s | Some x \<Rightarrow> x)"
    "EpochLength (installValidators b l n k t m s) = EpochLength s"
    "BlockInterval (installValidators b l n k t m s) = BlockInterval s"
    by (cases t; simp add: installValidators_def switchRecents_def Let_def)+
  with assms show ?thesis by (auto simp: lensOK_def split: option.splits)
qed

lemma lensOK_switch:
  assumes "soundChain C p H chain" "h \<in> headersOf chain" "switchValidators C (chainConfig p) chain [] h e s = Inr s'" "lensOK s"
  shows "lensOK s'"
proof -
  have "s' = s \<or> (\<exists>ck t b l n k m. FindAncientHeader C h (minerHistoryCheckLen s) chain [] = Some ck \<and>
      parseTurnLength ck (chainConfig p) e = Inr t \<and> s' = installValidators b l n k t m s)"
    using assms(3) unfolding switchValidators_def Let_def
    by (simp add: bindE_eq_Inr split: option.splits if_splits) blast+
  then show ?thesis
  proof (elim disjE exE conjE)
    fix ck t b l n k m
    assume ck: "FindAncientHeader C h (minerHistoryCheckLen s) chain [] = Some ck" "parseTurnLength ck (chainConfig p) e = Inr t"
      and s': "s' = installValidators b l n k t m s"
    from ck(1) have "ck \<in> headersOf chain" using findAncient_mem [OF assms(2)] by (simp add: FindAncientHeader_def)
    with assms(1) ck(2) have "t \<noteq> Some 0" by (blast dest: soundChain_turn)
    with lensOK_install assms(4) s' show ?thesis by blast
  qed (use assms(4) in simp)
qed

lemma lensOK_applyHeader:
  assumes chain: "soundChain C p H chain" "h \<in> headersOf chain"
    and step: "applyHeader C (defaultEpochLength p) (chainConfig p) chain [] h s c = (Inr s', c')" and ok: "lensOK s"
  shows "lensOK s'"
  using step
proof (rule applyHeader_Inr)
  fix v s1 s2
  assume s1: "updateAttestation h (chainConfig p) (dropOldHistory (numOf h) s) = Inr s1"
    and s2: "recordSigner (chainConfig p) h v s1 = Inr s2"
    and s': "s' = updateIntervals (defaultEpochLength p) (chainConfig p) h s2 \<or>
      switchValidators C (chainConfig p) chain [] h (EpochLength s2) (updateIntervals (defaultEpochLength p) (chainConfig p) h s2) = Inr s'"
  have "\<exists>a. s1 = (dropOldHistory (numOf h) s)\<lparr> Attestation := a \<rparr>"
    using s1 by (auto simp: updateAttestation_def split: if_splits sum.splits option.splits parlia_error.splits
        intro: exI [of _ "Attestation (dropOldHistory (numOf h) s)"])
  moreover have "BlockInterval (dropOldHistory (numOf h) s) = BlockInterval s" by (simp add: dropOldHistory_def Let_def)
  ultimately have "lensOK s1" using ok by (auto simp: lensOK_def)
  then have "lensOK s2" using s2 by (auto simp: lensOK_def recordSigner_def Let_def split: option.splits if_splits)
  then have "lensOK (updateIntervals (defaultEpochLength p) (chainConfig p) h s2)"
    by (simp add: lensOK_def updateIntervals_def Let_def lorentzEpochLength_def maxwellEpochLength_def
        fermiBlockInterval_def maxwellBlockInterval_def lorentzBlockInterval_def)
  with s' lensOK_switch [OF chain] show ?thesis by blast
qed

lemma length_validatorBytes: "getValidatorBytesFromHeader h cfg e = Inr b \<Longrightarrow> length b \<le> length (Extra h)"
  by (auto simp: getValidatorBytesFromHeader_def Let_def bindE_eq_Inr slice_def split: if_splits option.splits)

lemma parseValidators_length_extra:
  assumes "parseValidators h cfg e = Inr (vs, ks)"
  shows "length vs \<le> length (Extra h)"
proof -
  from assms obtain b where b: "getValidatorBytesFromHeader h cfg e = Inr b"
    "length vs = length b div 20 \<or> length vs = length b div 68"
    by (auto simp: parseValidators_def Let_def bindE_eq_Inr split: if_splits)
  then have "length vs \<le> length b" by auto
  with length_validatorBytes [OF b(1)] show ?thesis by simp
qed

lemma newSnapshot_fields:
  "sNumber (newSnapshot d n x vals keys b) = n" "sHash (newSnapshot d n x vals keys b) = x"
  "Recents (newSnapshot d n x vals keys b) = []" "IsSnake8Fork (newSnapshot d n x vals keys b) = b"
  "TurnLength (newSnapshot d n x vals keys b) = 1"
  by (simp_all add: newSnapshot_def Let_def defaultTurnLength_def)

lemma length_newSnapshot: "length (Validators (newSnapshot d n x vals keys b)) \<le> length vals"
  using length_fold_put [of "\<lambda>k. \<lparr> Index = 0, InfoVoteAddress = k \<rparr>"
      "zip vals (if length keys = length vals then keys else replicate (length vals) 0)" "[]"]
  by (auto simp: newSnapshot_def Let_def)

text \<open>What holds of every reference snapshot.\<close>

definition goodSnap :: "Snapshot \<Rightarrow> bool" where
  "goodSnap s \<longleftrightarrow> recentsInv (unat (sNumber s)) s \<and> lensOK s \<and> \<not> IsSnake8Fork s"

lemma goodSnap_genesis:
  assumes "soundChain C p H chain" "GetHeaderByNumber chain 0 = Some g" "checkpointSnapshot C p chain 0 False = Inr r"
  obtains s where "r = Some s" "goodSnap s" "sNumber s = 0" "sHash s = Hash C g"
proof -
  have g: "g \<in> headersOf chain" "Hash C g \<noteq> 0" "length (Extra g) < 2 ^ 32"
  proof -
    obtain g' where g': "GetHeaderByNumber chain 0 = Some g'" "GetHeader chain (Hash C g') 0 = Some g'" "Hash C g' \<noteq> 0"
      "length (Extra g') < 2 ^ 32" by (rule soundChain_genesis [OF assms(1)])
    with assms(2) show "Hash C g \<noteq> 0" "length (Extra g) < 2 ^ 32" by simp_all
    from g'(1,2) assms(2) soundChain_get(3) [OF assms(1)] show "g \<in> headersOf chain" by simp
  qed
  let ?d = "defaultEpochLength p"
  from assms(2,3) g(2) obtain vs ks t where v: "parseValidators g (chainConfig p) ?d = Inr (vs, ks)"
    "parseTurnLength g (chainConfig p) ?d = Inr t"
    and r: "r = Some ((case t of None \<Rightarrow> newSnapshot ?d 0 (Hash C g) vs ks False
      | Some t \<Rightarrow> (newSnapshot ?d 0 (Hash C g) vs ks False)\<lparr> TurnLength := t \<rparr>)\<lparr> BlockInterval := defaultBlockInterval, EpochLength := ?d \<rparr>)"
    by (auto simp: checkpointSnapshot_def checkpointInfo_def bindE_eq_Inr Let_def)
  let ?n = "newSnapshot ?d 0 (Hash C g) vs ks False"
  define t' where "t' = (case t of None \<Rightarrow> 1 | Some t \<Rightarrow> t)"
  have s: "r = Some (?n\<lparr> TurnLength := t', BlockInterval := defaultBlockInterval, EpochLength := ?d \<rparr>)"
    using r newSnapshot_fields(5) by (cases t) (simp_all add: t'_def)
  have "t' \<noteq> 0" "?d \<noteq> 0" using soundChain_turn [OF assms(1) g(1) v(2)] soundChain_epoch [OF assms(1)]
    by (auto simp: t'_def split: option.splits)
  moreover have "length (Validators ?n) < 2 ^ 32"
    using length_newSnapshot [of ?d 0 "Hash C g" vs ks False] parseValidators_length_extra [OF v(1)] g(3) by linarith
  moreover have "snapWF ?n" using newSnapshot_wf by blast
  ultimately have "goodSnap (?n\<lparr> TurnLength := t', BlockInterval := defaultBlockInterval, EpochLength := ?d \<rparr>)"
    by (simp add: goodSnap_def recentsInv_def lensOK_def snapWF_def inWindow_def signCount_def newSnapshot_fields defaultBlockInterval_def)
  with s that show thesis by (simp add: newSnapshot_fields)
qed

lemma goodSnap_apply:
  assumes chain: "soundChain C p H chain" "GetHeader chain x n = Some h" "n \<noteq> 0"
    and "applyPure C p chain [h] s = Inr s'" "goodSnap s"
  shows "goodSnap s'"
proof -
  note f = applyPure_fields [OF assms(4)]
  have n: "n = sNumber s + 1" using f(4) soundChain_get(2) [OF chain(1,2)] by simp
  then have "unat (sNumber s) + length [h] < 2 ^ 64"
    using chain(3) unat_u64_less [of n] unatSuc [of "sNumber s"] by (simp add: add.commute)
  moreover from assms(4) obtain c' where a: "apply_snap C (defaultEpochLength p) (chainConfig p) chain [] False [h] s (NewBasicLRU 1) = (Inr s', c')"
    by (auto simp: applyPure_Inr)
  ultimately have "recentsInv (unat (sNumber s')) s'"
    using recentsInv_apply [OF _ _ soundChain_afterBohr [OF chain] a] assms(5) unfolding goodSnap_def by blast
  moreover from a obtain t where t: "applyHeader C (defaultEpochLength p) (chainConfig p) chain [] h (copy (s\<lparr> IsSnake8Fork := False \<rparr>)) (NewBasicLRU 1) = (Inr t, c')"
    "s' = renum (sNumber s + 1) (Hash C h) t"
    by (auto simp: apply_snap_iff bindA_eq_Inr)
  have "lensOK (copy (s\<lparr> IsSnake8Fork := False \<rparr>))" using assms(5) by (simp add: goodSnap_def lensOK_def copy_def)
  from lensOK_applyHeader [OF chain(1) soundChain_get(3) [OF chain(1,2)] t(1) this]
  have "lensOK s'" by (simp add: t(2) lensOK_def renum_def)
  ultimately show ?thesis using f(3) by (simp add: goodSnap_def)
qed

lemma refSnapshot_good:
  assumes "soundChain C p H chain" "GetHeader chain x (of_nat n) = Some h" "n < 2 ^ 64" "refSnapshot C p chain n x = Inr s"
  shows "goodSnap s \<and> sNumber s = of_nat n \<and> sHash s = x"
  using assms(2-)
proof (induction n arbitrary: x h s)
  case 0
  obtain g where g: "GetHeaderByNumber chain 0 = Some g" "\<forall>x h. GetHeader chain x 0 = Some h \<longrightarrow> h = g"
    using soundChain_genesis [OF assms(1)] by metis
  have hg: "h = g" using g(2) 0(1) by simp
  from 0(3) obtain r where r: "checkpointSnapshot C p chain 0 False = Inr r" "r = Some s"
    by (auto simp: bindE_eq_Inr split: option.splits)
  from goodSnap_genesis [OF assms(1) g(1) r(1)] r(2) hg soundChain_get(1) [OF assms(1) 0(1)] show ?case by auto
next
  case (Suc n)
  have ne: "(of_nat (Suc n) :: u64) \<noteq> 0" using Suc.prems(2) by (metis unat_0 unat_of_nat_u64 nat.distinct(1))
  have eq: "(of_nat (Suc n) :: u64) - 1 = of_nat n" by simp
  from Suc.prems(1,3) obtain s0 where s0: "refSnapshot C p chain n (ParentHash h) = Inr s0" "applyPure C p chain [h] s0 = Inr s"
    by (auto simp del: of_nat_Suc simp: bindE_eq_Inr)
  from soundChain_parent [OF assms(1) Suc.prems(1) ne] obtain h' where "GetHeader chain (ParentHash h) (of_nat n) = Some h'"
    unfolding eq by blast
  from Suc.IH [OF this _ s0(1)] Suc.prems(2) have IH: "goodSnap s0" "sNumber s0 = of_nat n" by simp_all
  with goodSnap_apply [OF assms(1) Suc.prems(1) ne s0(2)] applyPure_fields(1,2) [OF s0(2)] soundChain_get(1) [OF assms(1) Suc.prems(1)]
  show ?case by simp
qed

section \<open>Coherent engine states\<close>

text \<open>A stored snapshot is the reference snapshot of its block.\<close>

definition refOK :: "crypto \<Rightarrow> Engine \<Rightarrow> chain_reader \<Rightarrow> hash \<Rightarrow> Snapshot \<Rightarrow> bool" where
  "refOK C p chain x s \<longleftrightarrow> sHash s = x \<and> refSnapshot C p chain (unat (sNumber s)) x = Inr s \<and>
     GetHeader chain x (sNumber s) \<noteq> None"

text \<open>Within \<open>k\<close> generations there is the genesis block or a block whose snapshot is in the database, so the
  search does not resort to an unverified checkpoint.\<close>

fun nearStored :: "chain_reader \<Rightarrow> (hash \<Rightarrow> Snapshot option) \<Rightarrow> nat \<Rightarrow> u64 \<Rightarrow> hash \<Rightarrow> bool" where
  "nearStored chain d 0 number hash \<longleftrightarrow> number = 0 \<or> number mod checkpointInterval = 0 \<and> d hash \<noteq> None"
| "nearStored chain d (Suc k) number hash \<longleftrightarrow> number = 0 \<or> number mod checkpointInterval = 0 \<and> d hash \<noteq> None \<or>
     (\<forall>h. GetHeader chain hash number = Some h \<longrightarrow> nearStored chain d k (number - 1) (ParentHash h))"

definition engineOK :: "crypto \<Rightarrow> Engine \<Rightarrow> Header set \<Rightarrow> chain_reader \<Rightarrow> EngineState \<Rightarrow> bool" where
  "engineOK C p H chain st \<longleftrightarrow>
     lru_cache.coherent (refOK C p chain) (recentSnaps st) \<and>
     sigCoherent C (ChainID (chainConfig p)) H (signatures st) \<and>
     (\<forall>x s. db st x = Some s \<longrightarrow> refOK C p chain x s) \<and>
     (\<forall>x n. GetHeader chain x n \<noteq> None \<longrightarrow> nearStored chain (db st) FullImmutabilityThreshold n x)"

lemma nearStored_mono:
  "nearStored chain d k n x \<Longrightarrow> (\<And>x. d x \<noteq> None \<Longrightarrow> d' x \<noteq> None) \<Longrightarrow> nearStored chain d' k n x"
proof (induction k arbitrary: n x)
  case (Suc k)
  then show ?case by (metis nearStored.simps(2))
qed (metis nearStored.simps(1))

lemma nearStored_low: "unat n \<le> k \<Longrightarrow> nearStored chain d k n x"
proof (induction k arbitrary: n x)
  case (Suc k)
  have "unat (n - 1) \<le> k" if "n \<noteq> 0" using Suc.prems unat_minus_one [OF that] by simp
  with Suc.IH show ?case by auto
qed (simp add: unat_eq_zero)

text \<open>A new engine with an empty database, on a chain that is not longer than what may pile up.\<close>

lemma engineOK_new:
  assumes "\<And>x n. GetHeader chain x n \<noteq> None \<Longrightarrow> unat n \<le> FullImmutabilityThreshold"
  shows "engineOK C p H chain (NewState (\<lambda>_. None))"
  using nearStored_low [OF assms]
  by (simp add: engineOK_def NewState_def sigCoherent_New lru_cache.coherent_def lru_wf_New) (simp add: NewBasicLRU_def Peek_def)

lemma same_flag: "\<not> IsSnake8Fork s \<Longrightarrow> s\<lparr> IsSnake8Fork := False \<rparr> = s"
  by (cases s) simp

lemma refOK_good:
  assumes "soundChain C p H chain" "refOK C p chain x s"
  shows "goodSnap s"
proof -
  obtain h where "GetHeader chain x (of_nat (unat (sNumber s))) = Some h" using assms(2) by (auto simp: refOK_def)
  from refSnapshot_good [OF assms(1) this unat_u64_less] assms(2) show ?thesis by (simp add: refOK_def)
qed

lemma refOK_ref:
  assumes "soundChain C p H chain" "GetHeader chain x n = Some h" "refSnapshot C p chain (unat n) x = Inr s"
  shows "refOK C p chain x s" "sNumber s = n" "sHash s = x"
  using refSnapshot_good [OF assms(1) _ unat_u64_less assms(3), of h] assms(2,3) by (simp_all add: refOK_def)

lemma refOK_number:
  assumes "soundChain C p H chain" "GetHeader chain x n = Some h" "refOK C p chain x s"
  shows "sNumber s = n" "refSnapshot C p chain (unat n) x = Inr s"
proof -
  from assms(3) obtain h' where "GetHeader chain x (sNumber s) = Some h'" by (auto simp: refOK_def)
  from soundChain_same_number [OF assms(1) this assms(2)] show "sNumber s = n" .
  with assms(3) show "refSnapshot C p chain (unat n) x = Inr s" by (simp add: refOK_def)
qed

lemma engineOK_get:
  assumes "engineOK C p H chain st" "Get x (recentSnaps st) = (r, c)"
  shows "engineOK C p H chain (st\<lparr> recentSnaps := c \<rparr>)" "r = Some s \<Longrightarrow> refOK C p chain x s" "r = None \<Longrightarrow> c = recentSnaps st"
proof -
  have c: "lru_cache.coherent (refOK C p chain) (recentSnaps st)" using assms(1) by (simp add: engineOK_def)
  show "engineOK C p H chain (st\<lparr> recentSnaps := c \<rparr>)"
    using assms lru_cache.coherent_get [OF c, of x] by (simp add: engineOK_def)
  show "refOK C p chain x s" if "r = Some s"
    using c lru_cache.get_peek [of "recentSnaps st" x] assms(2) that by (simp add: lru_cache.coherent_def)
  show "c = recentSnaps st" if "r = None" using assms(2) that by (auto simp: Get_def split: option.splits)
qed

lemma engineOK_store:
  assumes "engineOK C p H chain st" "refOK C p chain (sHash s) s"
  shows "engineOK C p H chain (st\<lparr> db := store s (db st) \<rparr>)"
proof -
  have "nearStored chain (store s (db st)) k n x" if "nearStored chain (db st) k n x" for k n x
    using nearStored_mono [OF that, of "store s (db st)"] by (simp add: store_def)
  with assms show ?thesis by (simp add: engineOK_def store_def)
qed

lemma engineOK_load:
  assumes "soundChain C p H chain" "engineOK C p H chain st" "loadSnapshot d (db st) x False = Inr s"
  shows "refOK C p chain x s"
proof -
  from assms(3) obtain s0 where s0: "db st x = Some s0" by (auto simp: loadSnapshot_def split: option.splits)
  then have ok: "refOK C p chain x s0" using assms(2) by (simp add: engineOK_def)
  from refOK_good [OF assms(1) this] s0 assms(3) same_flag [of s0] have "s = s0"
    by (simp add: goodSnap_def lensOK_def loadSnapshot_def Let_def)
  with ok show ?thesis by simp
qed

section \<open>The search\<close>

text \<open>What the search returns for block \<open>(number, hash)\<close>: a reference snapshot \<open>s\<close> and the headers from it up to the block.\<close>

definition segmentTo ::
  "crypto \<Rightarrow> Engine \<Rightarrow> chain_reader \<Rightarrow> Snapshot \<Rightarrow> Header list \<Rightarrow> u64 \<Rightarrow> hash \<Rightarrow> bool" where
  "segmentTo C p chain s hs number hash \<longleftrightarrow>
     refOK C p chain (sHash s) s \<and> set hs \<subseteq> headersOf chain \<and> afterBohr (chainConfig p) hs \<and>
     unat (sNumber s) + length hs = unat number \<and>
     (\<forall>r. refSnapshot C p chain (unat number) hash = Inr r \<longleftrightarrow> applyPure C p chain hs s = Inr r)"

lemma segmentTo_here:
  assumes "soundChain C p H chain" "GetHeader chain x n = Some h" "refOK C p chain x s"
  shows "segmentTo C p chain s [] n x"
proof -
  note ref = refOK_number [OF assms]
  have "\<not> IsSnake8Fork s" using refOK_good [OF assms(1,3)] by (simp add: goodSnap_def)
  then have "applyPure C p chain [] s = Inr s" by (simp add: applyPure_def apply_snap_def retA_def same_flag)
  with ref assms(3) show ?thesis by (auto simp: segmentTo_def afterBohr_def refOK_def)
qed

lemma segmentTo_step:
  assumes "soundChain C p H chain" "GetHeader chain x n = Some h" "n \<noteq> 0" "segmentTo C p chain s hs (n - 1) (ParentHash h)"
  shows "segmentTo C p chain s (hs @ [h]) n x"
proof -
  have n: "unat n = Suc (unat (n - 1))" using unat_minus_one [OF assms(3)] assms(3) by (simp add: unat_gt_0)
  have len: "unat (sNumber s) + length (hs @ [h]) = unat n" using assms(4) n by (simp add: segmentTo_def)
  have bohr: "afterBohr (chainConfig p) (hs @ [h])"
    using assms(4) soundChain_afterBohr [OF assms(1-3)] by (auto simp: segmentTo_def afterBohr_def)
  have mem: "set (hs @ [h]) \<subseteq> headersOf chain"
    using assms(4) soundChain_get(3) [OF assms(1,2)] by (simp add: segmentTo_def)
  have good: "recentsInv (unat (sNumber s)) s"
    using assms(4) refOK_good [OF assms(1)] by (auto simp: segmentTo_def goodSnap_def)
  have "GetHeader chain x (of_nat (Suc (unat (n - 1)))) = Some h"
    using assms(2) unfolding n [symmetric] by simp
  then have "refSnapshot C p chain (unat n) x = bindE (refSnapshot C p chain (unat (n - 1)) (ParentHash h)) (applyPure C p chain [h])"
    unfolding n by (simp del: of_nat_Suc)
  then have "refSnapshot C p chain (unat n) x = Inr r \<longleftrightarrow> applyPure C p chain (hs @ [h]) s = Inr r" for r
    using assms(4) applyPure_append [OF assms(1) mem good _ bohr] len unat_u64_less [of n]
    by (simp add: bindE_eq_Inr segmentTo_def)
  with assms(4) len bohr mem show ?thesis by (simp add: segmentTo_def)
qed

text \<open>The outcome of the search, with the headers already collected in \<open>headers\<close>.\<close>

definition found ::
  "crypto \<Rightarrow> Engine \<Rightarrow> Header set \<Rightarrow> chain_reader \<Rightarrow> Header list \<Rightarrow> u64 \<Rightarrow> hash \<Rightarrow>
   (hash option \<times> Snapshot \<times> Header list \<times> Header list) result \<times> EngineState \<Rightarrow> bool" where
  "found C p H chain headers number hash out \<longleftrightarrow> engineOK C p H chain (snd out) \<and>
     (case fst out of
        Inl e \<Rightarrow> \<forall>r. refSnapshot C p chain (unat number) hash \<noteq> Inr r
      | Inr (key, s, hs, rest) \<Rightarrow> rest = [] \<and> (key = None \<or> key = Some (sHash s)) \<and>
          (\<exists>hs'. hs = hs' @ headers \<and> segmentTo C p chain s hs' number hash))"

lemma found_here:
  assumes "soundChain C p H chain" "GetHeader chain x n = Some h" "refOK C p chain x s" "engineOK C p H chain st"
    and "key = None \<or> key = Some x"
  shows "found C p H chain headers n x (Inr (key, s, headers, []), st)"
proof -
  have "sHash s = x" using assms(3) by (simp add: refOK_def)
  with segmentTo_here [OF assms(1-3)] assms(4,5) show ?thesis by (auto simp: found_def)
qed

lemma found_step:
  assumes "soundChain C p H chain" "GetHeader chain x n = Some h" "n \<noteq> 0"
    and "found C p H chain (h # headers) (n - 1) (ParentHash h) out"
  shows "found C p H chain headers n x out"
proof (cases "fst out")
  case (Inl e)
  have n: "unat n = Suc (unat (n - 1))" using unat_minus_one [OF assms(3)] assms(3) by (simp add: unat_gt_0)
  have "refSnapshot C p chain (unat n) x \<noteq> Inr r" for r
    unfolding n using Inl assms(2,4) by (auto simp: found_def bindE_eq_Inr split: option.splits)
  with Inl assms(4) show ?thesis by (simp add: found_def)
next
  case (Inr r)
  obtain key s hs rest where r: "r = (key, s, hs, rest)" by (cases r)
  from Inr assms(4) r obtain hs' where hs': "hs = hs' @ h # headers" "segmentTo C p chain s hs' (n - 1) (ParentHash h)"
    by (auto simp: found_def)
  from segmentTo_step [OF assms(1-3) hs'(2)] hs'(1) Inr r assms(4) show ?thesis
    by (auto simp: found_def intro!: exI [of _ "hs' @ [h]"])
qed

lemma findSnapshot_found:
  assumes chain: "soundChain C p H chain"
    and "GetHeader chain x n = Some h" "unat n < fuel" "engineOK C p H chain st"
    and "nearStored chain (db st) k n x" "length headers + k \<le> FullImmutabilityThreshold"
  shows "found C p H chain headers n x (findSnapshot C p chain False fuel n x [] headers st)"
  using assms(2-)
proof (induction fuel arbitrary: n x h headers st k)
  case (Suc fuel)
  note here = found_here [OF chain Suc.prems(1)]
  obtain r c where get: "Get x (recentSnaps st) = (r, c)" by fastforce
  note g = engineOK_get [OF Suc.prems(3) get]
  show ?case
  proof (cases r)
    case (Some s)
    with get here [OF g(2) g(1), of s] show ?thesis by simp
  next
    case None
    let ?load = "if n mod checkpointInterval = 0 then loadSnapshot (defaultEpochLength p) (db st) x False else Inl errNotFound"
    show ?thesis
    proof (cases ?load)
      case (Inr s)
      then have "loadSnapshot (defaultEpochLength p) (db st) x False = Inr s" by (simp split: if_splits)
      from here [OF engineOK_load [OF chain Suc.prems(3) this] Suc.prems(3), of None headers] None get Inr
      show ?thesis by simp
    next
      case (Inl e)
      show ?thesis
      proof (cases "n = 0")
        case True
        obtain g where g0: "GetHeaderByNumber chain 0 = Some g" "\<forall>x h. GetHeader chain x 0 = Some h \<longrightarrow> h = g"
          using soundChain_genesis [OF chain] by metis
        have x: "x = Hash C g" using g0(2) Suc.prems(1) True soundChain_get(1) [OF chain Suc.prems(1)] by auto
        show ?thesis
        proof (cases "checkpointSnapshot C p chain 0 False")
          case (Inl e')
          with None get Suc.prems(3) True \<open>?load = Inl e\<close> show ?thesis by (auto simp: found_def isCheckpoint_def)
        next
          case (Inr r')
          then obtain s where s: "r' = Some s" "sHash s = x" "sNumber s = 0" using goodSnap_genesis [OF chain g0(1)] x by metis
          with Inr Suc.prems(1) True have ok: "refOK C p chain x s" by (simp add: refOK_def)
          have "engineOK C p H chain (st\<lparr> db := store s (db st) \<rparr>)" using engineOK_store [OF Suc.prems(3)] ok s by simp
          from here [OF ok this, of None headers] s Inr None get \<open>?load = Inl e\<close> True
          show ?thesis by (simp add: isCheckpoint_def)
        qed
      next
        case False
        have "\<not> (n mod checkpointInterval = 0 \<and> db st x \<noteq> None)"
          using Inl by (cases "n mod checkpointInterval = 0"; cases "db st x") (simp_all add: loadSnapshot_def Let_def)
        with False Suc.prems(4) obtain k' where k': "k = Suc k'" "nearStored chain (db st) k' (n - 1) (ParentHash h)"
          using Suc.prems(1) by (cases k) auto
        have nc: "\<not> isCheckpoint n (length headers)" using False Suc.prems(5) k'(1) by (simp add: isCheckpoint_def)
        obtain h' where h': "GetHeader chain (ParentHash h) (n - 1) = Some h'"
          using soundChain_parent [OF chain Suc.prems(1) False] by blast
        have "unat (n - 1) < fuel" using Suc.prems(2) unat_minus_one [OF False] unat_gt_0 [of n] False by linarith
        from Suc.IH [OF h' this Suc.prems(3) k'(2), of "h # headers"] Suc.prems(5) k'(1)
        have "found C p H chain (h # headers) (n - 1) (ParentHash h)
            (findSnapshot C p chain False fuel (n - 1) (ParentHash h) [] (h # headers) st)" by simp
        from found_step [OF chain Suc.prems(1) False this] None get Inl nc Suc.prems(1)
        show ?thesis by (simp add: gatherHeader_def)
      qed
    qed
  qed
qed simp

section \<open>Storing the result\<close>

lemma writeCached_id:
  assumes "lru_wf (recentSnaps st)" "\<And>s. Peek key (recentSnaps st) = Some s \<Longrightarrow> f s = s"
  shows "writeCached key f st = st"
proof -
  have "(k, if k = key then f s else s) = (k, s)" if "(k, s) \<in> set (items (recentSnaps st))" for k s
    using assms that by (auto simp: lru_wf_def Peek_def)
  then have "map (\<lambda>(k, s). (k, if k = key then f s else s)) (items (recentSnaps st)) = items (recentSnaps st)"
    by (intro map_idI) auto
  then show ?thesis by (simp add: writeCached_def)
qed

lemma markReceiver_id:
  assumes "soundChain C p H chain" "engineOK C p H chain st"
  shows "markReceiver key False st = st"
proof (cases key)
  case (Some k)
  have c: "lru_cache.coherent (refOK C p chain) (recentSnaps st)" using assms(2) by (simp add: engineOK_def)
  have "writeCached k (\<lambda>s. s\<lparr> IsSnake8Fork := False \<rparr>) st = st"
  proof (rule writeCached_id)
    fix s assume "Peek k (recentSnaps st) = Some s"
    with c have "refOK C p chain k s" by (simp add: lru_cache.coherent_def)
    then show "s\<lparr> IsSnake8Fork := False \<rparr> = s"
      using refOK_good [OF assms(1)] by (auto simp: goodSnap_def intro: same_flag)
  qed (use c in \<open>simp add: lru_cache.coherent_def\<close>)
  with Some show ?thesis by (simp add: markReceiver_def)
qed (simp add: markReceiver_def)

lemma keepSnapshot_ok:
  assumes "engineOK C p H chain st" "refOK C p chain (sHash s) s"
  shows "fst (keepSnapshot p False extra k s st) = Inr s \<and> engineOK C p H chain (snd (keepSnapshot p False extra k s st))"
proof -
  let ?st = "st\<lparr> recentSnaps := snd (Add (sHash s) s (recentSnaps st)) \<rparr>"
  have c: "lru_cache.coherent (refOK C p chain) (recentSnaps st)" using assms(1) by (simp add: engineOK_def)
  note c' = lru_cache.coherent_add [OF c assms(2)]
  then have ok: "engineOK C p H chain ?st" using assms(1) by (simp add: engineOK_def)
  have "writeCached (sHash s) (\<lambda>_. s) ?st = ?st"
    using c c' lru_cache.peek_add_same [of "recentSnaps st" "sHash s" s]
    by (intro writeCached_id) (auto simp: lru_cache.coherent_def)
  with ok engineOK_store [OF ok assms(2)] show ?thesis
    by (simp add: keepSnapshot_def populateFrequency_def Let_def)
qed

lemma snapshot_ok:
  assumes chain: "soundChain C p H chain" "GetHeader chain x n = Some h" and st: "engineOK C p H chain st"
  shows "engineOK C p H chain (snd (snapshot C p chain n x [] False extra st))"
    "fst (snapshot C p chain n x [] False extra st) = Inr s \<longleftrightarrow> refSnapshot C p chain (unat n) x = Inr s"
proof -
  have "nearStored chain (db st) FullImmutabilityThreshold n x" using st chain(2) by (simp add: engineOK_def)
  from findSnapshot_found [OF chain _ st this, of "unat n + 1" "[]"]
  have f: "found C p H chain [] n x (findSnapshot C p chain False (unat n + 1) n x [] [] st)" by simp
  obtain r st1 where find: "findSnapshot C p chain False (unat n + 1) n x [] [] st = (r, st1)" by fastforce
  have st1: "engineOK C p H chain st1" using f find by (simp add: found_def)
  have "engineOK C p H chain (snd (snapshot C p chain n x [] False extra st)) \<and>
    (fst (snapshot C p chain n x [] False extra st) = Inr s \<longleftrightarrow> refSnapshot C p chain (unat n) x = Inr s)"
  proof (cases r)
    case (Inl e)
    then show ?thesis using f st1 find by (simp add: snapshot_def bindA_def found_def)
  next
    case (Inr v)
    obtain key s0 hs rest where v: "v = (key, s0, hs, rest)" by (cases v)
    have seg: "rest = []" "segmentTo C p chain s0 hs n x" using f find Inr v by (auto simp: found_def)
    have sig: "sigCoherent C (ChainID (chainConfig p)) H (signatures st1)"
      and mem: "set hs \<subseteq> headersOf chain" using st1 seg(2) by (simp_all add: engineOK_def segmentTo_def)
    obtain q c where app: "apply_snap C (defaultEpochLength p) (chainConfig p) chain [] False hs s0 (signatures st1) = (q, c)" by fastforce
    have q: "q = applyPure C p chain hs s0" and st2: "engineOK C p H chain (st1\<lparr> signatures := c \<rparr>)"
      using applyPure_cache [OF chain(1) mem sig, of s0] app st1 by (auto simp: engineOK_def)
    have snap: "snapshot C p chain n x [] False extra st =
        (case q of Inl e \<Rightarrow> (Inl e, st1\<lparr> signatures := c \<rparr>)
         | Inr s1 \<Rightarrow> keepSnapshot p False extra (length hs) s1 (st1\<lparr> signatures := c \<rparr>))"
      using find Inr v seg(1) app markReceiver_id [OF chain(1) st1]
      by (simp add: snapshot_def bindA_def onSignatures_def split: sum.splits)
    have ref: "refSnapshot C p chain (unat n) x = Inr r \<longleftrightarrow> q = Inr r" for r using seg(2) q by (simp add: segmentTo_def)
    show ?thesis
    proof (cases q)
      case (Inr s1)
      with ref have "refOK C p chain (sHash s1) s1" using refOK_ref [OF chain] by auto
      from keepSnapshot_ok [OF st2 this] Inr ref snap show ?thesis by auto
    qed (use snap ref st2 in auto)
  qed
  then show "engineOK C p H chain (snd (snapshot C p chain n x [] False extra st))"
    "fst (snapshot C p chain n x [] False extra st) = Inr s \<longleftrightarrow> refSnapshot C p chain (unat n) x = Inr s" by simp_all
qed

section \<open>The search ends\<close>

lemma parsers_return:
  "getValidatorBytesFromHeader h cfg e \<noteq> Inl NoReturn" "parseValidators h cfg e \<noteq> Inl NoReturn"
  "parseTurnLength h cfg e \<noteq> Inl NoReturn" "getVoteAttestationFromHeader h cfg e \<noteq> Inl NoReturn"
  "snake8FreqDataOffset h cfg \<noteq> Inl NoReturn" "parseValidatorFrequencies h cfg \<noteq> Inl NoReturn"
proof -
  show b: "getValidatorBytesFromHeader h cfg e \<noteq> Inl NoReturn" for e
    by (auto simp: getValidatorBytesFromHeader_def Let_def modC_def bindE_eq_Inl split: if_splits option.splits)
  show "parseValidators h cfg e \<noteq> Inl NoReturn"
    using b [of e] by (auto simp: parseValidators_def Let_def bindE_eq_Inl split: if_splits)
  show "parseTurnLength h cfg e \<noteq> Inl NoReturn"
    by (auto simp: parseTurnLength_def Let_def modC_def bindE_eq_Inl split: if_splits)
  show "getVoteAttestationFromHeader h cfg e \<noteq> Inl NoReturn"
    by (auto simp: getVoteAttestationFromHeader_def Let_def modC_def bindE_eq_Inl split: if_splits option.splits sum.splits)
  show o: "snake8FreqDataOffset h cfg \<noteq> Inl NoReturn"
    using b by (auto simp: snake8FreqDataOffset_def Let_def modC_def bindE_eq_Inl split: if_splits option.splits)
  show "parseValidatorFrequencies h cfg \<noteq> Inl NoReturn"
    using o by (auto simp: parseValidatorFrequencies_def Let_def bindE_eq_Inl split: if_splits option.splits)
qed

lemma seal_returns: "recoverSigner C h c \<noteq> Inl NoReturn"
  by (auto simp: recoverSigner_def SealHash_def EncodeSigHeader_def Let_def bindE_eq_Inl split: if_splits option.splits sum.splits)

lemma ecrecover_returns: "fst (ecrecover C h c cache) \<noteq> Inl NoReturn"
  using seal_returns [of C h c] by (auto simp: ecrecover_def split: prod.splits option.splits sum.splits)

lemma switchValidators_returns: "switchValidators C cfg chain parents h e s \<noteq> Inl NoReturn"
  using parsers_return by (auto simp: switchValidators_def Let_def newValidatorMap_def bindE_eq_Inl split: if_splits option.splits)

lemma header_steps_return:
  "checkSigner cfg h v s \<noteq> Inl NoReturn" "updateAttestation h cfg s \<noteq> Inl NoReturn" "recordSigner cfg h v s \<noteq> Inl NoReturn"
  by (auto simp: checkSigner_def updateAttestation_def recordSigner_def Let_def split: if_splits option.splits sum.splits parlia_error.splits)

lemma bindA_Inl: "fst (bindA m f st) = Inl e \<Longrightarrow> fst (m st) = Inl e \<or> (\<exists>a. fst (m st) = Inr a \<and> fst (f a (snd (m st))) = Inl e)"
  by (auto simp: bindA_def split: prod.splits sum.splits)

lemma applyHeader_returns: "fst (applyHeader C d cfg chain parents h s c) \<noteq> Inl NoReturn"
  using switchValidators_returns header_steps_return ecrecover_returns
  by (auto simp: applyHeader_def Let_def liftA_def modC_def bindE_eq_Inl dest!: bindA_Inl split: if_splits)

lemma foldA_returns: "(\<And>x a s. fst (f x a s) \<noteq> Inl e) \<Longrightarrow> fst (foldA f xs a s) \<noteq> Inl e"
proof (induction xs arbitrary: a s)
  case (Cons x xs)
  then show ?case by (auto dest!: bindA_Inl)
qed (simp add: retA_def)

lemma contiguous_returns: "contiguous C hs \<noteq> Inl NoReturn"
  by (induction C hs rule: contiguous.induct) auto

lemma apply_snap_returns: "fst (apply_snap C d cfg chain parents b hs s c) \<noteq> Inl NoReturn"
proof
  assume "fst (apply_snap C d cfg chain parents b hs s c) = Inl NoReturn"
  then show False
    using contiguous_returns foldA_returns [of "applyHeader C d cfg chain parents" NoReturn] applyHeader_returns
    by (auto simp: apply_snap_def Let_def liftA_def retA_def dest!: bindA_Inl split: if_splits)
qed

lemma checkpoint_returns: "checkpointSnapshot C p chain n b \<noteq> Inl NoReturn"
  using parsers_return
  by (auto simp: checkpointSnapshot_def Let_def bindE_eq_Inl split: prod.splits option.splits if_splits)

lemma checkpoint_genesis:
  "GetHeaderByNumber chain 0 = Some g \<Longrightarrow> Hash C g \<noteq> 0 \<Longrightarrow> checkpointSnapshot C p chain 0 b \<noteq> Inr None"
  by (auto simp: checkpointSnapshot_def checkpointInfo_def Let_def bindE_eq_Inr)

lemma gatherHeader_returns: "gatherHeader C chain n x parents \<noteq> Inl NoReturn"
  by (auto simp: gatherHeader_def Let_def split: if_splits option.splits)

lemma findSnapshot_returns:
  assumes g: "GetHeaderByNumber chain 0 = Some g" "Hash C g \<noteq> 0"
  shows "unat n < fuel \<Longrightarrow> fst (findSnapshot C p chain b fuel n x parents headers st) \<noteq> Inl NoReturn"
proof (induction fuel arbitrary: n x parents headers st)
  case (Suc fuel)
  have rec: "fst (findSnapshot C p chain b fuel (n - 1) x' ps hs st') \<noteq> Inl NoReturn" if "n \<noteq> 0" for x' ps hs st'
    using Suc.IH [of "n - 1"] Suc.prems unat_minus_one [OF that] unat_gt_0 [of n] that by fastforce
  show ?case
  proof (cases "n = 0")
    case True
    then show ?thesis using checkpoint_returns [of C p chain 0 b] checkpoint_genesis [OF g, of p b]
      by (auto simp: isCheckpoint_def split: prod.splits option.splits sum.splits)
  next
    case False
    then show ?thesis using checkpoint_returns [of C p chain n b] gatherHeader_returns [of C chain n x parents] rec
      by (auto split: prod.splits option.splits sum.splits if_splits)
  qed
qed simp

section \<open>A chain of two blocks\<close>

text \<open>The genesis block lists one validator; the block after it is the first after Luban and Bohr. A third block, not yet on
  the chain, carries an attestation of the second one. The hash function tells the three encodings apart.\<close>

definition demoGenesis :: Header where
  "demoGenesis = exampleHeader\<lparr> Number := Some 0, Time := 0, Extra := replicate 32 0 @ addrBytes 7 @ replicate 65 0 \<rparr>"

definition demoBlock :: Header where
  "demoBlock = exampleHeader\<lparr> ParentHash := 5, UncleHash := 7, Coinbase := 7, Number := Some 1, Time := 3,
     Extra := replicate 97 0, BaseFee := Some InitialBaseFeeForBSC, WithdrawalsHash := None, BlobGasUsed := None,
     ExcessBlobGas := None, ParentBeaconRoot := None \<rparr>"

definition demoAttestation :: VoteAttestation where
  "demoAttestation = \<lparr> VoteAddressSet = 1, AggSignature = 0,
     AttData = Some \<lparr> SourceNumber = 0, SourceHash = 5, TargetNumber = 1, TargetHash = 7 \<rparr>, AttExtra = [] \<rparr>"

definition demoBlock2 :: Header where
  "demoBlock2 = demoBlock\<lparr> ParentHash := 7, Number := Some 2, Time := 6,
     Extra := replicate 32 0 @ enc attestationType (attestationVal demoAttestation) @ replicate 65 0 \<rparr>"

definition demoCrypto :: crypto where
  "demoCrypto = toyCrypto\<lparr> keccak256 :=
     (\<lambda>b. if Inr b = headerRLP demoGenesis then 5 else if Inr b = headerRLP demoBlock2 then 9 else 7) \<rparr>"

definition demoConfig :: ChainConfig where
  "demoConfig = lubanConfig\<lparr> RamanujanBlock := Some 0, BohrTime := Some 3, Parlia := Some \<lparr> Period = 3, Epoch = 200 \<rparr> \<rparr>"

definition demoEngine :: Engine where
  "demoEngine = \<lparr> chainConfig = demoConfig, defaultEpochLength = 200, genesisHash = 5, val = 7, fakeDiff = False,
     VotePool = None, rand = (\<lambda>_ _ i. 0) \<rparr>"

definition demoChain :: chain_reader where
  "demoChain = emptyChain\<lparr> Config := demoConfig,
     GetHeader := (\<lambda>x n. if x = 5 \<and> n = 0 then Some demoGenesis else if x = 7 \<and> n = 1 then Some demoBlock else None),
     GetHeaderByNumber := (\<lambda>n. if n = 0 then Some demoGenesis else if n = 1 then Some demoBlock else None),
     GetHeaderByHash := (\<lambda>x. if x = 5 then Some demoGenesis else if x = 7 then Some demoBlock else None) \<rparr>"

lemma demo_attestation_size: "length (enc attestationType (attestationVal demoAttestation)) \<le> 1000"
  by code_simp

lemma demo_ok:
  "wfHeader demoGenesis" "SanityCheck demoGenesis = Inr ()" "wfHeader demoBlock" "SanityCheck demoBlock = Inr ()"
  "wfHeader demoBlock2" "SanityCheck demoBlock2 = Inr ()"
proof -
  have "bitLen 2 \<le> 80" "bitLen 0 \<le> 256" "bitLen 2500000000000 \<le> 256" by (simp_all add: bitLen_le)
  then show "SanityCheck demoGenesis = Inr ()" "SanityCheck demoBlock = Inr ()" "SanityCheck demoBlock2 = Inr ()"
    using demo_attestation_size
    by (simp_all add: SanityCheck_def demoGenesis_def demoBlock2_def demoBlock_def exampleHeader_def InitialBaseFeeForBSC_def)
qed (simp_all add: InitialBaseFeeForBSC_def wfHeader_def demoGenesis_def demoBlock2_def demoBlock_def exampleHeader_def)

lemma headerRLP_inj:
  assumes "wfHeader h" "SanityCheck h = Inr ()" "wfHeader h'" "SanityCheck h' = Inr ()" "headerRLP h = headerRLP h'"
  shows "headerVal h = headerVal h'"
proof -
  have "enc headerType (headerVal h) = enc headerType (headerVal h')"
    using assms(5) unfolding headerRLP_enc(1) [OF assms(1,2)] headerRLP_enc(1) [OF assms(3,4)] by simp
  then show ?thesis using headerRLP_enc(2) [OF assms(1,2)] headerRLP_enc(2) [OF assms(3,4)] by (metis sum.inject(2))
qed

lemma headerRLP_number:
  assumes "wfHeader h" "SanityCheck h = Inr ()" "wfHeader h'" "SanityCheck h' = Inr ()" "Number h \<noteq> Number h'"
  shows "headerRLP h \<noteq> headerRLP h'"
  using headerRLP_inj [OF assms(1-4)] assms(5) by (auto simp: headerVal_def headerVals_def)

lemma demo_Hash [simp]: "Hash demoCrypto demoGenesis = 5" "Hash demoCrypto demoBlock = 7" "Hash demoCrypto demoBlock2 = 9"
proof -
  have n: "Number demoGenesis = Some 0" "Number demoBlock = Some 1" "Number demoBlock2 = Some 2"
    by (simp_all add: demoGenesis_def demoBlock2_def demoBlock_def exampleHeader_def)
  have ne: "headerRLP demoBlock \<noteq> headerRLP demoGenesis" "headerRLP demoBlock2 \<noteq> headerRLP demoGenesis"
    "headerRLP demoBlock \<noteq> headerRLP demoBlock2"
    using headerRLP_number demo_ok n by auto
  obtain b b' b'' where "headerRLP demoGenesis = Inr b" "headerRLP demoBlock = Inr b'" "headerRLP demoBlock2 = Inr b''"
    using headerRLP_enc(1) demo_ok by blast
  with ne show "Hash demoCrypto demoGenesis = 5" "Hash demoCrypto demoBlock = 7" "Hash demoCrypto demoBlock2 = 9"
    by (auto simp: Hash_def rlpHash_def demoCrypto_def)
qed

lemma demo_fields [simp]:
  "Number demoGenesis = Some 0" "Time demoGenesis = 0" "ParentHash demoBlock = 5" "Coinbase demoBlock = 7"
  "Number demoBlock = Some 1" "Time demoBlock = 3" "Extra demoBlock = replicate 97 0" "Difficulty demoBlock = Some 2"
  by (simp_all add: demoGenesis_def demoBlock_def exampleHeader_def)

lemma demo_headersOf: "headersOf demoChain = {demoGenesis, demoBlock}"
proof
  show "headersOf demoChain \<subseteq> {demoGenesis, demoBlock}" by (auto simp: headersOf_def demoChain_def split: if_splits)
  have "GetHeader demoChain 5 0 = Some demoGenesis" "GetHeader demoChain 7 1 = Some demoBlock" by (simp_all add: demoChain_def)
  then show "{demoGenesis, demoBlock} \<subseteq> headersOf demoChain" unfolding headersOf_def by blast
qed

lemma demo_turn:
  "parseTurnLength demoGenesis demoConfig e \<noteq> Inr (Some 0)" "parseTurnLength demoBlock demoConfig e \<noteq> Inr (Some 0)"
  by (auto simp: parseTurnLength_def bindE_eq_Inr demoGenesis_def demoBlock_def exampleHeader_def demoConfig_def IsBohr_def
      isTimestampForked_def split: if_splits)

lemma demo_sound: "soundChain demoCrypto demoEngine {demoGenesis, demoBlock, demoBlock2} demoChain"
  unfolding soundChain_def demo_headersOf
proof (intro conjI allI impI ballI)
  show "inj_on (Hash demoCrypto) {demoGenesis, demoBlock, demoBlock2}" unfolding inj_on_def by auto
  show "\<exists>g. GetHeaderByNumber demoChain 0 = Some g \<and> GetHeader demoChain (Hash demoCrypto g) 0 = Some g \<and> Hash demoCrypto g \<noteq> 0 \<and>
      length (Extra g) < 2 ^ 32 \<and> (\<forall>x h. GetHeader demoChain x 0 = Some h \<longrightarrow> h = g)"
    by (rule exI [of _ demoGenesis]) (simp add: demoChain_def, simp add: demoGenesis_def)
  show "parseTurnLength h (chainConfig demoEngine) e \<noteq> Inr (Some 0)" if "h \<in> {demoGenesis, demoBlock}" for h e
    using that demo_turn by (auto simp: demoEngine_def)
qed (auto simp: demoChain_def demoEngine_def demoConfig_def lubanConfig_def
    zeroChainConfig_def IsLuban_def IsBohr_def IsLondon_def isBlockForked_def isTimestampForked_def split: if_splits)

lemma demo_state: "engineOK demoCrypto demoEngine H demoChain (NewState (\<lambda>_. None))"
  by (rule engineOK_new) (auto simp: demoChain_def FullImmutabilityThreshold_def split: if_splits)

lemma demo_forks [simp]:
  "IsLuban demoConfig (Some n) = (1 \<le> n)" "IsBohr demoConfig (Some n) t = (0 \<le> n \<and> 3 \<le> t)"
  "IsLorentz demoConfig x t = False" "IsMaxwell demoConfig x t = False" "IsFermi demoConfig x t = False"
  "ChainID demoConfig = Some 88888"
  by (auto simp: demoConfig_def lubanConfig_def zeroChainConfig_def IsLuban_def IsBohr_def IsLondon_def isBlockForked_def
      IsLorentz_def IsMaxwell_def IsFermi_def isTimestampForked_def)

lemma demo_validators: "parseValidators demoGenesis demoConfig 200 = Inr ([7], [])"
  by code_simp

definition demoSnap :: Snapshot where
  "demoSnap = \<lparr> sNumber = 0, sHash = 5, EpochLength = 200, BlockInterval = 3000, TurnLength = 1,
     Validators = [(7, \<lparr> Index = 0, InfoVoteAddress = 0 \<rparr>)], Recents = [], RecentForkHashes = [], Attestation = None,
     IsSnake8Fork = False, FrequencyRLP = [] \<rparr>"

lemma demo_genesis_snapshot: "refSnapshot demoCrypto demoEngine demoChain 0 x = Inr demoSnap"
  using demo_validators
  by (simp add: checkpointSnapshot_def checkpointInfo_def demoChain_def demoEngine_def parseTurnLength_def newSnapshot_def
      defaultBlockInterval_def defaultTurnLength_def demoSnap_def)

lemma length_encList: "payload \<noteq> [] \<Longrightarrow> 1 < length (encList payload)"
  by (cases payload) (auto simp: encList_def encHead_def)

lemma length_enc_header: "1 < length (enc headerType (headerVal h))"
proof -
  have "encFields (take (15 + k) (map enc headerTypes)) (take (15 + k) (headerVals h)) \<noteq> []" for k
    by (simp add: headerTypes_def headerVals_def take_Cons')
  from length_encList [OF this [of "optionalCount h"]] show ?thesis
    using lastField_header [of h] by (simp add: headerType_def headerVal_def Let_def)
qed

lemma demo_keccak: "length b \<le> 1 \<Longrightarrow> keccak256 demoCrypto b = 7"
  using length_enc_header [of demoGenesis] length_enc_header [of demoBlock2] headerRLP_enc(1) [OF demo_ok(1,2)]
    headerRLP_enc(1) [OF demo_ok(5,6)] by (auto simp: demoCrypto_def)

lemma demo_recover [simp]: "recoverSigner demoCrypto demoBlock (Some 88888) = Inr 7"
proof -
  have "EncodeSigHeader demoBlock (Some 88888) = Inr (enc sigHeaderType (sigHeaderVal (Some 88888) demoBlock))"
    by (rule EncodeSigHeader_enc [OF demo_ok(3,4)]) simp_all
  moreover have "Ecrecover demoCrypto h b = Some []" for h b by (simp add: demoCrypto_def toyCrypto_def)
  ultimately show ?thesis by (simp add: recoverSigner_def SealHash_def demo_keccak)
qed

definition demoSnap1 :: Snapshot where
  "demoSnap1 = demoSnap\<lparr> sNumber := 1, sHash := 7, Recents := [(1, 7)], RecentForkHashes := [(1, [0, 0, 0, 0])] \<rparr>"

lemma demo_applyHeader:
  "\<exists>c. applyHeader demoCrypto 200 demoConfig demoChain [] demoBlock demoSnap (NewBasicLRU 1) =
    (Inr (demoSnap1\<lparr> sNumber := 0, sHash := 5 \<rparr>), c)"
proof -
  obtain c where sig: "ecrecover demoCrypto demoBlock (Some 88888) (NewBasicLRU 1) = (Inr 7, c)"
    by (simp add: ecrecover_def Get_def NewBasicLRU_def)
  have ext: "sliceC (Extra demoBlock) 28 32 = Some [0, 0, 0, 0]" "getVoteAttestationFromHeader demoBlock demoConfig e = Inr None" for e
    by (simp_all add: getVoteAttestationFromHeader_def sliceC_def slice_def eval_nat_numeral)
  show ?thesis
    by (rule exI [of _ c]) (use ext in \<open>simp add: applyHeader_def bindA_def sig liftA_def Let_def toy_eval demoSnap_def demoSnap1_def\<close>)
qed

lemma demo_snapshot: "refSnapshot demoCrypto demoEngine demoChain (Suc 0) 7 = Inr demoSnap1"
proof -
  obtain c where c: "applyHeader demoCrypto 200 demoConfig demoChain [] demoBlock demoSnap (NewBasicLRU 1) =
      (Inr (demoSnap1\<lparr> sNumber := 0, sHash := 5 \<rparr>), c)" using demo_applyHeader by blast
  have "copy (demoSnap\<lparr> IsSnake8Fork := False \<rparr>) = demoSnap" by (simp add: demoSnap_def copy_def)
  then have "apply_snap demoCrypto 200 demoConfig demoChain [] False [demoBlock] demoSnap (NewBasicLRU 1) = (Inr demoSnap1, c)"
    by (subst apply_snap_iff) (simp_all add: bindA_eq_Inr c retA_def renum_def, simp_all add: demoSnap_def demoSnap1_def)
  then have "applyPure demoCrypto demoEngine demoChain [demoBlock] demoSnap = Inr demoSnap1"
    by (simp add: applyPure_def demoEngine_def)
  moreover have "GetHeader demoChain 7 1 = Some demoBlock" by (simp add: demoChain_def)
  ultimately show ?thesis using demo_genesis_snapshot [of 5] by (simp del: refSnapshot.simps(1))
qed

section \<open>Properties\<close>

text \<open>C27. The reconstruction of a snapshot ends: if the reader has a genesis header with a
  non-zero hash, then \<open>snapshot\<close> returns a snapshot or an error for every block, every list of explicit
  parents and every state of the caches.\<close>

theorem snapshot_returns:
  assumes "GetHeaderByNumber chain 0 = Some g" "Hash C g \<noteq> 0"
  shows "fst (snapshot C p chain number hash parents isSnake8Fork extraHeader st) \<noteq> Inl NoReturn"
proof -
  have pop: "populateFrequency p b e s \<noteq> Inl NoReturn" for b e s
    by (auto simp: populateFrequency_def split: option.splits sum.splits parlia_error.splits)
  then have keep: "fst (keepSnapshot p b e k s st') \<noteq> Inl NoReturn" for b e k s st'
    by (auto simp: keepSnapshot_def Let_def split: sum.splits)
  have app: "fst (onSignatures (apply_snap C d cfg ch ps b hs s) st') \<noteq> Inl NoReturn" for d cfg ch ps b hs s st'
    using apply_snap_returns [of C d cfg ch ps b hs s "signatures st'"] by (auto simp: onSignatures_def split: prod.splits)
  show ?thesis
    using findSnapshot_returns [OF assms, of number "unat number + 1"] keep app
    by (auto simp: snapshot_def dest!: bindA_Inl split: prod.splits)
qed

theorem snapshot_returns_witness:
  "fst (snapshot demoCrypto demoEngine demoChain 9 8 [] True None (NewState (\<lambda>_. None))) \<noteq> Inl NoReturn"
  by (rule snapshot_returns [of _ demoGenesis]) (simp_all add: demoChain_def)

text \<open>C28. The caches and the database of the engine are transparent as long as the search needs no checkpoint. The chain is after
  Luban and Bohr from block 1 on and before Snake8, the call gives no explicit parents, the caches and the database hold reference
  snapshots and right signers, and from every block the genesis block or a stored snapshot is reached before so many headers have piled
  up that \<open>snapshot\<close> would trust an unverified checkpoint, whose snapshot has no recent signers and so is not the reference one. Then
  \<open>snapshot\<close> returns exactly the snapshot that results from applying every header from the genesis block on, one at a time and without
  any cache; it fails if that fails; and the state it leaves is again of this kind. A new engine is of this kind for every chain that is
  no longer than that bound.\<close>

theorem snapshot_cache_transparent:
  assumes "soundChain C p H chain" "GetHeader chain hash number = Some h"
    and "lru_cache.coherent (refOK C p chain) (recentSnaps st)" "sigCoherent C (ChainID (chainConfig p)) H (signatures st)"
    and "\<forall>x s. db st x = Some s \<longrightarrow> refOK C p chain x s"
    and "\<forall>x n. GetHeader chain x n \<noteq> None \<longrightarrow> nearStored chain (db st) FullImmutabilityThreshold n x"
  shows "(fst (snapshot C p chain number hash [] False extraHeader st) = Inr s
      \<longleftrightarrow> refSnapshot C p chain (unat number) hash = Inr s) \<and>
    engineOK C p H chain (snd (snapshot C p chain number hash [] False extraHeader st)) \<and>
    ((\<forall>x n. GetHeader chain x n \<noteq> None \<longrightarrow> unat n \<le> FullImmutabilityThreshold) \<longrightarrow> engineOK C p H chain (NewState (\<lambda>_. None)))"
proof -
  have "engineOK C p H chain st" using assms(3-6) by (simp add: engineOK_def)
  from snapshot_ok [OF assms(1,2) this] engineOK_new show ?thesis by blast
qed

theorem snapshot_cache_transparent_witness:
  "fst (snapshot demoCrypto demoEngine demoChain 1 7 [] False None (NewState (\<lambda>_. None))) = Inr demoSnap1 \<and>
    engineOK demoCrypto demoEngine {demoGenesis, demoBlock, demoBlock2} demoChain
      (snd (snapshot demoCrypto demoEngine demoChain 1 7 [] False None (NewState (\<lambda>_. None))))"
proof -
  have "GetHeader demoChain 7 1 = Some demoBlock" by (simp add: demoChain_def)
  note run = snapshot_cache_transparent [OF demo_sound this]
  have "lru_cache.coherent (refOK demoCrypto demoEngine demoChain) (recentSnaps (NewState (\<lambda>_. None)))"
    "sigCoherent demoCrypto (ChainID (chainConfig demoEngine)) {demoGenesis, demoBlock, demoBlock2} (signatures (NewState (\<lambda>_. None)))"
    "\<forall>x s. db (NewState (\<lambda>_. None)) x = Some s \<longrightarrow> refOK demoCrypto demoEngine demoChain x s"
    "\<forall>x n. GetHeader demoChain x n \<noteq> None \<longrightarrow> nearStored demoChain (db (NewState (\<lambda>_. None))) FullImmutabilityThreshold n x"
    using demo_state [of "{demoGenesis, demoBlock, demoBlock2}"] unfolding engineOK_def by blast+
  from run [OF this] demo_snapshot show ?thesis by simp
qed

end
