(* ===== verification/Acceptance.thy ===== *)
theory Acceptance
  imports Snapshot_Search
begin

text \<open>
  What the acceptance of a header means. \<open>verifyHeader\<close> consults snapshots up to six times, each time through the caches;
  the theorem states the verdict in terms of the reference snapshot of the parent. The steps of the engine keep the
  coherence of its state (\<open>keeps\<close>), whatever header they are called with.
\<close>

section \<open>Steps that keep the state coherent\<close>

definition keeps :: "(EngineState \<Rightarrow> bool) \<Rightarrow> 'a engine_act \<Rightarrow> bool" where
  "keeps P m \<longleftrightarrow> (\<forall>st. P st \<longrightarrow> P (snd (m st)))"

named_theorems keeps_intros

lemma keepsD: "keeps P m \<Longrightarrow> P st \<Longrightarrow> m st = (r, st') \<Longrightarrow> P st'"
  by (auto simp: keeps_def)

lemma keeps_pure [keeps_intros]: "keeps P (retA a)" "keeps P (liftA r)"
  by (simp_all add: keeps_def retA_def liftA_def)

lemma keeps_bind [keeps_intros]: "keeps P m \<Longrightarrow> (\<And>a. keeps P (f a)) \<Longrightarrow> keeps P (bindA m f)"
  by (auto simp: keeps_def bindA_def split: prod.splits sum.splits)

lemma keeps_wrapped [keeps_intros]:
  "keeps P m \<Longrightarrow> keeps P (replaceError e m)" "keeps P m' \<Longrightarrow> keeps P (tolerateBeforePlato b m')"
  by (auto simp: keeps_def replaceError_def tolerateBeforePlato_def split: prod.splits sum.splits)

lemma keeps_bind_lift: "(\<And>a. r = Inr a \<Longrightarrow> keeps P (f a)) \<Longrightarrow> keeps P (bindA (liftA r) f)"
  by (cases r) (simp_all add: keeps_pure)

lemma bindA_lift_Inr: "bindA (liftA r) f st = (Inr b, st') \<longleftrightarrow> (\<exists>a. r = Inr a \<and> f a st = (Inr b, st'))"
  by (cases r) (simp_all add: liftA_def)

section \<open>Snapshots of any block\<close>

text \<open>The end of \<open>snapshot\<close> when no header has to be applied.\<close>

lemma finish_ok:
  assumes "soundChain C p H chain" "engineOK C p H chain st" "refOK C p chain (sHash s) s"
  shows "engineOK C p H chain (snd (bindA (onSignatures (apply_snap C d cfg chain rest False [] s)) (keepSnapshot p False extra k)
    (markReceiver key False st)))"
proof -
  have "\<not> IsSnake8Fork s" using refOK_good [OF assms(1,3)] by (simp add: goodSnap_def)
  then show ?thesis
    using keepSnapshot_ok [OF assms(2,3)] markReceiver_id [OF assms(1,2)]
    by (simp add: bindA_def onSignatures_def apply_snap_def retA_def same_flag)
qed

lemma snapshot_eq:
  assumes "findSnapshot C p chain b (unat n + 1) n x parents [] st = (r, st1)"
  shows "snapshot C p chain n x parents b extra st = (case r of
      Inl e \<Rightarrow> (Inl e, st1)
    | Inr (key, s, hs, rest) \<Rightarrow>
        bindA (onSignatures (apply_snap C (defaultEpochLength p) (chainConfig p) chain rest b hs s))
          (keepSnapshot p b extra (length hs)) (markReceiver key b st1))"
  unfolding snapshot_def bindA_def [of "findSnapshot C p chain b (unat n + 1) n x parents []"] assms
  by (cases r) auto

lemma findSnapshot_missing:
  assumes chain: "soundChain C p H chain" "GetHeader chain x n = None" and st: "engineOK C p H chain st"
    and find: "findSnapshot C p chain False (unat n + 1) n x [] [] st = (r, st1)"
  shows "engineOK C p H chain st1 \<and> (case r of Inl _ \<Rightarrow> True
    | Inr (key, s, hs, rest) \<Rightarrow> hs = [] \<and> refOK C p chain (sHash s) s)"
proof -
  obtain q c where get: "Get x (recentSnaps st) = (q, c)" by fastforce
  note g = engineOK_get [OF st get]
  have self: "refOK C p chain (sHash s) s" if "refOK C p chain x s" for s using that by (simp add: refOK_def)
  let ?load = "if n mod checkpointInterval = 0 then loadSnapshot (defaultEpochLength p) (db st) x False else Inl errNotFound"
  show ?thesis
  proof (cases q)
    case (Some s)
    with find get g(1) self [OF g(2)] show ?thesis by auto
  next
    case None
    show ?thesis
    proof (cases ?load)
      case (Inr s)
      then have "loadSnapshot (defaultEpochLength p) (db st) x False = Inr s" by (simp split: if_splits)
      from engineOK_load [OF chain(1) st this] self Inr find get None st show ?thesis by auto
    next
      case (Inl e)
      show ?thesis
      proof (cases "n = 0")
        case False
        then have "\<not> isCheckpoint n 0" by (simp add: isCheckpoint_def)
        with Inl find get None st chain(2) show ?thesis by (auto simp: gatherHeader_def)
      next
        case True
        obtain g where g0: "GetHeaderByNumber chain 0 = Some g" "GetHeader chain (Hash C g) 0 = Some g"
          using soundChain_genesis [OF chain(1)] by metis
        show ?thesis
        proof (cases "checkpointSnapshot C p chain 0 False")
          case (Inl e')
          with True find get None st \<open>?load = Inl e\<close> show ?thesis by (auto simp: isCheckpoint_def)
        next
          case (Inr r')
          then obtain s where s: "r' = Some s" "sNumber s = 0" "sHash s = Hash C g"
            using goodSnap_genesis [OF chain(1) g0(1)] by metis
          with Inr g0 have ok: "refOK C p chain (sHash s) s" by (simp add: refOK_def)
          with engineOK_store [OF st ok] s Inr find get None True \<open>?load = Inl e\<close> show ?thesis
            by (auto simp: isCheckpoint_def)
        qed
      qed
    qed
  qed
qed

lemma snapshot_keeps [keeps_intros]:
  assumes chain: "soundChain C p H chain"
  shows "keeps (engineOK C p H chain) (snapshot C p chain n x [] False extra)"
  unfolding keeps_def
proof (intro allI impI)
  fix st assume st: "engineOK C p H chain st"
  show "engineOK C p H chain (snd (snapshot C p chain n x [] False extra st))"
  proof (cases "GetHeader chain x n")
    case (Some h)
    then show ?thesis using snapshot_ok(1) [OF chain _ st] by blast
  next
    case None
    obtain r st1 where find: "findSnapshot C p chain False (unat n + 1) n x [] [] st = (r, st1)" by fastforce
    note ok = findSnapshot_missing [OF chain None st find]
    show ?thesis
    proof (cases r)
      case (Inr v)
      obtain key s hs rest where "v = (key, s, hs, rest)" by (cases v)
      with Inr ok finish_ok [OF chain, of st1 s] show ?thesis unfolding snapshot_eq [OF find] by simp
    qed (use ok in \<open>simp add: snapshot_eq [OF find]\<close>)
  qed
qed

text \<open>An explicit parent that the chain also has makes no difference.\<close>

lemma findSnapshot_headers:
  "findSnapshot C p chain b fuel n x parents headers st = (Inr (key, s, hs, rest), st') \<Longrightarrow> \<exists>hs'. hs = hs' @ headers"
proof (induction fuel arbitrary: n x parents headers)
  case (Suc fuel)
  have "hs = headers \<or> (\<exists>h n x ps. findSnapshot C p chain b fuel n x ps (h # headers) st = (Inr (key, s, hs, rest), st'))"
    using Suc.prems by (auto split: prod.splits option.splits sum.splits if_splits)
  then show ?case
  proof (elim disjE exE)
    fix h n x ps
    assume "findSnapshot C p chain b fuel n x ps (h # headers) st = (Inr (key, s, hs, rest), st')"
    from Suc.IH [OF this] show ?case by auto
  qed simp
qed simp

lemma findSnapshot_explicit:
  assumes h: "GetHeader chain x n = Some h" "Hash C h = x" "numOf h = n"
    and find: "findSnapshot C p chain b (Suc k) n x [] [] st = (r, st1)"
  shows "findSnapshot C p chain b (Suc k) n x [h] [] st =
    ((case r of Inl e \<Rightarrow> Inl e | Inr (key, s, hs, rest) \<Rightarrow> Inr (key, s, hs, if hs = [] then [h] else rest)), st1)"
proof -
  have gather: "gatherHeader C chain n x [] = Inr (h, [])" "gatherHeader C chain n x [h] = Inr (h, [])"
    using h by (simp_all add: gatherHeader_def)
  have "hs \<noteq> []" if "findSnapshot C p chain b k (n - 1) (ParentHash h) [] [h] st = (Inr (key, s, hs, rest), st')" for key s hs rest st'
    using findSnapshot_headers [OF that] by auto
  then show ?thesis using find gather
    by (auto split: prod.splits option.splits sum.splits if_splits)
qed

lemma snapshot_explicit:
  assumes "GetHeader chain x n = Some h" "Hash C h = x" "numOf h = n"
  shows "snapshot C p chain n x [h] b extra = snapshot C p chain n x [] b extra"
proof
  fix st
  obtain r st1 where find: "findSnapshot C p chain b (unat n + 1) n x [] [] st = (r, st1)" by fastforce
  note find' = findSnapshot_explicit [OF assms find [unfolded Suc_eq_plus1 [symmetric]]]
  have "apply_snap C d cfg chain ps b [] s = retA (s\<lparr> IsSnake8Fork := b \<rparr>)" for d cfg ps s
    by (simp add: apply_snap_def)
  then show "snapshot C p chain n x [h] b extra st = snapshot C p chain n x [] b extra st"
    unfolding snapshot_eq [OF find] snapshot_eq [OF find' [unfolded Suc_eq_plus1]] by (auto split: sum.splits prod.splits)
qed

section \<open>The checks of a header\<close>

text \<open>Without a Snake8 time no block is after Snake8.\<close>

lemma noSnake8: "Snake8Time cfg = None \<Longrightarrow> isSnake8Enabled cfg chain h = Inr b \<Longrightarrow> \<not> b"
  by (auto simp: isSnake8Enabled_def IsSnake8_def isTimestampForked_def bindE_eq_Inr split: option.splits)

lemma parentSnapshot_keeps [keeps_intros]:
  assumes "soundChain C p H chain" "Snake8Time (chainConfig p) = None"
  shows "keeps (engineOK C p H chain) (parentSnapshot C p chain h [] extra)"
  unfolding parentSnapshot_def
proof (rule keeps_bind_lift)
  fix b assume "isSnake8Enabled (chainConfig p) chain h = Inr b"
  from noSnake8 [OF assms(2) this] show "keeps (engineOK C p H chain) (snapshot C p chain (numOf h - 1) (ParentHash h) [] b extra)"
    using snapshot_keeps [OF assms(1)] by simp
qed

lemma parentSnapshot_ref:
  assumes "soundChain C p H chain" "Snake8Time (chainConfig p) = None" "engineOK C p H chain st"
    and "GetHeader chain (ParentHash h) (numOf h - 1) = Some parent" "parentSnapshot C p chain h [] extra st = (Inr s, st')"
  shows "refSnapshot C p chain (unat (numOf h - 1)) (ParentHash h) = Inr s"
proof -
  from assms(5) obtain b where b: "isSnake8Enabled (chainConfig p) chain h = Inr b"
    "snapshot C p chain (numOf h - 1) (ParentHash h) [] b extra st = (Inr s, st')"
    by (auto simp: parentSnapshot_def bindA_lift_Inr)
  with noSnake8 [OF assms(2) b(1)] snapshot_ok(2) [OF assms(1,4,3), of extra s] show ?thesis by simp
qed

lemma epochLength_keeps [keeps_intros]:
  "soundChain C p H chain \<Longrightarrow> Snake8Time (chainConfig p) = None \<Longrightarrow> keeps (engineOK C p H chain) (epochLength C p chain h [])"
  by (simp add: epochLength_def keeps_intros)

lemma getParent_chain:
  "getParent C chain h [] = Inr parent \<Longrightarrow>
    GetHeader chain (ParentHash h) (numOf h - 1) = Some parent \<and> numOf parent = numOf h - 1 \<and> Hash C parent = ParentHash h"
  by (auto simp: getParent_def Let_def split: option.splits if_splits)

lemma justified_keeps:
  assumes "soundChain C p H chain" "Snake8Time (chainConfig p) = None" "getParent C chain h [] = Inr parent"
  shows "keeps (engineOK C p H chain) (GetJustifiedNumberAndHash C p chain [parent])"
proof -
  have "keeps (engineOK C p H chain) (headSnapshot C p chain parent [parent])"
    unfolding headSnapshot_def
  proof (rule keeps_bind_lift)
    fix b assume "isSnake8Enabled (chainConfig p) chain parent = Inr b"
    from noSnake8 [OF assms(2) this] have "\<not> b" .
    moreover have "snapshot C p chain (numOf parent) (Hash C parent) [parent] False (Some parent) =
        snapshot C p chain (numOf parent) (Hash C parent) [] False (Some parent)"
      using getParent_chain [OF assms(3)] by (intro snapshot_explicit) simp_all
    ultimately show "keeps (engineOK C p H chain) (snapshot C p chain (numOf parent) (Hash C parent) [parent] b (Some parent))"
      using snapshot_keeps [OF assms(1)] by simp
  qed
  then show ?thesis unfolding GetJustifiedNumberAndHash_def
    by (auto intro!: keeps_intros split: option.splits)
qed

lemma matchTarget_parents: "matchTarget C chain d n a [] = Inr (a', ps) \<Longrightarrow> ps = []"
  by (induction n arbitrary: a) (auto simp: bindE_eq_Inr trimParents_def split: if_splits)

lemma verifyVoteAttestation_keeps [keeps_intros]:
  assumes "soundChain C p H chain" "Snake8Time (chainConfig p) = None"
  shows "keeps (engineOK C p H chain) (verifyVoteAttestation C p chain h [])"
proof -
  have target: "keeps (engineOK C p H chain) (bindA (liftA (matchTarget C chain d n parent (trimParents []))) (\<lambda>(a, ps).
      bindA (parentSnapshot C p chain a ps (Some a)) (\<lambda>snap. liftA (verifyQuorum C snap att))))" for d n parent att
  proof (rule keeps_bind_lift)
    fix q assume m: "matchTarget C chain d n parent (trimParents []) = Inr q"
    obtain a ps where q: "q = (a, ps)" by fastforce
    with m have "ps = []" using matchTarget_parents by (simp add: trimParents_def)
    with q assms show "keeps (engineOK C p H chain) ((\<lambda>(a, ps).
        bindA (parentSnapshot C p chain a ps (Some a)) (\<lambda>snap. liftA (verifyQuorum C snap att))) q)"
      by (simp add: keeps_intros)
  qed
  show ?thesis
    unfolding verifyVoteAttestation_def
    by (auto intro!: keeps_intros keeps_bind_lift assms justified_keeps [OF assms] target split: option.splits)
qed

lemma engineOK_checkDoubleSign: "engineOK C p H chain st \<Longrightarrow> engineOK C p H chain (checkDoubleSign C h st)"
  by (auto simp: engineOK_def checkDoubleSign_def split: prod.splits)

lemma ecrecover_ok:
  assumes "soundChain C p H chain" "h \<in> H" "engineOK C p H chain st"
    and "onSignatures (ecrecover C h (ChainID (chainConfig p))) st = (r, st')"
  shows "r = recoverSigner C h (ChainID (chainConfig p))" "engineOK C p H chain st'"
proof -
  have c: "sigCoherent C (ChainID (chainConfig p)) H (signatures st)" using assms(3) by (simp add: engineOK_def)
  note e = ecrecover_correct [OF soundChain_inj(2) [OF assms(1)] assms(2) c]
  obtain q c' where q: "ecrecover C h (ChainID (chainConfig p)) (signatures st) = (q, c')" by fastforce
  with assms(4) have "r = q" "st' = st\<lparr> signatures := c' \<rparr>" by (simp_all add: onSignatures_def)
  with e q assms(3) show "r = recoverSigner C h (ChainID (chainConfig p))" "engineOK C p H chain st'"
    by (simp_all add: engineOK_def)
qed

lemma verifyDifficulty_ok:
  assumes "verifyDifficulty C s v h = Inr ()"
  shows "\<exists>d. CalcDifficulty C s v = Inr d \<and> Difficulty h = Some d"
proof -
  from assms obtain b where b: "inturn C s v = Inr b" by (cases "inturn C s v") (simp_all add: verifyDifficulty_def)
  with assms obtain d where d: "Difficulty h = Some d" by (cases "Difficulty h") (simp_all add: verifyDifficulty_def)
  from assms b d show ?thesis by (cases b) (simp_all add: verifyDifficulty_def CalcDifficulty_def split: if_splits)
qed

text \<open>What the seal check establishes, with \<open>s\<close> the snapshot of the parent.\<close>

definition sealOK :: "crypto \<Rightarrow> Engine \<Rightarrow> Snapshot \<Rightarrow> Header \<Rightarrow> bool" where
  "sealOK C p s h \<longleftrightarrow> recoverSigner C h (ChainID (chainConfig p)) = Inr (Coinbase h) \<and>
     Coinbase h \<in> fst ` set (Validators s) \<and> \<not> SignRecently s (Coinbase h) \<and>
     (\<not> fakeDiff p \<longrightarrow> (\<exists>d. CalcDifficulty C s (Coinbase h) = Inr d \<and> Difficulty h = Some d))"

lemma verifySeal_ok:
  assumes chain: "soundChain C p H chain" "Snake8Time (chainConfig p) = None" "h \<in> H"
    and parent: "GetHeader chain (ParentHash h) (numOf h - 1) = Some parent" and st: "engineOK C p H chain st"
    and acc: "verifySeal C p chain h [] st = (Inr (), st')"
  obtains s where "refSnapshot C p chain (unat (numOf h - 1)) (ParentHash h) = Inr s" "sealOK C p s h" "engineOK C p H chain st'"
proof -
  from acc obtain s st1 signer st2 where 1: "parentSnapshot C p chain h [] (Some h) st = (Inr s, st1)"
    and 2: "onSignatures (ecrecover C h (ChainID (chainConfig p))) st1 = (Inr signer, st2)"
    and 3: "signer = Coinbase h" "gm_get (Validators s) signer \<noteq> None" "\<not> SignRecently s signer"
      "\<not> fakeDiff p \<Longrightarrow> verifyDifficulty C s signer h = Inr ()" "st' = checkDoubleSign C h st2"
    by (auto simp: verifySeal_def bindA_eq_Inr split: if_splits)
  have st1: "engineOK C p H chain st1" by (rule keepsD [OF parentSnapshot_keeps [OF chain(1,2)] st 1])
  note e = ecrecover_ok [OF chain(1,3) st1 2]
  have "\<exists>d. CalcDifficulty C s signer = Inr d \<and> Difficulty h = Some d" if "\<not> fakeDiff p"
    using verifyDifficulty_ok [OF 3(4) [OF that]] .
  moreover have "signer \<in> fst ` set (Validators s)" using 3(2) unfolding map_of_eq_None_iff by simp
  ultimately have "sealOK C p s h" unfolding sealOK_def using 3(1,3) e(1) by simp
  moreover have "engineOK C p H chain st'" unfolding 3(5) using e(2) by (rule engineOK_checkDoubleSign)
  ultimately show thesis using that parentSnapshot_ref [OF chain(1,2) st parent 1] by blast
qed

text \<open>What the fields that depend on the parent must satisfy.\<close>

definition timeOK :: "crypto \<Rightarrow> Engine \<Rightarrow> Snapshot \<Rightarrow> Header \<Rightarrow> Header \<Rightarrow> bool" where
  "timeOK C p s parent h \<longleftrightarrow> (IsRamanujan (chainConfig p) (Number h) \<longrightarrow>
     (\<exists>b. backOffTime C (rand p) (chainConfig p) s parent h (Coinbase h) = Inr b \<and>
        MilliTimestamp parent + BlockInterval s + b \<le> MilliTimestamp h))"

lemma verifyCascadingFields_ok:
  assumes chain: "soundChain C p H chain" "Snake8Time (chainConfig p) = None" "h \<in> H" "numOf h \<noteq> 0"
    and st: "engineOK C p H chain st" and acc: "verifyCascadingFields C p chain h [] st = (Inr (), st')"
  obtains parent s where "GetHeader chain (ParentHash h) (numOf h - 1) = Some parent"
    "refSnapshot C p chain (unat (numOf h - 1)) (ParentHash h) = Inr s"
    "sealOK C p s h" "timeOK C p s parent h" "verifyGas p parent h = Inr ()" "engineOK C p H chain st'"
proof -
  from acc chain(4) obtain parent s st1 st2 where parent: "getParent C chain h [] = Inr parent"
    and 1: "parentSnapshot C p chain h [] (Some h) st = (Inr s, st1)"
    and 2: "blockTimeVerifyForRamanujanFork C (rand p) (chainConfig p) s h parent = Inr ()" "verifyGas p parent h = Inr ()"
    and 3: "tolerateBeforePlato (IsPlato (Config chain) (Number h)) (verifyVoteAttestation C p chain h []) st1 = (Inr (), st2)"
    and 4: "verifySeal C p chain h [] st2 = (Inr (), st')"
    by (auto simp: verifyCascadingFields_def bindA_lift_Inr bindA_eq_Inr [of "parentSnapshot C p chain h [] (Some h)"]
        bindA_eq_Inr [of "tolerateBeforePlato (IsPlato (Config chain) (Number h)) (verifyVoteAttestation C p chain h [])"])
  note P = getParent_chain [OF parent, THEN conjunct1]
  note ref = parentSnapshot_ref [OF chain(1,2) st P 1]
  have st1: "engineOK C p H chain st1" by (rule keepsD [OF parentSnapshot_keeps [OF chain(1,2)] st 1])
  have st2: "engineOK C p H chain st2"
    by (rule keepsD [OF keeps_wrapped(2) [OF verifyVoteAttestation_keeps [OF chain(1,2)]] st1 3])
  obtain s' where s': "refSnapshot C p chain (unat (numOf h - 1)) (ParentHash h) = Inr s'" "sealOK C p s' h" "engineOK C p H chain st'"
    using verifySeal_ok [OF chain(1-3) P st2 4] by blast
  have "timeOK C p s parent h"
    using 2(1) by (auto simp: timeOK_def blockTimeVerifyForRamanujanFork_def bindE_eq_Inr not_less split: if_splits)
  with that P ref s' 2(2) show thesis by simp
qed

section \<open>A header that is accepted\<close>

abbreviation demoOK :: "EngineState \<Rightarrow> bool" where
  "demoOK \<equiv> engineOK demoCrypto demoEngine {demoGenesis, demoBlock, demoBlock2} demoChain"

lemma demo_noSnake8 [simp]: "Snake8Time demoConfig = None" "IsSnake8 demoConfig t = False"
  by (simp_all add: demoConfig_def lubanConfig_def zeroChainConfig_def IsSnake8_def isTimestampForked_def)

lemma demo_engine [simp]: "chainConfig demoEngine = demoConfig" "fakeDiff demoEngine = False" "Config demoChain = demoConfig"
  by (simp_all add: demoEngine_def demoChain_def)

lemma demo_get [simp]: "GetHeader demoChain 5 0 = Some demoGenesis" "GetHeader demoChain 7 1 = Some demoBlock"
  by (simp_all add: demoChain_def)

lemma demo_parentSnapshot:
  assumes "demoOK st"
  obtains st' where "parentSnapshot demoCrypto demoEngine demoChain demoBlock [] e st = (Inr demoSnap, st')" "demoOK st'"
proof -
  let ?m = "snapshot demoCrypto demoEngine demoChain 0 5 [] False e"
  have "fst (?m st) = Inr demoSnap" "demoOK (snd (?m st))"
    using snapshot_ok(1) [OF demo_sound demo_get(1) assms, of e] snapshot_ok(2) [OF demo_sound demo_get(1) assms, of e demoSnap]
      demo_genesis_snapshot [of 5] by simp_all
  moreover have "isSnake8Enabled demoConfig demoChain demoBlock = Inr False"
    by (simp add: isSnake8Enabled_def) (simp add: demoChain_def)
  ultimately show thesis using that [of "snd (?m st)"] by (cases "?m st") (simp add: parentSnapshot_def)
qed

lemma demo_uncles: "UncleHash demoBlock = EmptyUncleHash demoCrypto"
proof -
  have e: "EncodeToBytes (TSlice (TPtr (TStruct [] 0))) (VSlice []) = Inr [0xC0]" by code_simp
  then show ?thesis by (simp add: EmptyUncleHash_def rlpHash_def demo_keccak demoBlock_def)
qed

lemma demo_header [simp]:
  "MixDigest demoBlock = 0" "MixDigest demoGenesis = 0" "GasLimit demoBlock = 30000000" "GasLimit demoGenesis = 30000000"
  "GasUsed demoBlock = 21000" "GasUsed demoGenesis = 21000" "BaseFee demoGenesis = Some 0" "BaseFee demoBlock = Some InitialBaseFeeForBSC"
  "WithdrawalsHash demoBlock = None" "BlobGasUsed demoBlock = None" "ExcessBlobGas demoBlock = None" "ParentBeaconRoot demoBlock = None"
  "RequestsHash demoBlock = None" "MilliTimestamp demoBlock = 3000" "MilliTimestamp demoGenesis = 0"
  by (simp_all add: demoGenesis_def demoBlock_def exampleHeader_def MilliTimestamp_def)

lemma demo_forks2 [simp]:
  "IsLondon demoConfig (Some n) = (0 \<le> n)" "IsCancun demoConfig x t = False" "IsPrague demoConfig x t = False"
  "Parlia demoConfig \<noteq> None" "IsNotInBSC demoConfig = False" "IsRamanujan demoConfig (Some n) = (0 \<le> n)" "IsPlanck demoConfig x = False"
  by (auto simp: demoConfig_def lubanConfig_def zeroChainConfig_def IsLondon_def isBlockForked_def IsNotInBSC_def
      IsCancun_def IsPrague_def isTimestampForked_def IsRamanujan_def IsPlanck_def)

lemma demo_checks:
  "verifyExtra demoEngine demoBlock 200 = Inr ()" "verifyMixDigest demoChain demoBlock = Inr ()"
  "getParent demoCrypto demoChain demoBlock [] = Inr demoGenesis" "verifyBaseFee demoChain demoBlock demoGenesis = Inr ()"
  "verifyBlobFields demoChain demoBlock demoGenesis = Inr ()" "verifyPragueFields demoChain demoBlock = Inr ()"
  "verifySnake8Extra demoConfig demoBlock demoGenesis = Inr ()" "verifyGas demoEngine demoGenesis demoBlock = Inr ()"
proof -
  show "verifyExtra demoEngine demoBlock 200 = Inr ()" by (simp add: verifyExtra_def getValidatorBytesFromHeader_def)
  show "verifyMixDigest demoChain demoBlock = Inr ()" by (simp add: verifyMixDigest_def)
  show "getParent demoCrypto demoChain demoBlock [] = Inr demoGenesis" by (simp add: getParent_def)
  show "verifyBaseFee demoChain demoBlock demoGenesis = Inr ()"
    by (simp add: verifyBaseFee_def VerifyEIP1559Header_def CalcBaseFee_def ElasticityMultiplier_def params_consts word_less_def uint_div)
  show "verifyBlobFields demoChain demoBlock demoGenesis = Inr ()" by (simp add: verifyBlobFields_def)
  show "verifyPragueFields demoChain demoBlock = Inr ()" by (simp add: verifyPragueFields_def)
  show "verifySnake8Extra demoConfig demoBlock demoGenesis = Inr ()"
    by (simp add: verifySnake8Extra_def extractSnake8ParentTimestamp_def snake8FreqDataOffset_def)
  show "verifyGas demoEngine demoGenesis demoBlock = Inr ()"
    by (simp add: verifyGas_def absDiff_def params_consts gasLimitBoundDivisorBeforeLorentz_def)
qed

lemma demo_inturn: "inturn demoCrypto demoSnap 7 = Inr True"
  by (simp add: inturn_def inturnValidator_def selectValidatorRoundRobin_def demoSnap_def validators_def)

lemma demo_time: "blockTimeVerifyForRamanujanFork demoCrypto (rand demoEngine) demoConfig demoSnap demoBlock demoGenesis = Inr ()"
  by (simp add: blockTimeVerifyForRamanujanFork_def backOffTime_def demo_inturn) (simp add: demoSnap_def)

lemma demo_attestation:
  assumes "demoOK st"
  obtains st' where "verifyVoteAttestation demoCrypto demoEngine demoChain demoBlock [] st = (Inr (), st')" "demoOK st'"
proof -
  obtain st' where st': "parentSnapshot demoCrypto demoEngine demoChain demoBlock [] None st = (Inr demoSnap, st')" "demoOK st'"
    using demo_parentSnapshot [OF assms] by blast
  have "getVoteAttestationFromHeader demoBlock demoConfig e = Inr None" for e by (simp add: getVoteAttestationFromHeader_def)
  with st' that show thesis by (simp add: verifyVoteAttestation_def epochLength_def bindA_def retA_def liftA_def)
qed

lemma demo_seal:
  assumes "demoOK st"
  obtains st' where "verifySeal demoCrypto demoEngine demoChain demoBlock [] st = (Inr (), st')"
proof -
  obtain st1 where st1: "parentSnapshot demoCrypto demoEngine demoChain demoBlock [] (Some demoBlock) st = (Inr demoSnap, st1)" "demoOK st1"
    using demo_parentSnapshot [OF assms] by blast
  obtain r st2 where r: "onSignatures (ecrecover demoCrypto demoBlock (ChainID (chainConfig demoEngine))) st1 = (r, st2)" by fastforce
  have "r = Inr 7" using ecrecover_ok(1) [OF demo_sound _ st1(2) r] by simp
  moreover have "verifyDifficulty demoCrypto demoSnap 7 demoBlock = Inr ()"
    by (simp add: verifyDifficulty_def demo_inturn diffInTurn_def)
  moreover have "gm_get (Validators demoSnap) 7 \<noteq> None" "\<not> SignRecently demoSnap 7"
    by (simp_all add: demoSnap_def SignRecently_def countRecents_def signRecentlyByCounts_def)
  ultimately show thesis using that st1(1) r by (simp add: verifySeal_def bindA_def)
qed

lemma demo_accepted: "\<exists>st'. verifyHeader demoCrypto demoEngine demoChain 10 demoBlock [] (NewState (\<lambda>_. None)) = (Inr (), st')"
proof -
  obtain st1 where st1: "parentSnapshot demoCrypto demoEngine demoChain demoBlock [] None (NewState (\<lambda>_. None)) = (Inr demoSnap, st1)" "demoOK st1"
    using demo_parentSnapshot [OF demo_state] by blast
  obtain st2 where st2: "parentSnapshot demoCrypto demoEngine demoChain demoBlock [] (Some demoBlock) st1 = (Inr demoSnap, st2)" "demoOK st2"
    using demo_parentSnapshot [OF st1(2)] by blast
  obtain st3 where st3: "verifyVoteAttestation demoCrypto demoEngine demoChain demoBlock [] st2 = (Inr (), st3)" "demoOK st3"
    using demo_attestation [OF st2(2)] by blast
  obtain st4 where st4: "verifySeal demoCrypto demoEngine demoChain demoBlock [] st3 = (Inr (), st4)"
    using demo_seal [OF st3(2)] by blast
  have "verifyCascadingFields demoCrypto demoEngine demoChain demoBlock [] st1 = (Inr (), st4)"
    using st2(1) st3(1) st4 demo_checks demo_time
    by (simp add: verifyCascadingFields_def tolerateBeforePlato_def bindA_def liftA_def)
  moreover have "epochLength demoCrypto demoEngine demoChain demoBlock [] (NewState (\<lambda>_. None)) = (Inr 200, st1)"
    using st1(1) by (simp add: epochLength_def bindA_def retA_def) (simp add: demoSnap_def)
  ultimately show ?thesis using demo_checks demo_uncles
    by (simp add: verifyHeader_def bindA_def liftA_def)
qed

section \<open>Properties\<close>

text \<open>C29. What the acceptance of a header means. If \<open>verifyHeader\<close> accepts a header of a chain after Bohr and before Snake8,
  with any coherent state of the caches in which no snapshot has to start from an unverified checkpoint, then its parent is on the chain and, with the reference snapshot of the parent:
  the seal is by the coinbase, which is a validator that has not signed recently; the difficulty is the one of that validator's
  turn; the block is not earlier than the parent's time plus the block interval plus the back-off of the validator; it is not
  from the future; its gas limit is at least the minimum and not exceeded; and the state stays coherent.\<close>

theorem header_accepted:
  assumes "soundChain C p H chain" "Snake8Time (chainConfig p) = None" "header \<in> H" "numOf header \<noteq> 0" "\<not> fakeDiff p"
    and "engineOK C p H chain st" "verifyHeader C p chain now header [] st = (Inr (), st')"
  shows "\<exists>parent s d. GetHeader chain (ParentHash header) (numOf header - 1) = Some parent \<and>
    refSnapshot C p chain (unat (numOf header - 1)) (ParentHash header) = Inr s \<and>
    recoverSigner C header (ChainID (chainConfig p)) = Inr (Coinbase header) \<and>
    Coinbase header \<in> fst ` set (Validators s) \<and> \<not> SignRecently s (Coinbase header) \<and>
    CalcDifficulty C s (Coinbase header) = Inr d \<and> Difficulty header = Some d \<and>
    (IsRamanujan (chainConfig p) (Number header) \<longrightarrow>
      (\<exists>b. backOffTime C (rand p) (chainConfig p) s parent header (Coinbase header) = Inr b \<and>
        MilliTimestamp parent + BlockInterval s + b \<le> MilliTimestamp header)) \<and>
    Time header \<le> now + 1 \<and> GasUsed header \<le> GasLimit header \<and> GasLimit header \<ge> MinGasLimit \<and>
    engineOK C p H chain st'"
proof -
  from assms(7) obtain e st1 where 1: "epochLength C p chain header [] st = (Inr e, st1)"
    and 2: "verifyCascadingFields C p chain header [] st1 = (Inr (), st')" "Time header \<le> now + 1"
    by (auto simp: verifyHeader_def bindA_lift_Inr bindA_eq_Inr [of "epochLength C p chain header []"] not_less split: if_splits)
  have st1: "engineOK C p H chain st1" by (rule keepsD [OF epochLength_keeps [OF assms(1,2)] assms(6) 1])
  obtain parent s where *: "GetHeader chain (ParentHash header) (numOf header - 1) = Some parent"
    "refSnapshot C p chain (unat (numOf header - 1)) (ParentHash header) = Inr s"
    "sealOK C p s header" "timeOK C p s parent header" "verifyGas p parent header = Inr ()" "engineOK C p H chain st'"
    using verifyCascadingFields_ok [OF assms(1-4) st1 2(1)] by blast
  from *(5) have "GasUsed header \<le> GasLimit header" "MinGasLimit \<le> GasLimit header"
    by (auto simp: verifyGas_def Let_def not_less split: if_splits)
  with * assms(5) 2(2) show ?thesis by (auto simp: sealOK_def timeOK_def)
qed

theorem header_accepted_witness:
  "\<exists>st' parent s d. verifyHeader demoCrypto demoEngine demoChain 10 demoBlock [] (NewState (\<lambda>_. None)) = (Inr (), st') \<and>
    GetHeader demoChain (ParentHash demoBlock) (numOf demoBlock - 1) = Some parent \<and>
    refSnapshot demoCrypto demoEngine demoChain (unat (numOf demoBlock - 1)) (ParentHash demoBlock) = Inr s \<and>
    Coinbase demoBlock \<in> fst ` set (Validators s) \<and> \<not> SignRecently s (Coinbase demoBlock) \<and>
    CalcDifficulty demoCrypto s (Coinbase demoBlock) = Inr d \<and> Difficulty demoBlock = Some d \<and> demoOK st'"
proof -
  obtain st' where st': "verifyHeader demoCrypto demoEngine demoChain 10 demoBlock [] (NewState (\<lambda>_. None)) = (Inr (), st')"
    using demo_accepted by blast
  have "Snake8Time (chainConfig demoEngine) = None" "numOf demoBlock \<noteq> 0" "\<not> fakeDiff demoEngine" by simp_all
  from header_accepted [OF demo_sound this(1) _ this(2,3) demo_state st'] st' show ?thesis by blast
qed

end
