(* ===== verification/Voting.thy ===== *)
theory Voting
  imports Acceptance
begin

text \<open>
  The operations of the engine (\<open>consensus/parlia/parlia.go\<close>) around fast-finality votes and the turn of the local validator:
  the check of a vote, the assembly of an attestation from the vote pool into the header that is being sealed, the
  finalized header, and the questions that the miner asks of the snapshot.

  The vote pool is reached through \<open>FetchVotesByBlockHash\<close> only, a function from the target hash and the source
  number to the votes. An operation that reports no error value is an action whose only errors are panics.
\<close>

section \<open>Callers that swallow errors\<close>

definition recoverWith :: "'a \<Rightarrow> 'a engine_act \<Rightarrow> 'a engine_act" where
  "recoverWith d m st = (case m st of
       (Inl e, st') \<Rightarrow> (if e = Panic \<or> e = NoReturn then Inl e else Inr d, st')
     | (Inr a, st') \<Rightarrow> (Inr a, st'))"

section \<open>Questions about the local validator\<close>

definition IsActiveValidatorAt ::
  "crypto \<Rightarrow> Engine \<Rightarrow> chain_reader \<Rightarrow> Header \<Rightarrow> (blskey \<Rightarrow> bool) option \<Rightarrow> bool engine_act" where
  "IsActiveValidatorAt C p chain header checkVoteKeyFn =
     recoverWith False (bindA (parentSnapshot C p chain header [] (Some header)) (\<lambda>snap.
       retA (case gm_get (Validators snap) (val p) of
           None \<Rightarrow> False
         | Some info \<Rightarrow> (case checkVoteKeyFn of None \<Rightarrow> True | Some check \<Rightarrow> check (InfoVoteAddress info)))))"

definition NextInTurnValidator :: "crypto \<Rightarrow> Engine \<Rightarrow> chain_reader \<Rightarrow> Header \<Rightarrow> address engine_act" where
  "NextInTurnValidator C p chain header =
     bindA (headSnapshot C p chain header []) (\<lambda>snap. liftA (inturnValidator C snap))"

definition EnoughDistance :: "crypto \<Rightarrow> Engine \<Rightarrow> chain_reader \<Rightarrow> Header \<Rightarrow> bool engine_act" where
  "EnoughDistance C p chain header =
     recoverWith True (bindA (parentSnapshot C p chain header [] (Some header)) (\<lambda>snap.
       retA (enoughDistance snap (val p) header)))"

definition IsLocalBlock :: "Engine \<Rightarrow> Header \<Rightarrow> bool" where
  "IsLocalBlock p header \<longleftrightarrow> val p = Coinbase header"

definition Engine_SignRecently :: "crypto \<Rightarrow> Engine \<Rightarrow> chain_reader \<Rightarrow> Header \<Rightarrow> bool engine_act" where
  "Engine_SignRecently C p chain parent =
     bindA (headSnapshot C p chain parent []) (\<lambda>snap.
       if gm_get (Validators snap) (val p) = None then liftA (Inl (errUnauthorizedValidator (val p)))
       else retA (SignRecently snap (val p)))"

definition Engine_CalcDifficulty :: "crypto \<Rightarrow> Engine \<Rightarrow> chain_reader \<Rightarrow> Header \<Rightarrow> int option engine_act" where
  "Engine_CalcDifficulty C p chain parent =
     recoverWith None (bindA (headSnapshot C p chain parent []) (\<lambda>snap.
       liftA (bindE (CalcDifficulty C snap (val p)) (\<lambda>d. Inr (Some d)))))"

definition NextProposalBlock :: "crypto \<Rightarrow> Engine \<Rightarrow> chain_reader \<Rightarrow> Header \<Rightarrow> address \<Rightarrow> (u64 \<times> u64) engine_act" where
  "NextProposalBlock C p chain header proposer =
     bindA (headSnapshot C p chain header []) (\<lambda>snap. liftA (nextProposalBlock snap proposer))"

text \<open>A nil difficulty panics in \<open>Cmp\<close>; \<open>&&\<close> evaluates from the left.\<close>

definition inTurnDifficulty :: "Header \<Rightarrow> bool result" where
  "inTurnDifficulty header = (case Difficulty header of None \<Rightarrow> Inl Panic | Some d \<Rightarrow> Inr (d = diffInTurn))"

definition isIntentionalDelayMining :: "crypto \<Rightarrow> Engine \<Rightarrow> chain_reader \<Rightarrow> Header \<Rightarrow> bool engine_act" where
  "isIntentionalDelayMining C p chain header =
     (case GetHeader chain (ParentHash header) (numOf header - 1) of
        None \<Rightarrow> liftA (Inl (ErrMsg ''parent not found''))
      | Some parent \<Rightarrow>
          bindA (Engine_BlockInterval C p chain header) (\<lambda>blockInterval.
            if Coinbase header \<noteq> Coinbase parent then retA False
            else liftA (bindE (inTurnDifficulty header) (\<lambda>b.
              if \<not> b then Inr False
              else bindE (inTurnDifficulty parent) (\<lambda>b'.
                Inr (b' \<and> MilliTimestamp parent + blockInterval < MilliTimestamp header))))))"

section \<open>Votes\<close>

definition VerifyVote :: "crypto \<Rightarrow> Engine \<Rightarrow> chain_reader \<Rightarrow> VoteEnvelope \<Rightarrow> unit engine_act" where
  "VerifyVote C p chain vote =
     (case EnvData vote of
        None \<Rightarrow> liftA (Inl Panic)
      | Some d \<Rightarrow>
          (case GetVerifiedBlockByHash chain (TargetHash d) of
             None \<Rightarrow> liftA (Inl (ErrMsg ''BlockHeader at current voteBlockNumber is nil''))
           | Some header \<Rightarrow>
               if numOf header \<noteq> TargetNumber d then liftA (Inl (ErrMsg ''target number mismatch''))
               else
                 bindA (replaceError (ErrMsg ''unexpected error when getting the highest justified number and hash'')
                     (GetJustifiedNumberAndHash C p chain [header])) (\<lambda>(justifiedBlockNumber, justifiedBlockHash).
                 if SourceNumber d \<noteq> justifiedBlockNumber \<or> SourceHash d \<noteq> justifiedBlockHash
                 then liftA (Inl (ErrMsg ''vote source block mismatch''))
                 else
                   bindA (replaceError (ErrMsg ''failed to get the snapshot from consensus'')
                       (parentSnapshot C p chain header [] (Some header))) (\<lambda>snap.
                   if list_ex (\<lambda>(addr, validator). InfoVoteAddress validator = VoteAddress vote) (Validators snap)
                   then retA () else liftA (Inl (ErrMsg ''vote verification failed''))))))"

section \<open>Assembly of an attestation\<close>

text \<open>The search for a target with enough votes, \<open>n\<close> generations deep from \<open>target\<close>.\<close>

fun findTarget ::
  "crypto \<Rightarrow> Engine \<Rightarrow> chain_reader \<Rightarrow> (hash \<Rightarrow> u64 \<Rightarrow> VoteEnvelope list) \<Rightarrow> u64 \<Rightarrow> nat \<Rightarrow> Header \<Rightarrow>
   (Header \<times> Snapshot \<times> VoteEnvelope list) option engine_act" where
  "findTarget C p chain fetch justified 0 target = retA None"
| "findTarget C p chain fetch justified (Suc n) target =
     bindA (parentSnapshot C p chain target [] (Some target)) (\<lambda>snap.
       let votes = fetch (Hash C target) justified in
       if quorum snap \<le> length votes then retA (Some (target, snap, votes))
       else (case GetHeaderByHash chain (ParentHash target) of
           None \<Rightarrow> liftA (Inl (ErrMsg ''parent not found''))
         | Some target' \<Rightarrow>
             if numOf target' \<le> justified then retA None
             else findTarget C p chain fetch justified n target'))"

text \<open>The bits of the validators whose vote address has voted. The stored index is offset by 1; a shift by \<open>-1\<close> panics.\<close>

definition voteAddressSet :: "blskey list \<Rightarrow> (address, ValidatorInfo) gomap \<Rightarrow> u64 result" where
  "voteAddressSet voters vals =
     fold (\<lambda>(_, valInfo) r. bindE r (\<lambda>w.
         if InfoVoteAddress valInfo \<in> set voters
         then (if Index valInfo = 0 then Inl Panic else Inr (w OR push_bit (Index valInfo - 1) 1))
         else Inr w)) vals (Inr 0)"

definition buildAttestation :: "crypto \<Rightarrow> VoteData \<Rightarrow> Snapshot \<Rightarrow> VoteEnvelope list \<Rightarrow> VoteAttestation result" where
  "buildAttestation C d snap votes =
     (if \<not> list_all (\<lambda>vote. VoteData_Hash C (EnvData vote) = VoteData_Hash C (Some d)) votes
      then Inl (ErrMsg ''vote check error'')
      else
        (let sigs = map Signature votes in
         if \<not> MultipleSignaturesOK C sigs then Inl (ErrMsg ''BLS signature converts failed'')
         else bindE (voteAddressSet (map VoteAddress votes) (Validators snap)) (\<lambda>w.
           if bitCount w < length sigs then Inl (ErrMsg ''invalid attestation, check VoteAddress Set failed'')
           else Inr \<lparr> VoteAddressSet = w, AggSignature = AggregateSignatures C sigs, AttData = Some d, AttExtra = [] \<rparr>)))"

text \<open>The encoded attestation goes between the rest of the extra data and the space of the seal.\<close>

definition insertAttestation :: "VoteAttestation \<Rightarrow> Header \<Rightarrow> Header result" where
  "insertAttestation attestation header =
     (case EncodeToBytes attestationType (attestationVal attestation) of
        Inl e \<Rightarrow> Inl (ErrMsg ''attestation: failed to encode'')
      | Inr buf \<Rightarrow>
          if length (Extra header) < extraSeal then Inl Panic
          else
            (let extraSealStart = length (Extra header) - extraSeal in
             Inr (header\<lparr> Extra := take extraSealStart (Extra header) @ buf @ drop extraSealStart (Extra header) \<rparr>)))"

definition assembleVoteAttestation :: "crypto \<Rightarrow> Engine \<Rightarrow> chain_reader \<Rightarrow> Header \<Rightarrow> Header engine_act" where
  "assembleVoteAttestation C p chain header =
     (case VotePool p of
        None \<Rightarrow> retA header
      | Some fetch \<Rightarrow>
          if \<not> IsLuban (chainConfig p) (Number header) \<or> numOf header < 3 then retA header
          else
            (case GetHeaderByHash chain (ParentHash header) of
               None \<Rightarrow> liftA (Inl (ErrMsg ''parent not found''))
             | Some parent \<Rightarrow>
                 bindA (replaceError (ErrMsg ''unexpected error when getting the highest justified number and hash'')
                     (GetJustifiedNumberAndHash C p chain [parent])) (\<lambda>(justifiedBlockNumber, justifiedBlockHash).
                 bindA (findTarget C p chain fetch justifiedBlockNumber (GetAncestorGenerationDepth (chainConfig p) header) parent)
                   (\<lambda>found.
                 case found of
                   None \<Rightarrow> retA header
                 | Some (target, snap, votes) \<Rightarrow>
                     liftA (bindE (buildAttestation C
                         \<lparr> SourceNumber = justifiedBlockNumber, SourceHash = justifiedBlockHash,
                           TargetNumber = numOf target, TargetHash = Hash C target \<rparr> snap votes)
                       (\<lambda>attestation. insertAttestation attestation header))))))"

section \<open>The finalized header\<close>

text \<open>Number and hash of the finalized block after \<open>header\<close>, whose snapshot carries the attestation \<open>a\<close>: the votes
  of the pool may finalize the justified block before an attestation of \<open>header\<close> is on the chain.\<close>

definition finalizedBlock :: "crypto \<Rightarrow> Engine \<Rightarrow> chain_reader \<Rightarrow> Header \<Rightarrow> VoteData \<Rightarrow> (u64 \<times> hash) engine_act" where
  "finalizedBlock C p chain header a =
     (case VotePool p of
        None \<Rightarrow> retA (SourceNumber a, SourceHash a)
      | Some fetch \<Rightarrow>
          if TargetNumber a \<noteq> numOf header - 1 then retA (SourceNumber a, SourceHash a)
          else recoverWith (SourceNumber a, SourceHash a)
            (bindA (parentSnapshot C p chain header [] (Some header)) (\<lambda>parentSnap.
               retA (if quorum parentSnap \<le> length (fetch (Hash C header) (TargetNumber a))
                     then (TargetNumber a, TargetHash a) else (SourceNumber a, SourceHash a)))))"

definition GetFinalizedHeader :: "crypto \<Rightarrow> Engine \<Rightarrow> chain_reader \<Rightarrow> Header \<Rightarrow> Header option engine_act" where
  "GetFinalizedHeader C p chain header =
     (if \<not> IsPlato (Config chain) (Number header) then retA (GetHeaderByNumber chain 0)
      else (case GetHeaderByHash chain (ParentHash header) of
          None \<Rightarrow> retA None
        | Some _ \<Rightarrow>
            recoverWith None (bindA (headSnapshot C p chain header []) (\<lambda>snap.
              case Attestation snap of
                None \<Rightarrow> retA (GetHeaderByNumber chain 0)
              | Some a \<Rightarrow> bindA (finalizedBlock C p chain header a) (\<lambda>(finalizedNumber, finalizedHash).
                  retA (GetHeader chain finalizedHash finalizedNumber))))))"

text \<open>The header that the callback receives, if it is called.\<close>

definition CheckFinalityAndNotify :: "crypto \<Rightarrow> Engine \<Rightarrow> chain_reader \<Rightarrow> hash \<Rightarrow> Header option engine_act" where
  "CheckFinalityAndNotify C p chain targetBlockHash =
     (case GetHeaderByHash chain targetBlockHash of
        None \<Rightarrow> retA None
      | Some targetHeader \<Rightarrow>
          bindA (GetFinalizedHeader C p chain targetHeader) (\<lambda>finalizedHeader.
            retA (case finalizedHeader of
                None \<Rightarrow> None
              | Some h \<Rightarrow> if numOf h = 0 then None else Some h)))"

end
