(* ===== verification/Finality.thy ===== *)
theory Finality
  imports Voting
begin

text \<open>
  Fast finality. An attestation is accepted when validators with a quorum of the keys have signed its vote data;
  \<open>quorum_votes\<close> is the interface of such a check, and two accepted attestations overlap in a third of the validators.
  Each accepted attestation then moves the justified and the finalized block of the snapshot (\<open>updateAttestation\<close>), and what
  \<open>verifyVoteAttestation\<close> has checked makes these moves monotone.
\<close>

section \<open>Quorums\<close>

locale quorum_votes =
  fixes members :: "'s \<Rightarrow> 'v set" and voters :: "'s \<Rightarrow> 'a \<Rightarrow> 'v set" and accepted :: "'s \<Rightarrow> 'a \<Rightarrow> bool"
  assumes finite_members: "accepted s a \<Longrightarrow> finite (members s)"
    and voters_members: "voters s a \<subseteq> members s"
    and two_thirds: "accepted s a \<Longrightarrow> 2 * card (members s) \<le> 3 * card (voters s a)"
begin

lemma overlap:
  assumes "accepted s a" "accepted s b"
  shows "card (members s) \<le> 3 * card (voters s a \<inter> voters s b)"
proof -
  note fin = finite_members [OF assms(1)]
  have "finite (voters s a)" "finite (voters s b)" using finite_subset [OF voters_members fin] by blast+
  then have "card (voters s a) + card (voters s b) = card (voters s a \<union> voters s b) + card (voters s a \<inter> voters s b)"
    by (rule card_Un_Int)
  moreover have "card (voters s a \<union> voters s b) \<le> card (members s)"
    using voters_members [of s a] voters_members [of s b] by (intro card_mono [OF fin]) blast
  ultimately show ?thesis using two_thirds [OF assms(1)] two_thirds [OF assms(2)] by linarith
qed

lemma common_voter:
  assumes "accepted s a" "accepted s b" "members s \<noteq> {}"
  obtains v where "v \<in> voters s a" "v \<in> voters s b"
proof -
  have "0 < card (members s)" using assms(3) finite_members [OF assms(1)] by (simp add: card_gt_0_iff)
  with overlap [OF assms(1,2)] have "voters s a \<inter> voters s b \<noteq> {}" by auto
  with that show thesis by blast
qed

end

text \<open>The validators whose bits are set.\<close>

definition votersOf :: "Snapshot \<Rightarrow> u64 \<Rightarrow> address set" where
  "votersOf s w = {validators s ! i | i. i < length (validators s) \<and> bit w i}"

lemma validators_distinct: "gm_wf (Validators s) \<Longrightarrow> distinct (validators s)"
  by (simp add: validators_def gm_wf_def)

lemma length_filter_enumerate: "length (filter (\<lambda>(i, _). P i) (enumerate n xs)) = card {i. n \<le> i \<and> i < n + length xs \<and> P i}"
proof (induction xs arbitrary: n)
  case (Cons x xs)
  have "{i. n \<le> i \<and> i < n + length (x # xs) \<and> P i} =
      (if P n then {n} else {}) \<union> {i. Suc n \<le> i \<and> i < Suc n + length xs \<and> P i}"
    by (auto simp: Suc_le_eq) (metis le_neq_implies_less)+
  moreover have "finite {i. Suc n \<le> i \<and> i < Suc n + length xs \<and> P i}" by simp
  ultimately show ?case using Cons [of "Suc n"] by simp
qed simp

lemma card_votersOf: "gm_wf (Validators s) \<Longrightarrow> card (votersOf s w) = length (votedKeys s w)"
proof -
  assume wf: "gm_wf (Validators s)"
  have "votersOf s w = (!) (validators s) ` {i. i < length (validators s) \<and> bit w i}" by (auto simp: votersOf_def)
  moreover have "inj_on ((!) (validators s)) {i. i < length (validators s) \<and> bit w i}"
    using validators_distinct [OF wf] by (intro inj_onI) (simp add: nth_eq_iff_index_eq)
  ultimately show ?thesis
    using length_filter_enumerate [of "bit w" 0 "validators s"] by (simp add: card_image votedKeys_def)
qed

lemma verifyQuorum_Inr:
  "verifyQuorum C s a = Inr () \<longleftrightarrow> bitCount (VoteAddressSet a) \<le> length (Validators s) \<and>
    list_all (blsPublicKeyOK C) (votedKeys s (VoteAddressSet a)) \<and> quorum s \<le> length (votedKeys s (VoteAddressSet a)) \<and>
    blsSignatureOK C (AggSignature a) \<and>
    FastAggregateVerify C (votedKeys s (VoteAddressSet a)) (VoteData_Hash C (AttData a)) (AggSignature a)"
  by (auto simp: verifyQuorum_def Let_def not_less)

lemma quorum_two_thirds: "2 * length (Validators s) \<le> 3 * quorum s"
proof -
  have "2 * n \<le> 3 * CeilDiv (n * 2) 3" for n :: nat unfolding CeilDiv_def by presburger
  then show ?thesis by (simp add: quorum_def)
qed

definition acceptedBy :: "crypto \<Rightarrow> Snapshot \<Rightarrow> VoteAttestation \<Rightarrow> bool" where
  "acceptedBy C s a \<longleftrightarrow> snapWF s \<and> verifyQuorum C s a = Inr ()"

interpretation attested: quorum_votes "\<lambda>s. set (validators s)" "\<lambda>s a. votersOf s (VoteAddressSet a)" "acceptedBy C"
proof
  fix s and a :: VoteAttestation
  show "votersOf s (VoteAddressSet a) \<subseteq> set (validators s)" unfolding votersOf_def using nth_mem by blast
  assume acc: "acceptedBy C s a"
  then have wf: "gm_wf (Validators s)" by (simp add: acceptedBy_def snapWF_def)
  show "2 * card (set (validators s)) \<le> 3 * card (votersOf s (VoteAddressSet a))"
    using acc card_votersOf [OF wf] distinct_card [OF validators_distinct [OF wf]] quorum_two_thirds [of s]
    by (fastforce simp: acceptedBy_def verifyQuorum_Inr)
qed simp

text \<open>A voter's key is among the keys that the aggregated signature is checked with.\<close>

definition voteKey :: "Snapshot \<Rightarrow> address \<Rightarrow> blskey" where
  "voteKey s v = (case gm_get (Validators s) v of Some info \<Rightarrow> InfoVoteAddress info | None \<Rightarrow> 0)"

lemma voter_key: "v \<in> votersOf s w \<Longrightarrow> voteKey s v \<in> set (votedKeys s w)"
proof -
  assume "v \<in> votersOf s w"
  then obtain i where i: "i < length (validators s)" "bit w i" "v = validators s ! i" by (auto simp: votersOf_def)
  then have "(i, v) \<in> set (enumerate 0 (validators s))" by (simp add: in_set_enumerate_eq)
  with i show ?thesis by (auto simp: votedKeys_def voteKey_def intro!: image_eqI [of _ _ "(i, v)"])
qed

lemma voters_bound: "card (votersOf s w) \<le> 64"
proof -
  have "votersOf s w \<subseteq> (!) (validators s) ` {..<64}" using bit_imp_le_length [of w] by (fastforce simp: votersOf_def)
  then have "card (votersOf s w) \<le> card ((!) (validators s) ` {..<64})" by (intro card_mono) simp_all
  also have "\<dots> \<le> card {..<64 :: nat}" by (rule card_image_le) simp
  finally show ?thesis by simp
qed

section \<open>Justified and finalized blocks\<close>

definition justifiedOf :: "crypto \<Rightarrow> Header \<Rightarrow> Snapshot \<Rightarrow> u64 \<times> hash" where
  "justifiedOf C g s = (case Attestation s of None \<Rightarrow> (0, Hash C g) | Some a \<Rightarrow> (TargetNumber a, TargetHash a))"

definition finalizedOf :: "crypto \<Rightarrow> Header \<Rightarrow> Snapshot \<Rightarrow> u64 \<times> hash" where
  "finalizedOf C g s = (case Attestation s of None \<Rightarrow> (0, Hash C g) | Some a \<Rightarrow> (SourceNumber a, SourceHash a))"

lemma finalizedOf_number: "fst (finalizedOf C g s) = getFinalizedNumber s"
  by (simp add: finalizedOf_def getFinalizedNumber_def split: option.split)

text \<open>The attestation of a snapshot after one header.\<close>

lemma Attestation_recordSigner: "recordSigner cfg h v s = Inr s' \<Longrightarrow> Attestation s' = Attestation s"
  by (auto simp: recordSigner_def Let_def split: if_splits option.splits)

lemma Attestation_install: "Attestation (installValidators b l n k t m s) = Attestation s"
  by (cases t) (simp_all add: installValidators_def switchRecents_def Let_def)

lemma Attestation_applyHeader:
  assumes "applyHeader C d cfg chain parents h s c = (Inr s', c')"
  obtains s1 where "updateAttestation h cfg (dropOldHistory (numOf h) s) = Inr s1" "Attestation s' = Attestation s1"
  using assms
proof (rule applyHeader_Inr)
  fix v s1 s2
  assume u: "updateAttestation h cfg (dropOldHistory (numOf h) s) = Inr s1" and r: "recordSigner cfg h v s1 = Inr s2"
    and s': "s' = updateIntervals d cfg h s2 \<or>
      switchValidators C cfg chain parents h (EpochLength s2) (updateIntervals d cfg h s2) = Inr s'"
  from s' have "Attestation s' = Attestation s2"
    by (auto simp: updateIntervals_def Let_def Attestation_install elim!: switchValidators_cases)
  with u Attestation_recordSigner [OF r] that show thesis by simp
qed

lemma Attestation_applyPure:
  assumes "applyPure C p chain [h] s = Inr s'"
  obtains s0 s1 where "EpochLength s0 = EpochLength s" "Attestation s0 = Attestation s"
    "updateAttestation h (chainConfig p) s0 = Inr s1" "Attestation s' = Attestation s1"
proof -
  from assms obtain c' t where t: "s' = renum (sNumber s + 1) (Hash C h) t"
    "applyHeader C (defaultEpochLength p) (chainConfig p) chain [] h (copy (s\<lparr> IsSnake8Fork := False \<rparr>)) (NewBasicLRU 1) = (Inr t, c')"
    by (auto simp: applyPure_Inr apply_snap_iff bindA_eq_Inr retA_def)
  obtain s1 where "updateAttestation h (chainConfig p) (dropOldHistory (numOf h) (copy (s\<lparr> IsSnake8Fork := False \<rparr>))) = Inr s1"
    "Attestation t = Attestation s1"
    by (rule Attestation_applyHeader [OF t(2)])
  with t(1) show thesis
    by (intro that [of "dropOldHistory (numOf h) (copy (s\<lparr> IsSnake8Fork := False \<rparr>))" s1])
      (simp_all add: dropOldHistory_def copy_def renum_def Let_def)
qed

lemma updateAttestation_moves:
  assumes "updateAttestation h cfg s0 = Inr s1"
  obtains (same) "Attestation s1 = Attestation s0"
  | (moved) a d a' where "getVoteAttestationFromHeader h cfg (EpochLength s0) = Inr (Some a)" "AttData a = Some d"
      "Attestation s1 = Some a'" "TargetNumber a' = TargetNumber d" "TargetHash a' = TargetHash d"
      "(SourceNumber a', SourceHash a') = (SourceNumber d, SourceHash d) \<or>
       (\<exists>b. Attestation s0 = Some b \<and> (SourceNumber a', SourceHash a') = (SourceNumber b, SourceHash b))"
proof -
  have "s1 = s0 \<or> (\<exists>a d. getVoteAttestationFromHeader h cfg (EpochLength s0) = Inr (Some a) \<and> AttData a = Some d \<and>
     (Attestation s1 = Some d \<or> (\<exists>b. Attestation s0 = Some b \<and>
       Attestation s1 = Some (b\<lparr> TargetNumber := TargetNumber d, TargetHash := TargetHash d \<rparr>))))"
    using assms by (auto simp: updateAttestation_def split: if_splits sum.splits option.splits parlia_error.splits)
  then show thesis
  proof (elim disjE exE conjE)
    fix a d b
    assume "getVoteAttestationFromHeader h cfg (EpochLength s0) = Inr (Some a)" "AttData a = Some d" "Attestation s0 = Some b"
      "Attestation s1 = Some (b\<lparr> TargetNumber := TargetNumber d, TargetHash := TargetHash d \<rparr>)"
    then show thesis by (intro moved [of a d "b\<lparr> TargetNumber := TargetNumber d, TargetHash := TargetHash d \<rparr>"]) simp_all
  qed (use same moved in auto)
qed

section \<open>What an accepted attestation guarantees\<close>

lemma headSnapshot_ref:
  assumes "soundChain C p H chain" "Snake8Time (chainConfig p) = None" "engineOK C p H chain st"
    and "GetHeader chain (Hash C h) (numOf h) = Some h" "headSnapshot C p chain h [h] st = (Inr s, st')"
  shows "refSnapshot C p chain (unat (numOf h)) (Hash C h) = Inr s"
proof -
  from assms(5) obtain b where b: "isSnake8Enabled (chainConfig p) chain h = Inr b"
    "snapshot C p chain (numOf h) (Hash C h) [h] b (Some h) st = (Inr s, st')"
    by (auto simp: headSnapshot_def bindA_lift_Inr)
  with noSnake8 [OF assms(2) b(1)] have "fst (snapshot C p chain (numOf h) (Hash C h) [] False (Some h) st) = Inr s"
    by (simp add: snapshot_explicit [OF assms(4) refl refl])
  with snapshot_ok(2) [OF assms(1,4,3)] show ?thesis by blast
qed

lemma GetJustified_ref:
  assumes "soundChain C p H chain" "Snake8Time (chainConfig p) = None" "engineOK C p H chain st"
    and "GetHeader chain (Hash C h) (numOf h) = Some h" "GetHeaderByNumber chain 0 = Some g"
    and "GetJustifiedNumberAndHash C p chain [h] st = (Inr j, st')"
  obtains s where "refSnapshot C p chain (unat (numOf h)) (Hash C h) = Inr s" "j = justifiedOf C g s"
proof -
  from assms(5,6) obtain s st1 where s: "headSnapshot C p chain h [h] st = (Inr s, st1)" "j = justifiedOf C g s"
    by (auto simp: GetJustifiedNumberAndHash_def bindA_eq_Inr retA_def liftA_def justifiedOf_def split: option.splits)
  with headSnapshot_ref [OF assms(1-4) s(1)] that show thesis by blast
qed

lemma matchTarget_chain:
  assumes "soundChain C p H chain" "matchTarget C chain d n a [] = Inr (a', ps)" "GetHeader chain (Hash C a) (numOf a) = Some a"
  shows "numOf a' = TargetNumber d \<and> Hash C a' = TargetHash d \<and> GetHeader chain (Hash C a') (numOf a') = Some a'"
  using assms(2,3)
proof (induction n arbitrary: a)
  case (Suc n)
  show ?case
  proof (cases "TargetNumber d = numOf a \<and> TargetHash d = Hash C a")
    case False
    with Suc.prems(1) obtain parent where parent: "getParent C chain a [] = Inr parent" "matchTarget C chain d n parent [] = Inr (a', ps)"
      by (auto simp: bindE_eq_Inr trimParents_def)
    have "GetHeader chain (Hash C parent) (numOf parent) = Some parent" using getParent_chain [OF parent(1)] by simp
    with Suc.IH [OF parent(2)] show ?thesis .
  qed (use Suc.prems in auto)
qed simp

text \<open>The facts that \<open>verifyVoteAttestation\<close> establishes about the attestation in a header on top of the block with
  the reference snapshot \<open>s\<close>.\<close>

definition attestationOK :: "crypto \<Rightarrow> Engine \<Rightarrow> chain_reader \<Rightarrow> Header \<Rightarrow> Snapshot \<Rightarrow> VoteAttestation \<Rightarrow> VoteData \<Rightarrow> bool" where
  "attestationOK C p chain g s a d \<longleftrightarrow>
     SourceNumber d < TargetNumber d \<and> (SourceNumber d, SourceHash d) = justifiedOf C g s \<and>
     (\<exists>t sn. GetHeader chain (TargetHash d) (TargetNumber d) = Some t \<and>
       refSnapshot C p chain (unat (TargetNumber d - 1)) (ParentHash t) = Inr sn \<and> acceptedBy C sn a)"

lemma replaceError_Inr: "replaceError e m st = (Inr x, st') \<longleftrightarrow> m st = (Inr x, st')"
  by (auto simp: replaceError_def split: prod.splits sum.splits)

lemma liftA_Inr: "liftA r st = (Inr x, st') \<longleftrightarrow> r = Inr x \<and> st' = st"
  by (auto simp: liftA_def)

lemma epochLength_ref:
  assumes "soundChain C p H chain" "Snake8Time (chainConfig p) = None" "engineOK C p H chain st" "numOf h \<noteq> 0"
    and "GetHeader chain (ParentHash h) (numOf h - 1) = Some parent" "epochLength C p chain h [] st = (Inr e, st')"
  obtains s where "refSnapshot C p chain (unat (numOf h - 1)) (ParentHash h) = Inr s" "e = EpochLength s" "engineOK C p H chain st'"
proof -
  from assms(4,6) obtain s where s: "parentSnapshot C p chain h [] None st = (Inr s, st')" "e = EpochLength s"
    by (auto simp: epochLength_def bindA_eq_Inr retA_def)
  from parentSnapshot_ref [OF assms(1,2,3,5) s(1)] keepsD [OF epochLength_keeps [OF assms(1,2)] assms(3,6)] s(2) that
  show thesis by blast
qed

lemma verifyVoteAttestation_ok:
  assumes chain: "soundChain C p H chain" "Snake8Time (chainConfig p) = None" "numOf h \<noteq> 0" "GetHeaderByNumber chain 0 = Some g"
    and parent: "GetHeader chain (ParentHash h) (numOf h - 1) = Some parent"
    and s: "refSnapshot C p chain (unat (numOf h - 1)) (ParentHash h) = Inr s"
    and st: "engineOK C p H chain st" and acc: "verifyVoteAttestation C p chain h [] st = (Inr (), st')"
    and a: "getVoteAttestationFromHeader h (Config chain) (EpochLength s) = Inr (Some a)"
  obtains d where "AttData a = Some d" "attestationOK C p chain g s a d"
proof -
  note get = soundChain_get [OF chain(1)]
  from acc obtain e st1 where e: "epochLength C p chain h [] st = (Inr e, st1)"
    by (auto simp: verifyVoteAttestation_def bindA_eq_Inr [of "epochLength C p chain h []"])
  obtain "e = EpochLength s" and st1: "engineOK C p H chain st1"
    by (rule epochLength_ref [OF chain(1,2) st chain(3) parent e]) (use s in simp)
  with acc a e obtain d parent' st2 t ps sn st3 where *: "AttData a = Some d" "SourceNumber d < TargetNumber d"
    "getParent C chain h [] = Inr parent'" "GetJustifiedNumberAndHash C p chain [parent'] st1 = (Inr (SourceNumber d, SourceHash d), st2)"
    "matchTarget C chain d (GetAncestorGenerationDepth (chainConfig p) h) parent' [] = Inr (t, ps)"
    "parentSnapshot C p chain t ps (Some t) st2 = (Inr sn, st3)" "verifyQuorum C sn a = Inr ()"
    by (auto simp: verifyVoteAttestation_def bindA_eq_Inr bindA_lift_Inr replaceError_Inr liftA_Inr not_le trimParents_def
        simp del: liftA_eq split: option.splits if_splits)
  have p: "GetHeader chain (Hash C parent') (numOf parent') = Some parent'" "parent' = parent"
    using getParent_chain [OF *(3)] parent by simp_all
  have st2: "engineOK C p H chain st2" by (rule keepsD [OF justified_keeps [OF chain(1,2) *(3)] st1 *(4)])
  have j: "(SourceNumber d, SourceHash d) = justifiedOf C g s"
    by (rule GetJustified_ref [OF chain(1,2) st1 p(1) chain(4) *(4)]) (use p parent s get(1,2) [OF parent] in simp)
  note t = matchTarget_chain [OF chain(1) *(5) p(1)]
  have nz: "TargetNumber d \<noteq> 0" using *(2) by auto
  obtain tp where tp: "GetHeader chain (ParentHash t) (numOf t - 1) = Some tp"
    using soundChain_parent [OF chain(1)] t nz by metis
  have sn: "refSnapshot C p chain (unat (numOf t - 1)) (ParentHash t) = Inr sn"
    by (rule parentSnapshot_ref [OF chain(1,2) st2 tp *(6) [unfolded matchTarget_parents [OF *(5)]]])
  have "snapWF sn"
    using refSnapshot_good [OF chain(1) _ unat_u64_less sn] tp by (simp add: goodSnap_def recentsInv_def)
  with *(1,2,7) j t sn that show thesis unfolding attestationOK_def acceptedBy_def by metis
qed

text \<open>The invariant of the attestations along the chain.\<close>

definition attInv :: "Snapshot \<Rightarrow> bool" where
  "attInv s \<longleftrightarrow> (case Attestation s of None \<Rightarrow> True | Some a \<Rightarrow> SourceNumber a < TargetNumber a)"

section \<open>Theorems\<close>

text \<open>C30. Accountable safety of fast finality. If the quorum check accepts two attestations against the same snapshot,
  then at least a third of the validators have signed the vote data of both: whoever gets two conflicting
  attestations accepted has a third of the validators sign both. (\<open>hasSigned\<close> is what a verified BLS aggregate
  proves of each of its keys.) A snapshot whose votes can be accepted has at most 96 validators, because the vote
  set has 64 bits.\<close>

theorem attestations_overlap:
  assumes "snapWF s" "verifyQuorum C s a = Inr ()" "verifyQuorum C s b = Inr ()"
    and "\<And>keys m sig. FastAggregateVerify C keys m sig \<Longrightarrow> \<forall>k \<in> set keys. hasSigned k m"
  shows "(\<exists>V \<subseteq> set (validators s). length (Validators s) \<le> 3 * card V \<and>
      (\<forall>v \<in> V. hasSigned (voteKey s v) (VoteData_Hash C (AttData a)) \<and> hasSigned (voteKey s v) (VoteData_Hash C (AttData b)))) \<and>
    length (Validators s) \<le> 96"
proof -
  let ?A = "votersOf s (VoteAddressSet a)" and ?B = "votersOf s (VoteAddressSet b)"
  have acc: "acceptedBy C s a" "acceptedBy C s b" using assms(1-3) by (simp_all add: acceptedBy_def)
  have n: "card (set (validators s)) = length (Validators s)"
    using assms(1) distinct_card [OF validators_distinct] by (simp add: snapWF_def)
  have "\<forall>v \<in> ?A \<inter> ?B. hasSigned (voteKey s v) (VoteData_Hash C (AttData a)) \<and> hasSigned (voteKey s v) (VoteData_Hash C (AttData b))"
    using assms(2-4) voter_key by (auto simp: verifyQuorum_Inr)
  moreover have "length (Validators s) \<le> 3 * card (?A \<inter> ?B)" using attested.overlap [OF acc] n by simp
  moreover have "?A \<inter> ?B \<subseteq> set (validators s)" using attested.voters_members by blast
  moreover have "length (Validators s) \<le> 96"
    using attested.two_thirds [OF acc(1)] voters_bound [of s "VoteAddressSet a"] n by linarith
  ultimately show ?thesis by blast
qed

definition threeSnap :: Snapshot where
  "threeSnap = toySnap\<lparr> Validators := [(1, \<lparr> Index = 1, InfoVoteAddress = 11 \<rparr>), (2, \<lparr> Index = 2, InfoVoteAddress = 12 \<rparr>),
     (3, \<lparr> Index = 3, InfoVoteAddress = 13 \<rparr>)] \<rparr>"

theorem attestations_overlap_witness:
  "verifyQuorum toyCrypto threeSnap (demoAttestation\<lparr> VoteAddressSet := 3 \<rparr>) = Inr () \<and>
    verifyQuorum toyCrypto threeSnap (demoAttestation\<lparr> VoteAddressSet := 6 \<rparr>) = Inr () \<and>
    (\<exists>V \<subseteq> set (validators threeSnap). length (Validators threeSnap) \<le> 3 * card V) \<and> length (Validators threeSnap) \<le> 96"
proof -
  have "bitCount 3 = 2" "bitCount 6 = 2" "votedKeys threeSnap 3 = [11, 12]" "votedKeys threeSnap 6 = [12, 13]" "quorum threeSnap = 2"
    by code_simp+
  then have q: "verifyQuorum toyCrypto threeSnap (demoAttestation\<lparr> VoteAddressSet := 3 \<rparr>) = Inr ()"
    "verifyQuorum toyCrypto threeSnap (demoAttestation\<lparr> VoteAddressSet := 6 \<rparr>) = Inr ()"
    by (simp_all add: verifyQuorum_Inr threeSnap_def toyCrypto_def)
  have "snapWF threeSnap" by (simp add: snapWF_def gm_wf_def threeSnap_def toySnap_def)
  from attestations_overlap [OF this q, of "\<lambda>_ _. True"] q show ?thesis by blast
qed

text \<open>C31. Finality is monotone along the chain. When a header whose attestation has been verified, with a coherent state of the
  caches in which no snapshot has to start from an unverified checkpoint, is applied to the snapshot of its parent, the justified block and the finalized block never go back, the finalized block stays or becomes
  the block that was justified before, the finalized block stays below the justified one, and a new justified block is a block
  of the chain that a quorum of its validators voted for.\<close>

theorem finality_monotone:
  assumes "soundChain C p H chain" "Snake8Time (chainConfig p) = None" "Config chain = chainConfig p" "numOf h \<noteq> 0"
    and "GetHeaderByNumber chain 0 = Some g" "GetHeader chain (ParentHash h) (numOf h - 1) = Some parent"
    and "refSnapshot C p chain (unat (numOf h - 1)) (ParentHash h) = Inr s" "attInv s"
    and "engineOK C p H chain st" "verifyVoteAttestation C p chain h [] st = (Inr (), st')"
    and "applyPure C p chain [h] s = Inr s'"
  shows "attInv s' \<and> fst (justifiedOf C g s) \<le> fst (justifiedOf C g s') \<and> getFinalizedNumber s \<le> getFinalizedNumber s' \<and>
    finalizedOf C g s' \<in> {finalizedOf C g s, justifiedOf C g s} \<and>
    (justifiedOf C g s' = justifiedOf C g s \<or>
      (\<exists>a t sn. GetHeader chain (snd (justifiedOf C g s')) (fst (justifiedOf C g s')) = Some t \<and>
        refSnapshot C p chain (unat (fst (justifiedOf C g s') - 1)) (ParentHash t) = Inr sn \<and> verifyQuorum C sn a = Inr ()))"
proof -
  obtain s0 s1 where s0: "EpochLength s0 = EpochLength s" "Attestation s0 = Attestation s"
    "updateAttestation h (chainConfig p) s0 = Inr s1" "Attestation s' = Attestation s1"
    by (rule Attestation_applyPure [OF assms(11)])
  from s0(3) show ?thesis
  proof (cases rule: updateAttestation_moves)
    case same
    then have "Attestation s' = Attestation s" using s0 by simp
    with assms(8) show ?thesis by (simp add: attInv_def justifiedOf_def finalizedOf_def getFinalizedNumber_def)
  next
    case (moved a d a')
    from moved(1) assms(3) s0(1) have "getVoteAttestationFromHeader h (Config chain) (EpochLength s) = Inr (Some a)" by simp
    then obtain d' where "AttData a = Some d'" "attestationOK C p chain g s a d'"
      by (rule verifyVoteAttestation_ok [OF assms(1,2,4,5,6,7,9,10)])
    with moved(2) have ok: "attestationOK C p chain g s a d" by simp
    have src: "(SourceNumber a', SourceHash a') \<in> {finalizedOf C g s, justifiedOf C g s}"
      using moved(6) ok s0(2) by (auto simp: attestationOK_def finalizedOf_def)
    have num: "fst (justifiedOf C g s) < TargetNumber d" "getFinalizedNumber s \<le> fst (justifiedOf C g s)"
      using ok assms(8)
      by (auto simp: attestationOK_def attInv_def getFinalizedNumber_def justifiedOf_def split: option.splits)
    have s': "justifiedOf C g s' = (TargetNumber d, TargetHash d)" "finalizedOf C g s' = (SourceNumber a', SourceHash a')"
      "Attestation s' = Some a'" "getFinalizedNumber s' = SourceNumber a'"
      using moved(3-5) s0(4) by (simp_all add: justifiedOf_def finalizedOf_def getFinalizedNumber_def)
    have "SourceNumber a' = getFinalizedNumber s \<or> SourceNumber a' = fst (justifiedOf C g s)"
      using src finalizedOf_number [of C g s] by (metis fst_conv insertE singletonD)
    with num have fin: "getFinalizedNumber s \<le> SourceNumber a'" "SourceNumber a' < TargetNumber d" by auto
    show ?thesis
      using ok s' src num fin moved(4) unfolding attestationOK_def acceptedBy_def attInv_def by auto
  qed
qed

text \<open>The third block of the example chain carries an attestation of the second one.\<close>

lemma demo2_fields [simp]: "numOf demoBlock2 = 2" "Number demoBlock2 = Some 2" "ParentHash demoBlock2 = 7" "Time demoBlock2 = 6"
  by (simp_all add: demoBlock2_def)

lemma demo2_attestation: "getVoteAttestationFromHeader demoBlock2 demoConfig 200 = Inr (Some demoAttestation)"
proof -
  have "AttData demoAttestation = Some \<lparr> SourceNumber = 0, SourceHash = 5, TargetNumber = 1, TargetHash = 7 \<rparr>"
    "length (AttExtra demoAttestation) \<le> 256" by (simp_all add: demoAttestation_def)
  note dec = attestation_decodes(2) [OF this, of "[]"]
  have "enc attestationType (attestationVal demoAttestation) \<noteq> []" by code_simp
  moreover have "slice (Extra demoBlock2) extraVanity (length (Extra demoBlock2) - extraSeal) =
      enc attestationType (attestationVal demoAttestation)"
    by (simp add: demoBlock2_def slice_def)
  moreover have "length (Extra demoBlock2) = 97 + length (enc attestationType (attestationVal demoAttestation))"
    by (simp add: demoBlock2_def)
  ultimately show ?thesis using dec by (simp add: getVoteAttestationFromHeader_def Let_def)
qed

lemma demo2_recover: "recoverSigner demoCrypto demoBlock2 (Some 88888) = Inr 7"
proof -
  have "EncodeSigHeader demoBlock2 (Some 88888) = Inr (enc sigHeaderType (sigHeaderVal (Some 88888) demoBlock2))"
    by (rule EncodeSigHeader_enc [OF demo_ok(5,6)]) (simp_all add: demoBlock2_def)
  moreover have "Ecrecover demoCrypto h b = Some []" for h b by (simp add: demoCrypto_def toyCrypto_def)
  moreover have "length (Extra demoBlock2) \<ge> 65" by (simp add: demoBlock2_def)
  ultimately show ?thesis by (simp add: recoverSigner_def SealHash_def demo_keccak)
qed

definition demoSnap2 :: Snapshot where
  "demoSnap2 = demoSnap1\<lparr> sNumber := 2, sHash := 9, Recents := [(2, 7)], RecentForkHashes := [(2, [0, 0, 0, 0])],
     Attestation := AttData demoAttestation \<rparr>"

lemma demo2_applyHeader:
  "\<exists>c. applyHeader demoCrypto 200 demoConfig demoChain [] demoBlock2 demoSnap1 (NewBasicLRU 1) =
    (Inr (demoSnap2\<lparr> sNumber := 1, sHash := 7 \<rparr>), c)"
proof -
  obtain c where sig: "ecrecover demoCrypto demoBlock2 (Some 88888) (NewBasicLRU 1) = (Inr 7, c)"
    by (simp add: ecrecover_def Get_def NewBasicLRU_def demo2_recover)
  have ext: "sliceC (Extra demoBlock2) 28 32 = Some [0, 0, 0, 0]"
    by (simp add: sliceC_def slice_def eval_nat_numeral demoBlock2_def)
  show ?thesis
    by (rule exI [of _ c]) (use ext demo2_attestation in \<open>simp add: applyHeader_def bindA_def sig liftA_def Let_def toy_eval
      demoSnap_def demoSnap1_def demoSnap2_def demoAttestation_def\<close>)
qed

lemma demo2_apply: "applyPure demoCrypto demoEngine demoChain [demoBlock2] demoSnap1 = Inr demoSnap2"
proof -
  obtain c where c: "applyHeader demoCrypto 200 demoConfig demoChain [] demoBlock2 demoSnap1 (NewBasicLRU 1) =
      (Inr (demoSnap2\<lparr> sNumber := 1, sHash := 7 \<rparr>), c)" using demo2_applyHeader by blast
  have "copy (demoSnap1\<lparr> IsSnake8Fork := False \<rparr>) = demoSnap1" by (simp add: demoSnap_def demoSnap1_def copy_def)
  then have "apply_snap demoCrypto 200 demoConfig demoChain [] False [demoBlock2] demoSnap1 (NewBasicLRU 1) = (Inr demoSnap2, c)"
    by (subst apply_snap_iff) (simp_all add: bindA_eq_Inr c retA_def renum_def, simp_all add: demoSnap_def demoSnap1_def demoSnap2_def)
  then show ?thesis by (simp add: applyPure_def demoEngine_def)
qed

lemma demo_noSnake8_header:
  "isSnake8Enabled demoConfig demoChain demoBlock = Inr False" "isSnake8Enabled demoConfig demoChain demoBlock2 = Inr False"
  by (simp_all add: isSnake8Enabled_def demoChain_def demoBlock_def)

lemma demo_at_1:
  assumes "demoOK st"
  obtains st' where "snapshot demoCrypto demoEngine demoChain 1 7 [] False e st = (Inr demoSnap1, st')" "demoOK st'"
proof -
  let ?m = "snapshot demoCrypto demoEngine demoChain 1 7 [] False e"
  have "fst (?m st) = Inr demoSnap1" "demoOK (snd (?m st))"
    using snapshot_ok(1) [OF demo_sound demo_get(2) assms, of e] snapshot_ok(2) [OF demo_sound demo_get(2) assms, of e demoSnap1]
      demo_snapshot by simp_all
  then show thesis by (intro that [of "snd (?m st)"]) (simp_all add: prod_eq_iff)
qed

lemma demo2_verified:
  assumes "demoOK st"
  shows "\<exists>st'. verifyVoteAttestation demoCrypto demoEngine demoChain demoBlock2 [] st = (Inr (), st')"
proof -
  obtain st1 where st1: "snapshot demoCrypto demoEngine demoChain 1 7 [] False None st = (Inr demoSnap1, st1)" "demoOK st1"
    by (rule demo_at_1 [OF assms])
  obtain st2 where st2: "snapshot demoCrypto demoEngine demoChain 1 7 [] False (Some demoBlock) st1 = (Inr demoSnap1, st2)" "demoOK st2"
    by (rule demo_at_1 [OF st1(2)])
  obtain st3 where st3: "parentSnapshot demoCrypto demoEngine demoChain demoBlock [] (Some demoBlock) st2 = (Inr demoSnap, st3)"
    using demo_parentSnapshot [OF st2(2)] by blast
  have e: "epochLength demoCrypto demoEngine demoChain demoBlock2 [] st = (Inr 200, st1)"
    using st1(1) demo_noSnake8_header
    by (simp add: epochLength_def parentSnapshot_def bindA_def retA_def liftA_def demoSnap1_def demoSnap_def)
  have j: "GetJustifiedNumberAndHash demoCrypto demoEngine demoChain [demoBlock] st1 = (Inr (0, 5), st2)"
    using st2(1) demo_noSnake8_header snapshot_explicit [OF demo_get(2), of demoCrypto demoEngine False "Some demoBlock"]
    by (simp add: GetJustifiedNumberAndHash_def headSnapshot_def bindA_def retA_def liftA_def demoSnap1_def demoSnap_def demoChain_def)
  have parent: "getParent demoCrypto demoChain demoBlock2 [] = Inr demoBlock" by (simp add: getParent_def)
  have "bitCount 1 = 1" "votedKeys demoSnap 1 = [0]" "quorum demoSnap = 1" by code_simp+
  then have q: "verifyQuorum demoCrypto demoSnap demoAttestation = Inr ()"
    by (simp add: verifyQuorum_Inr demoCrypto_def toyCrypto_def demoAttestation_def) (simp add: demoSnap_def)
  have m: "matchTarget demoCrypto demoChain \<lparr> SourceNumber = 0, SourceHash = 5, TargetNumber = 1, TargetHash = 7 \<rparr>
      (GetAncestorGenerationDepth demoConfig demoBlock2) demoBlock [] = Inr (demoBlock, [])"
    by (cases "GetAncestorGenerationDepth demoConfig demoBlock2") (simp_all add: GetAncestorGenerationDepth_def split: if_splits)
  show ?thesis
    using e j parent demo2_attestation m st3 q
    by (simp add: verifyVoteAttestation_def bindA_def [of "epochLength demoCrypto demoEngine demoChain demoBlock2 []"] liftA_def retA_def
        demoAttestation_def bindA_def replaceError_def trimParents_def)
qed

theorem finality_monotone_witness:
  "\<exists>st'. verifyVoteAttestation demoCrypto demoEngine demoChain demoBlock2 [] (NewState (\<lambda>_. None)) = (Inr (), st') \<and>
    applyPure demoCrypto demoEngine demoChain [demoBlock2] demoSnap1 = Inr demoSnap2 \<and>
    justifiedOf demoCrypto demoGenesis demoSnap1 = (0, 5) \<and> justifiedOf demoCrypto demoGenesis demoSnap2 = (1, 7) \<and>
    attInv demoSnap2 \<and> getFinalizedNumber demoSnap1 \<le> getFinalizedNumber demoSnap2"
proof -
  obtain st' where st': "verifyVoteAttestation demoCrypto demoEngine demoChain demoBlock2 [] (NewState (\<lambda>_. None)) = (Inr (), st')"
    using demo2_verified [OF demo_state] by blast
  have j: "attInv demoSnap1" "justifiedOf demoCrypto demoGenesis demoSnap1 = (0, 5)" "justifiedOf demoCrypto demoGenesis demoSnap2 = (1, 7)"
    by (simp_all add: attInv_def justifiedOf_def demoSnap2_def demoSnap1_def demoSnap_def demoAttestation_def)
  have "GetHeaderByNumber demoChain 0 = Some demoGenesis" "Config demoChain = chainConfig demoEngine"
    "GetHeader demoChain (ParentHash demoBlock2) (numOf demoBlock2 - 1) = Some demoBlock"
    "refSnapshot demoCrypto demoEngine demoChain (unat (numOf demoBlock2 - 1)) (ParentHash demoBlock2) = Inr demoSnap1"
    using demo_snapshot by (simp_all add: demoChain_def)
  from finality_monotone [OF demo_sound _ this(2) _ this(1,3,4) j(1) demo_state st' demo2_apply] st' demo2_apply j show ?thesis by simp
qed

end
