(* ===== verification/Rlp_Canonical.thy ===== *)
theory Rlp_Canonical
  imports Rlp_Roundtrip
begin

text \<open>
  The decoder accepts nothing but encodings. \<open>accepts dec f ok\<close> says that whenever a reader succeeds
  with \<open>v\<close>, then \<open>ok v\<close> holds and the bytes it consumed are \<open>f v\<close>. The list limits are words and one
  subtraction of the code can wrap; an input shorter than \<open>2 ^ 64\<close> bytes cannot bring a wrapped limit
  back to zero, so a list whose element overruns it is never accepted. The last part shows that the
  bound of the element loop is never reached.
\<close>

section \<open>Only encodings are accepted\<close>

definition steps :: "nat \<Rightarrow> u64 list \<Rightarrow> u64 list" where
  "steps n st = (case st of [] \<Rightarrow> [] | l # ls \<Rightarrow> (l - of_nat n) # ls)"

lemma steps_steps [simp]: "steps a (steps b st) = steps (b + a) st"
  by (simp add: steps_def algebra_simps split: list.splits)

lemma steps_0 [simp]: "steps 0 st = st"
  by (simp add: steps_def split: list.splits)

text \<open>What the input was when a reader went from \<open>s\<close> to \<open>s'\<close>: the bytes \<open>bs\<close> in front of the rest.\<close>

definition took :: "bytes \<Rightarrow> Stream \<Rightarrow> Stream \<Rightarrow> bool" where
  "took bs s s' \<longleftrightarrow> sr s = bs @ sr s' \<and> stack s' = steps (length bs) (stack s)"

lemma took_trans: "took a s s' \<Longrightarrow> took b s' s'' \<Longrightarrow> took (a @ b) s s''"
  by (simp add: took_def)

lemma took_Nil [simp]: "took [] s s' \<longleftrightarrow> sr s' = sr s \<and> stack s' = stack s"
  by (auto simp: took_def)

lemma took_upd [simp]:
  "took bs s (s'\<lparr> kind := k \<rparr>) = took bs s s'"
  "took bs s (s'\<lparr> ssize := z \<rparr>) = took bs s s'"
  "took bs s (s'\<lparr> byteval := b \<rparr>) = took bs s s'"
  "took bs s (s'\<lparr> kinderr := e \<rparr>) = took bs s s'"
  "took bs (s\<lparr> byteval := b \<rparr>) s' = took bs s s'"
  by (simp_all add: took_def)

lemma willRead_took:
  "willRead n s = Inr s' \<Longrightarrow> sr s' = sr s \<and> stack s' = steps n (stack s) \<and> kind s' = None"
  by (auto simp: willRead_def Let_def listLimit_def set_top_def steps_def split: list.splits if_splits)

lemma readFull_took: "readFull n s = Inr (b, s') \<Longrightarrow> took b s s' \<and> length b = n \<and> kind s' = None"
  by (auto simp: readFull_def bindE_eq_Inr took_def split: if_splits dest!: willRead_took)

lemma readByte_took: "readByte s = Inr (b, s') \<Longrightarrow> took [b] s s' \<and> kind s' = None"
proof -
  assume "readByte s = Inr (b, s')"
  then obtain a bs where "willRead 1 s = Inr a" "sr a = b # bs" "s' = a\<lparr> sr := bs \<rparr>"
    unfolding readByte_def bindE_eq_Inr by (force split: list.splits)
  with willRead_took [of 1 s a] show ?thesis by (simp add: took_def)
qed

lemma readUint_took:
  assumes "readUint n s = Inr (v, s')"
  obtains b where "took b s s'" "length b = n" "v = be_nat b" "kind s' = None" "n > 1 \<longrightarrow> hd b \<noteq> 0"
proof -
  consider "n = 0" | "n = 1" | "n > 1" by linarith
  then show thesis
  proof cases
    case 1
    with assms that [of "[]"] show ?thesis by (auto simp: readUint_def)
  next
    case 2
    with assms obtain b where "readByte s = Inr (b, s')" "v = unat b" by (auto simp: readUint_def bindE_eq_Inr)
    with 2 that [of "[b]"] readByte_took be_nat_snoc [of "[]" b] show ?thesis by auto
  next
    case 3
    with assms obtain b where b: "readFull n s = Inr (b, s')" "v = be_nat b" "b ! 0 \<noteq> 0"
      by (auto simp: readUint_def bindE_eq_Inr split: if_splits)
    from readFull_took [OF b(1)] b 3 that [of b] show ?thesis by (cases b) auto
  qed
qed

lemma long_header:
  assumes "length b = n" "0 < n" "n \<le> 8" "n > 1 \<Longrightarrow> hd b \<noteq> 0" "56 \<le> be_nat b"
  shows "be_nat b < 2 ^ 64" "encHead sm lg (be_nat b) = (lg + of_nat n) # b"
proof -
  have "be_nat b < 256 ^ n" using be_nat_less [of b] assms(1) by simp
  also have "\<dots> \<le> 256 ^ 8" using assms(3) by (intro power_increasing) auto
  finally show "be_nat b < 2 ^ 64" by simp
  have "hd b \<noteq> 0"
  proof (cases "n = 1")
    case True
    then obtain x where "b = [x]" using assms(1) by (auto simp: length_Suc_conv)
    with assms(5) be_nat_snoc [of "[]" x] show ?thesis by auto
  qed (use assms in auto)
  then have "minBytes (be_nat b) = b" by (intro minBytes_be_nat) simp
  with assms show "encHead sm lg (be_nat b) = (lg + of_nat n) # b" by (simp add: encHead_def)
qed

lemma readLongSize_took:
  assumes "readLongSize k m s = Inr (k', n, s')" "0 < m" "m \<le> 8"
  shows "k' = k \<and> n < 2 ^ 64 \<and> (\<exists>b. took b s s' \<and> encHead sm lg n = (lg + of_nat m) # b)"
proof -
  from assms(1) have ru: "readUint m s = Inr (n, s')" and n: "56 \<le> n" and k: "k' = k"
    by (auto simp: readLongSize_def bindE_eq_Inr split: if_splits)
  from ru obtain b where b: "took b s s'" "length b = m" "n = be_nat b" "kind s' = None" "m > 1 \<longrightarrow> hd b \<noteq> 0"
    by (rule readUint_took)
  from long_header [OF b(2) assms(2,3) b(5) [rule_format]] n k b(1,3) show ?thesis by auto
qed

lemma byte_sub_add: "unat (b - c) = n \<Longrightarrow> b = c + of_nat n" for b c :: byte
  by (metis add.commute diff_add_cancel of_nat_unat ucast_id)

lemma readKind_took:
  assumes "readKind s = Inr (k, n, s')"
  shows "(k = Byte \<and> n = 0 \<and> took [byteval s'] s s' \<and> byteval s' \<le> 0x7F) \<or>
    (k \<noteq> Byte \<and> n < 2 ^ 64 \<and> took (tagHead k n) s s')"
proof -
  from assms obtain b s1 where rb: "readByte s = Inr (b, s1)"
    by (auto simp: readKind_def split: sum.splits)
  then have t1: "took [b] s s1" using readByte_took by blast
  note rk = assms [unfolded readKind_def rb Let_def, simplified]
  consider "b < 0x80" | "\<not> b < 0x80" "b < 0xB8" | "\<not> b < 0xB8" "b < 0xC0" | "\<not> b < 0xC0" "b < 0xF8" | "\<not> b < 0xF8"
    by blast
  then show ?thesis
  proof cases
    case 1
    with rk t1 show ?thesis by (auto simp: byte_lt_80)
  next
    case 2
    then have "unat (b - 0x80) < 56"
      by (simp add: word_less_nat_alt unat_sub word_le_nat_alt)
    with 2 rk t1 byte_sub_add [of b "0x80" n] show ?thesis by (auto simp: tags_def encHead_def)
  next
    case 3
    then have m: "0 < unat (b - 0xB7)" "unat (b - 0xB7) \<le> 8"
      by (simp_all add: word_less_nat_alt unat_sub word_le_nat_alt)
    have "\<not> b < 0x80" using 3 by (simp add: word_less_nat_alt)
    with 3 rk have "readLongSize String (unat (b - 0xB7)) (s1\<lparr> byteval := 0 \<rparr>) = Inr (k, n, s')" by simp
    from readLongSize_took [OF this m, of "0x80" "0xB7"] obtain c where
      "k = String" "n < 2 ^ 64" "took c s1 s'" "encHead 0x80 0xB7 n = b # c"
      using byte_sub_add [of b "0xB7"] by auto
    with took_trans [OF t1, of c s'] show ?thesis by (simp add: tags_def)
  next
    case 4
    then have "unat (b - 0xC0) < 56" "\<not> b < 0x80" "\<not> b < 0xB8"
      by (simp_all add: word_less_nat_alt unat_sub word_le_nat_alt)
    with 4 rk t1 byte_sub_add [of b "0xC0" n] show ?thesis by (auto simp: tags_def encHead_def)
  next
    case 5
    then have m: "0 < unat (b - 0xF7)" "unat (b - 0xF7) \<le> 8" "\<not> b < 0x80" "\<not> b < 0xB8" "\<not> b < 0xC0"
      using unat_u8_less [of b] by (simp_all add: word_less_nat_alt unat_sub word_le_nat_alt)
    with 5 rk have "readLongSize List (unat (b - 0xF7)) (s1\<lparr> byteval := 0 \<rparr>) = Inr (k, n, s')" by simp
    from readLongSize_took [OF this m(1,2), of "0xC0" "0xF7"] obtain c where
      "k = List" "n < 2 ^ 64" "took c s1 s'" "encHead 0xC0 0xF7 n = b # c"
      using byte_sub_add [of b "0xF7"] by auto
    with took_trans [OF t1, of c s'] show ?thesis by (simp add: tags_def)
  qed
qed

lemma KindOf_took:
  assumes "KindOf s = Inr (k, n, s')" "kind s = None"
  shows "(k = Byte \<and> n = 0 \<and> took [byteval s'] s s' \<and> byteval s' \<le> 0x7F) \<or>
    (k \<noteq> Byte \<and> n < 2 ^ 64 \<and> took (tagHead k n) s s')"
proof -
  from assms obtain s1 where "readKind s = Inr (k, n, s1)" "s' = s1\<lparr> kind := Some k, ssize := n, kinderr := None \<rparr>"
    by (auto simp: KindOf_def bindE_eq_Inr split: if_splits)
  with readKind_took [of s k n s1] show ?thesis by auto
qed

definition accepts :: "(Stream \<Rightarrow> rlp_error + ('a \<times> Stream)) \<Rightarrow> ('a \<Rightarrow> bytes) \<Rightarrow> ('a \<Rightarrow> bool) \<Rightarrow> bool" where
  "accepts dec f ok \<longleftrightarrow> (\<forall>s v s'. kind s = None \<and> length (sr s) < 2 ^ 64 \<and> dec s = Inr (v, s') \<longrightarrow>
     ok v \<and> took (f v) s s' \<and> kind s' = None)"

lemma acceptsI:
  "(\<And>s v s'. kind s = None \<Longrightarrow> length (sr s) < 2 ^ 64 \<Longrightarrow> dec s = Inr (v, s') \<Longrightarrow>
     ok v \<and> took (f v) s s' \<and> kind s' = None) \<Longrightarrow> accepts dec f ok"
  unfolding accepts_def by blast

lemma acceptsD:
  "accepts dec f ok \<Longrightarrow> kind s = None \<Longrightarrow> length (sr s) < 2 ^ 64 \<Longrightarrow> dec s = Inr (v, s') \<Longrightarrow>
     ok v \<and> took (f v) s s' \<and> kind s' = None"
  unfolding accepts_def by blast

lemma took_length: "took bs s s' \<Longrightarrow> length (sr s') \<le> length (sr s)"
  by (simp add: took_def)

text \<open>A reader that returns the content of a string, checked to be in the shorter form.\<close>

lemma encStr_byte: "x \<le> 0x7F \<Longrightarrow> encStr [x] = [x]"
  by (simp add: encStr_def)

lemma encStr_string: "\<not> (length b = 1 \<and> b ! 0 < 128) \<Longrightarrow> encStr b = tagHead String (length b) @ b"
  by (auto simp: encStr_def tags_def byte_lt_80)

lemma took_string:
  assumes "took (tagHead String (length b)) s s1" "took b s1 s'" "\<not> (length b = 1 \<and> b ! 0 < 128)"
  shows "took (encStr b) s s'"
  using took_trans [OF assms(1,2)] encStr_string [OF assms(3)] by simp

lemma accepts_Bytes: "accepts Bytes encStr (\<lambda>b. True)"
proof (rule acceptsI)
  fix s b s' assume k: "kind s = None" and d: "Bytes s = Inr (b, s')"
  then obtain k n s1 where ko: "KindOf s = Inr (k, n, s1)" by (auto simp: Bytes_def bindE_eq_Inr)
  show "True \<and> took (encStr b) s s' \<and> kind s' = None"
  proof (cases k)
    case Byte
    with d ko KindOf_took [OF ko k] show ?thesis by (auto simp: Bytes_def rearm_def encStr_byte)
  next
    case String
    with d ko obtain rf: "readFull n s1 = Inr (b, s')" and c: "\<not> (n = 1 \<and> b ! 0 < 128)"
      by (auto simp: Bytes_def bindE_eq_Inr split: if_splits)
    with String KindOf_took [OF ko k] readFull_took [OF rf] show ?thesis by (auto intro: took_string)
  next
    case List
    with d ko show ?thesis by (simp add: Bytes_def)
  qed
qed

lemma accepts_decodeByteArray:
  "accepts (decodeByteArray n) (\<lambda>v. case v of VArray b \<Rightarrow> encStr b | _ \<Rightarrow> [])
     (\<lambda>v. case v of VArray b \<Rightarrow> length b = n | _ \<Rightarrow> False)"
proof (rule acceptsI)
  fix s v s' assume k: "kind s = None" and d: "decodeByteArray n s = Inr (v, s')"
  then obtain k m s1 where ko: "KindOf s = Inr (k, m, s1)" by (auto simp: decodeByteArray_def bindE_eq_Inr)
  show "(case v of VArray b \<Rightarrow> length b = n | _ \<Rightarrow> False) \<and>
      took (case v of VArray b \<Rightarrow> encStr b | _ \<Rightarrow> []) s s' \<and> kind s' = None"
  proof (cases k)
    case Byte
    with d ko KindOf_took [OF ko k] show ?thesis
      by (auto simp: decodeByteArray_def rearm_def encStr_byte split: if_splits)
  next
    case String
    with d ko obtain b where m: "m = n" and v: "v = VArray b" and rf: "readFull n s1 = Inr (b, s')"
      and c: "\<not> (n = 1 \<and> b ! 0 < 128)"
      by (auto simp: decodeByteArray_def bindE_eq_Inr split: if_splits)
    with String KindOf_took [OF ko k] readFull_took [OF rf] show ?thesis by (auto intro: took_string)
  next
    case List
    with d ko show ?thesis by (simp add: decodeByteArray_def)
  qed
qed

lemma be_nat_single: "be_nat [b] = unat b"
  using be_nat_snoc [of "[]" b] by simp

lemma minBytes_unat_byte: "b \<noteq> 0 \<Longrightarrow> minBytes (unat b) = [b]" for b :: byte
  using minBytes_be_nat [of "[b]"] by (simp add: be_nat_single)

lemma accepts_uint_bits:
  assumes "8 dvd bits" "8 \<le> bits"
  shows "accepts (uint_bits bits) (\<lambda>n. encStr (minBytes n)) (\<lambda>n. n < 2 ^ bits)"
proof (rule acceptsI)
  fix s v s' assume k: "kind s = None" and d: "uint_bits bits s = Inr (v, s')"
  then obtain k n s1 where ko: "KindOf s = Inr (k, n, s1)" by (auto simp: uint_bits_def bindE_eq_Inr)
  have pow: "(256 :: nat) ^ (bits div 8) = 2 ^ bits"
    using power_mult [of "2 :: nat" 8 "bits div 8"] assms(1) by simp
  show "v < 2 ^ bits \<and> took (encStr (minBytes v)) s s' \<and> kind s' = None"
  proof (cases k)
    case Byte
    have "unat (byteval s1) < 2 ^ bits"
      using unat_u8_less [of "byteval s1"] power_increasing [OF assms(2), of "2::nat"] by simp
    with Byte d ko KindOf_took [OF ko k] show ?thesis
      by (auto simp: uint_bits_def rearm_def encStr_byte minBytes_unat_byte split: if_splits)
  next
    case String
    with d ko have n: "n \<le> bits div 8" and ru: "readUint n s1 = Inr (v, s')" and c: "\<not> (n > 0 \<and> v < 128)"
      by (auto simp: uint_bits_def split: if_splits sum.splits)
    from ru obtain b where b: "took b s1 s'" "length b = n" "v = be_nat b" "kind s' = None" "n > 1 \<longrightarrow> hd b \<noteq> 0"
      by (rule readUint_took)
    have one: "b = [b ! 0]" "128 \<le> unat (b ! 0)" if "length b = 1"
      using that b(2,3) c be_nat_single by (auto simp: length_Suc_conv)
    consider "b = []" | "length b = 1" | "length b > 1" by (cases b; cases "tl b") auto
    then have "b = [] \<or> hd b \<noteq> 0"
      using b(2,5) one by cases (auto simp: hd_conv_nth)
    then have mb: "minBytes v = b" using b(3) by (simp add: minBytes_be_nat)
    have "v < 256 ^ n" using be_nat_less [of b] b(2,3) by simp
    also have "\<dots> \<le> 256 ^ (bits div 8)" using n by (intro power_increasing) auto
    finally have "v < 2 ^ bits" using pow by simp
    moreover have "took (encStr b) s s'"
      using String KindOf_took [OF ko k] b(1,2) one by (intro took_string) (auto simp: word_less_nat_alt)
    ultimately show ?thesis using mb b(4) by simp
  next
    case List
    with d ko show ?thesis by (simp add: uint_bits_def)
  qed
qed

lemma accepts_decodeBigIntBytes:
  "accepts decodeBigIntBytes encStr (\<lambda>b. b = [] \<or> hd b \<noteq> 0)"
proof (rule acceptsI)
  fix s b s' assume k: "kind s = None" and d: "decodeBigIntBytes s = Inr (b, s')"
  then obtain k n s1 where ko: "KindOf s = Inr (k, n, s1)" by (auto simp: decodeBigIntBytes_def bindE_eq_Inr)
  have hd0: "b = [] \<or> hd b \<noteq> 0" using d by (auto simp: decodeBigIntBytes_def bindE_eq_Inr hd_conv_nth split: if_splits)
  show "(b = [] \<or> hd b \<noteq> 0) \<and> took (encStr b) s s' \<and> kind s' = None"
  proof (cases k)
    case Byte
    with d ko KindOf_took [OF ko k] hd0 show ?thesis
      by (auto simp: decodeBigIntBytes_def rearm_def encStr_byte split: if_splits)
  next
    case String
    show ?thesis
    proof (cases "n = 0")
      case True
      with String d ko KindOf_took [OF ko k] show ?thesis
        using encStr_string [of "[]"] by (auto simp: decodeBigIntBytes_def rearm_def)
    next
      case False
      with String d ko obtain rf: "readFull n s1 = Inr (b, s')" and c: "\<not> (n = 1 \<and> b ! 0 < 128)"
        by (auto simp: decodeBigIntBytes_def bindE_eq_Inr split: if_splits)
      with String KindOf_took [OF ko k] readFull_took [OF rf] hd0 show ?thesis by (auto intro: took_string)
    qed
  next
    case List
    with d ko show ?thesis by (simp add: decodeBigIntBytes_def)
  qed
qed

lemma accepts_wrapE:
  assumes "accepts dec f ok" "\<And>a. ok a \<Longrightarrow> ok' (g a) \<and> f' (g a) = f a"
  shows "accepts (\<lambda>s. wrapE (dec s) g) f' ok'"
proof (rule acceptsI)
  fix s v s' assume s: "kind s = None" "length (sr s) < 2 ^ 64" and d: "wrapE (dec s) g = Inr (v, s')"
  then obtain a where "dec s = Inr (a, s')" "v = g a" by (auto simp: wrapE_def split: sum.splits)
  with acceptsD [OF assms(1) s] assms(2) show "ok' v \<and> took (f' v) s s' \<and> kind s' = None" by auto
qed

lemma accepts_decodeBigInt:
  "accepts decodeBigInt (\<lambda>i. encStr (minBytes (nat i))) (\<lambda>i. 0 \<le> i)"
proof (rule acceptsI)
  fix s i s' assume s: "kind s = None" "length (sr s) < 2 ^ 64" and d: "decodeBigInt s = Inr (i, s')"
  then obtain b where "decodeBigIntBytes s = Inr (b, s')" "i = int (be_nat b)"
    by (auto simp: decodeBigInt_def bindE_eq_Inr)
  with acceptsD [OF accepts_decodeBigIntBytes s] show "0 \<le> i \<and> took (encStr (minBytes (nat i))) s s' \<and> kind s' = None"
    by (auto simp: minBytes_be_nat)
qed

lemma accepts_Bool: "accepts Bool (\<lambda>b. encStr (minBytes (if b then 1 else 0))) (\<lambda>b. True)"
proof (rule acceptsI)
  fix s b s' assume s: "kind s = None" "length (sr s) < 2 ^ 64" and d: "Bool s = Inr (b, s')"
  then obtain n where "uint_bits 8 s = Inr (n, s')" "n = (if b then 1 else 0)"
    by (auto simp: Bool_def bindE_eq_Inr split: if_splits)
  with acceptsD [OF accepts_uint_bits s, of 8 n s'] show "True \<and> took (encStr (minBytes (if b then 1 else 0))) s s' \<and> kind s' = None"
    by auto
qed

lemma ListBegin_took:
  assumes "ListBegin s = Inr (n, s1)" "kind s = None"
  shows "n < 2 ^ 64 \<and> kind s1 = None \<and> sr s = tagHead List n @ sr s1 \<and>
    stack s1 = of_nat n # steps (length (tagHead List n) + n) (stack s)"
proof -
  from assms(1) obtain s0 where ko: "KindOf s = Inr (List, n, s0)"
    and s1: "s1 = (let t = (case listLimit s0 of None \<Rightarrow> s0 | Some l \<Rightarrow> set_top (l - of_nat n) s0)
      in t\<lparr> stack := of_nat n # stack t, kind := None, ssize := 0 \<rparr>)"
    by (auto simp: ListBegin_def bindE_eq_Inr Let_def split: if_splits)
  have st: "stack s1 = of_nat n # steps n (stack s0)" "sr s1 = sr s0" "kind s1 = None"
    unfolding s1 by (auto simp: Let_def listLimit_def set_top_def steps_def split: list.splits)
  from KindOf_took [OF ko assms(2)] st show ?thesis by (simp add: took_def)
qed

lemma ListEnd_took:
  assumes "ListEnd s2 = Inr s'" and lb: "ListBegin s = Inr (n, s1)" "kind s = None" "length (sr s) < 2 ^ 64"
    and payload: "took c s1 s2"
  shows "took (encList c) s s' \<and> kind s' = None"
proof -
  note b = ListBegin_took [OF lb(1,2)]
  from assms(1) have e: "stack s2 = 0 # stack s'" "sr s' = sr s2" "kind s' = None"
    by (auto simp: ListEnd_def listLimit_def word_gt_0 split: list.splits if_splits)
  have "of_nat n - of_nat (length c) = (0 :: u64)" and tail: "stack s' = steps (length (tagHead List n) + n) (stack s)"
    using payload b e(1) by (auto simp: took_def steps_def)
  then have "(of_nat n :: u64) = of_nat (length c)" by simp
  moreover have "length c < 2 ^ 64" using payload b lb(3) by (simp add: took_def)
  ultimately have "n = length c" using b unat_of_nat_u64 by metis
  with b e payload tail show ?thesis by (simp add: took_def encList_def tags_def)
qed

lemma accepts_elems:
  assumes "accepts dec f ok"
  shows "decodeSliceElems fuel dec s = Inr (vs, s') \<Longrightarrow> kind s = None \<Longrightarrow> length (sr s) < 2 ^ 64 \<Longrightarrow>
    list_all ok vs \<and> took (concat (map f vs)) s s' \<and> kind s' = None"
proof (induction fuel arbitrary: s vs)
  case (Suc fuel)
  show ?case
  proof (cases "dec s")
    case (Inl e)
    with Suc.prems show ?thesis by (auto split: if_splits)
  next
    case (Inr r)
    obtain v s1 where r: "r = (v, s1)" by fastforce
    with Inr Suc.prems obtain vs' where vs: "vs = v # vs'" "decodeSliceElems fuel dec s1 = Inr (vs', s')"
      by (auto simp: bindE_eq_Inr)
    have v: "ok v" "took (f v) s s1" "kind s1 = None"
      using acceptsD [OF assms Suc.prems(2,3)] Inr r by auto
    have "length (sr s1) < 2 ^ 64" using took_length [OF v(2)] Suc.prems(3) by simp
    from Suc.IH [OF vs(2) v(3) this] v vs(1) took_trans [OF v(2)] show ?thesis by simp
  qed
qed simp

lemma accepts_decodeListSlice:
  assumes "accepts dec f ok"
  shows "accepts (decodeListSlice dec) (\<lambda>v. case v of VSlice vs \<Rightarrow> encList (concat (map f vs)) | _ \<Rightarrow> [])
    (\<lambda>v. case v of VSlice vs \<Rightarrow> list_all ok vs | _ \<Rightarrow> False)"
proof (rule acceptsI)
  fix s v s' assume s: "kind s = None" "length (sr s) < 2 ^ 64" and d: "decodeListSlice dec s = Inr (v, s')"
  then obtain n s1 where lb: "ListBegin s = Inr (n, s1)" by (auto simp: decodeListSlice_def split: sum.splits)
  note b = ListBegin_took [OF lb s(1)]
  show "(case v of VSlice vs \<Rightarrow> list_all ok vs | _ \<Rightarrow> False) \<and>
    took (case v of VSlice vs \<Rightarrow> encList (concat (map f vs)) | _ \<Rightarrow> []) s s' \<and> kind s' = None"
  proof (cases "n = 0")
    case True
    with d lb have "ListEnd s1 = Inr s'" "v = VSlice []" by (auto simp: decodeListSlice_def bindE_eq_Inr)
    with ListEnd_took [OF _ lb s, of s1 s' "[]"] show ?thesis by simp
  next
    case False
    with d lb obtain vs s2 where el: "decodeSliceElems (Suc (length (sr s1))) dec s1 = Inr (vs, s2)"
      "ListEnd s2 = Inr s'" "v = VSlice vs"
      unfolding decodeListSlice_def by (auto simp: bindE_eq_Inr simp del: decodeSliceElems.simps)
    have "length (sr s1) < 2 ^ 64" using b s(2) by simp
    from accepts_elems [OF assms el(1) _ this] b have "list_all ok vs" "took (concat (map f vs)) s1 s2" by auto
    with ListEnd_took [OF el(2) lb s] el(3) show ?thesis by simp
  qed
qed

lemma accepts_fields:
  assumes "\<And>i. i < length flds \<Longrightarrow> accepts (fst (flds ! i)) (fs ! i) (oks ! i)"
    and "length fs = length flds" "length oks = length flds" "length flds \<le> nreq"
    and "decodeFields flds nreq s = Inr (vs, s')" "kind s = None" "length (sr s) < 2 ^ 64"
  shows "hasFields oks vs \<and> took (encFields fs vs) s s' \<and> kind s' = None"
  using assms
proof (induction flds arbitrary: fs oks nreq s vs)
  case Nil
  then show ?case by simp
next
  case (Cons fld flds)
  obtain dec z where fld: "fld = (dec, z)" by fastforce
  obtain f fs' ok oks' where fv: "fs = f # fs'" "oks = ok # oks'"
    using Cons.prems(2,3) by (cases fs; cases oks) auto
  obtain v s1 vs' where d: "dec s = Inr (v, s1)" "decodeFields flds (nreq - 1) s1 = Inr (vs', s')" "vs = v # vs'"
    using Cons.prems(4,5) fld by (auto simp: bindE_eq_Inr split: sum.splits if_splits)
  have v: "ok v" "took (f v) s s1" "kind s1 = None"
    using acceptsD [of dec f ok s v s1] Cons.prems(1) [of 0] Cons.prems(6,7) fld fv d(1) by auto
  have "hasFields oks' vs' \<and> took (encFields fs' vs') s1 s' \<and> kind s' = None"
  proof (rule Cons.IH [OF _ _ _ _ d(2) v(3)])
    show "accepts (fst (flds ! i)) (fs' ! i) (oks' ! i)" if "i < length flds" for i
      using Cons.prems(1) [of "Suc i"] that fv by simp
    show "length (sr s1) < 2 ^ 64" using took_length [OF v(2)] Cons.prems(7) by simp
  qed (use Cons.prems fv in auto)
  with v d(3) fv took_trans [OF v(2)] show ?case by simp
qed

lemma accepts_decodeStruct:
  assumes "\<And>i. i < length flds \<Longrightarrow> accepts (fst (flds ! i)) (fs ! i) (oks ! i)"
    and "length fs = length flds" "length oks = length flds" "length flds \<le> nreq"
  shows "accepts (decodeStruct flds nreq) (\<lambda>v. case v of VStruct vs \<Rightarrow> encList (encFields fs vs) | _ \<Rightarrow> [])
    (\<lambda>v. case v of VStruct vs \<Rightarrow> hasFields oks vs | _ \<Rightarrow> False)"
proof (rule acceptsI)
  fix s v s' assume s: "kind s = None" "length (sr s) < 2 ^ 64" and d: "decodeStruct flds nreq s = Inr (v, s')"
  then obtain n s1 vs s2 where lb: "ListBegin s = Inr (n, s1)" and df: "decodeFields flds nreq s1 = Inr (vs, s2)"
    and le: "(case ListEnd s2 of Inl e \<Rightarrow> Inl (wrapStreamError e) | Inr s \<Rightarrow> Inr (VStruct vs, s)) = Inr (v, s')"
    by (cases "ListBegin s") (auto simp: decodeStruct_def bindE_eq_Inr)
  from le have el: "decodeFields flds nreq s1 = Inr (vs, s2)" "ListEnd s2 = Inr s'" "v = VStruct vs"
    by (cases "ListEnd s2"; simp add: df)+
  note b = ListBegin_took [OF lb s(1)]
  have "length (sr s1) < 2 ^ 64" using b s(2) by simp
  from accepts_fields [OF assms el(1) _ this] b have "hasFields oks vs" "took (encFields fs vs) s1 s2" by auto
  with ListEnd_took [OF el(2) lb s] el(3)
  show "(case v of VStruct vs \<Rightarrow> hasFields oks vs | _ \<Rightarrow> False) \<and>
    took (case v of VStruct vs \<Rightarrow> encList (encFields fs vs) | _ \<Rightarrow> []) s s' \<and> kind s' = None" by simp
qed

fun noOptional :: "rtype \<Rightarrow> bool" where
  "noOptional (TPtr t) = noOptional t"
| "noOptional (TPtrNil t) = noOptional t"
| "noOptional (TSlice t) = noOptional t"
| "noOptional (TStruct ts k) = (length ts \<le> k \<and> list_all noOptional ts)"
| "noOptional _ = True"

lemma lastField_noOptional: "n \<le> k \<Longrightarrow> lastField vs k n = n"
  by (cases n) auto

lemma accepts_cong:
  "accepts dec f ok \<Longrightarrow> (\<And>v. ok v \<Longrightarrow> ok' v \<and> f' v = f v) \<Longrightarrow> accepts dec f' ok'"
  unfolding accepts_def by metis

lemma accepts_decodePtr:
  assumes "accepts dec f ok" "\<And>x. ok x \<Longrightarrow> ok' (VPtr (Some x)) \<and> f' (VPtr (Some x)) = f x"
  shows "accepts (decodePtr dec) f' ok'"
  using assms unfolding accepts_def by (fastforce simp: decodePtr_def bindE_eq_Inr)

lemma accepts_decodeNilPtr:
  assumes "accepts dec f ok" "peeks dec" "nk = 0x80 \<or> nk = 0xC0"
    and "\<And>x. ok x \<Longrightarrow> ok' (VPtr (Some x)) \<and> f' (VPtr (Some x)) = f x"
    and "ok' (VPtr None)" "f' (VPtr None) = [nk]"
  shows "accepts (decodeNilPtr nk dec) f' ok'"
proof (rule acceptsI)
  fix s v s' assume s: "kind s = None" "length (sr s) < 2 ^ 64" and d: "decodeNilPtr nk dec s = Inr (v, s')"
  then obtain k n s1 where ko: "KindOf s = Inr (k, n, s1)" by (auto simp: decodeNilPtr_def split: sum.splits)
  show "ok' v \<and> took (f' v) s s' \<and> kind s' = None"
  proof (cases "k \<noteq> Byte \<and> n = 0")
    case True
    with d ko have "v = VPtr None" "s' = rearm s1" "(k = List) = (nk = 0xC0)"
      by (auto simp: decodeNilPtr_def split: if_splits)
    moreover from this True assms(3) have "tagHead k 0 = [nk]" by (auto simp: tags_def encHead_def)
    ultimately show ?thesis using KindOf_took [OF ko s(1)] True assms(5,6) by (auto simp: rearm_def)
  next
    case False
    with d ko obtain x where x: "dec s1 = Inr (x, s')" "v = VPtr (Some x)"
      by (auto simp: decodeNilPtr_def bindE_eq_Inr split: if_splits)
    have "dec s1 = dec s" using ko KindOf_idem [OF ko] by (intro peeksD [OF assms(2)]) simp
    with acceptsD [OF assms(1) s, of x s'] x assms(4) [of x] show ?thesis by auto
  qed
qed

lemma accepts_makeDecoder:
  "wfType t \<Longrightarrow> noOptional t \<Longrightarrow> accepts (makeDecoder t) (enc t) (hasType t)"
proof (induction t)
  case (TUint bits)
  then have "8 dvd bits" "8 \<le> bits" "bits \<le> 64" by auto
  then have "accepts (uint_bits bits) (\<lambda>n. encStr (minBytes n)) (\<lambda>n. n < 2 ^ bits)" by (intro accepts_uint_bits)
  then have "accepts (\<lambda>s. wrapE (uint_bits bits s) (\<lambda>n. VUint (of_nat n))) (enc (TUint bits)) (hasType (TUint bits))"
  proof (rule accepts_wrapE)
    fix n :: nat assume "n < 2 ^ bits"
    moreover from this have "n < 2 ^ 64"
      using \<open>bits \<le> 64\<close> power_increasing [of bits 64 "2::nat"] by linarith
    ultimately show "hasType (TUint bits) (VUint (of_nat n)) \<and> enc (TUint bits) (VUint (of_nat n)) = encStr (minBytes n)"
      by (simp add: unat_of_nat_u64)
  qed
  then show ?case by simp
next
  case TBool
  show ?case using accepts_wrapE [OF accepts_Bool, of "hasType TBool" VBool "enc TBool"] by simp
next
  case TBigInt
  show ?case
    using accepts_wrapE [OF accepts_decodeBigInt, of "hasType TBigInt" "\<lambda>i. VBigInt (Some i)" "enc TBigInt"] by simp
next
  case TBytes
  show ?case using accepts_wrapE [OF accepts_Bytes, of "hasType TBytes" VBytes "enc TBytes"] by simp
next
  case (TArray n)
  show ?case using accepts_decodeByteArray [of n] by simp
next
  case (TPtr t)
  then show ?case by (auto intro!: accepts_decodePtr [of "makeDecoder t" "enc t" "hasType t"])
next
  case (TPtrNil t)
  have "typeNilKind t = 0x80 \<or> typeNilKind t = 0xC0" by (cases t) (auto simp: typeNilKind_def)
  with TPtrNil show ?case
    by (auto intro!: accepts_decodeNilPtr [of "makeDecoder t" "enc t" "hasType t"] peeks_makeDecoder)
next
  case (TSlice t)
  then show ?case using accepts_decodeListSlice [of "makeDecoder t" "enc t" "hasType t"] by simp
next
  case (TStruct ts k)
  have "accepts (decodeStruct (map (\<lambda>t. (makeDecoder t, zeroVal t)) ts) k)
      (\<lambda>v. case v of VStruct vs \<Rightarrow> encList (encFields (map enc ts) vs) | _ \<Rightarrow> [])
      (\<lambda>v. case v of VStruct vs \<Rightarrow> hasFields (map hasType ts) vs | _ \<Rightarrow> False)"
    using TStruct by (intro accepts_decodeStruct) (auto simp: list_all_iff)
  then have "accepts (decodeStruct (map (\<lambda>t. (makeDecoder t, zeroVal t)) ts) k) (enc (TStruct ts k)) (hasType (TStruct ts k))"
  proof (rule accepts_cong)
    fix v assume v: "case v of VStruct vs \<Rightarrow> hasFields (map hasType ts) vs | _ \<Rightarrow> False"
    then obtain vs where "v = VStruct vs" "length vs = length ts" by (auto simp: hasFields_conv split: rval.splits)
    with TStruct.prems(2) v show "hasType (TStruct ts k) v \<and>
        enc (TStruct ts k) v = (case v of VStruct vs \<Rightarrow> encList (encFields (map enc ts) vs) | _ \<Rightarrow> [])"
      by (simp add: lastField_noOptional Let_def)
  qed
  then show ?case by simp
qed

lemma DecodeBytes_accepts:
  assumes "wfType t" "noOptional t" "length b < 2 ^ 64" "DecodeBytes t b = Inr v"
  shows "hasType t v \<and> b = enc t v"
proof -
  from assms(4) obtain s' where d: "makeDecoder t (Reset b (length b) False) = Inr (v, s')" "sr s' = []"
    by (auto simp: DecodeBytes_def bindE_eq_Inr split: if_splits)
  from acceptsD [OF accepts_makeDecoder [OF assms(1,2)] _ _ d(1)] assms(3) d(2) show ?thesis
    by (auto simp: Reset_def took_def)
qed

section \<open>The element loop never runs out of fuel\<close>

definition advances :: "(Stream \<Rightarrow> rlp_error + ('a \<times> Stream)) \<Rightarrow> bool" where
  "advances dec \<longleftrightarrow> (\<forall>s. kind s = None \<and> length (sr s) < 2 ^ 64 \<longrightarrow> dec s \<noteq> Inl OutOfFuel \<and>
     (\<forall>v s'. dec s = Inr (v, s') \<longrightarrow> length (sr s') < length (sr s) \<and> kind s' = None))"

lemma advancesI:
  "(\<And>s. kind s = None \<Longrightarrow> length (sr s) < 2 ^ 64 \<Longrightarrow> dec s \<noteq> Inl OutOfFuel) \<Longrightarrow>
   (\<And>s v s'. kind s = None \<Longrightarrow> length (sr s) < 2 ^ 64 \<Longrightarrow> dec s = Inr (v, s') \<Longrightarrow>
      length (sr s') < length (sr s) \<and> kind s' = None) \<Longrightarrow>
   advances dec"
  unfolding advances_def by blast

lemma advancesD:
  "advances dec \<Longrightarrow> kind s = None \<Longrightarrow> length (sr s) < 2 ^ 64 \<Longrightarrow> dec s \<noteq> Inl OutOfFuel"
  "advances dec \<Longrightarrow> kind s = None \<Longrightarrow> length (sr s) < 2 ^ 64 \<Longrightarrow> dec s = Inr (v, s') \<Longrightarrow>
     length (sr s') < length (sr s) \<and> kind s' = None"
  unfolding advances_def by blast+

lemma reader_no_fuel:
  "willRead n s \<noteq> Inl OutOfFuel" "readFull n s \<noteq> Inl OutOfFuel" "readByte s \<noteq> Inl OutOfFuel"
  "readUint n s \<noteq> Inl OutOfFuel" "readLongSize k n s \<noteq> Inl OutOfFuel"
proof -
  show 1: "willRead n s \<noteq> Inl OutOfFuel" for n s
    by (auto simp: willRead_def Let_def split: option.splits)
  show 2: "readFull n s \<noteq> Inl OutOfFuel" for n s
    using 1 by (auto simp: readFull_def bindE_eq_Inl split: if_splits)
  show 3: "readByte s \<noteq> Inl OutOfFuel" for s
    using 1 by (auto simp: readByte_def bindE_eq_Inl split: list.splits)
  show 4: "readUint n s \<noteq> Inl OutOfFuel" for n s
    using 2 3 by (auto simp: readUint_def bindE_eq_Inl split: if_splits)
  show "readLongSize k n s \<noteq> Inl OutOfFuel"
    using 4 by (auto simp: readLongSize_def bindE_eq_Inl split: if_splits)
qed

lemma KindOf_no_fuel: "kind s = None \<Longrightarrow> KindOf s \<noteq> Inl OutOfFuel"
proof -
  have "readKind s \<noteq> Inl OutOfFuel"
    using reader_no_fuel(3) [of s] reader_no_fuel(5) by (cases "readByte s") (auto simp: readKind_def Let_def split: if_splits)
  then show "kind s = None \<Longrightarrow> ?thesis"
    by (auto simp: KindOf_def bindE_eq_Inl split: if_splits)
qed

lemma leaf_no_fuel:
  assumes "kind s = None"
  shows "Bytes s \<noteq> Inl OutOfFuel" "uint_bits bits s \<noteq> Inl OutOfFuel" "decodeBigInt s \<noteq> Inl OutOfFuel"
    "decodeByteArray n s \<noteq> Inl OutOfFuel" "ListBegin s \<noteq> Inl OutOfFuel"
proof -
  note k = KindOf_no_fuel [OF assms]
  show "Bytes s \<noteq> Inl OutOfFuel"
    using k reader_no_fuel(2) by (auto simp: Bytes_def bindE_eq_Inl split: Kind.splits if_splits)
  show "uint_bits bits s \<noteq> Inl OutOfFuel"
  proof (cases "KindOf s")
    case (Inr r)
    obtain k n s1 where "r = (k, n, s1)" by (metis prod_cases3)
    with Inr show ?thesis using reader_no_fuel(4) [of n s1]
      by (cases k; cases "readUint n s1") (auto simp: uint_bits_def split: if_splits)
  qed (use k in \<open>simp add: uint_bits_def\<close>)
  show "decodeBigInt s \<noteq> Inl OutOfFuel"
    using k reader_no_fuel(2) by (auto simp: decodeBigInt_def decodeBigIntBytes_def bindE_eq_Inl split: if_splits)
  show "decodeByteArray n s \<noteq> Inl OutOfFuel"
    using k reader_no_fuel(2)
    by (auto simp: decodeByteArray_def bindE_eq_Inl wrapStreamError_def split: Kind.splits if_splits)
  show "ListBegin s \<noteq> Inl OutOfFuel"
    using k by (auto simp: ListBegin_def bindE_eq_Inl Let_def split: if_splits)
qed

lemma wrapStreamError_fuel: "wrapStreamError e = OutOfFuel \<Longrightarrow> e = OutOfFuel"
  by (cases e) (auto simp: wrapStreamError_def)

lemma advances_leaf:
  assumes "accepts dec f ok" "\<And>v. ok v \<Longrightarrow> f v \<noteq> []" "\<And>s. kind s = None \<Longrightarrow> dec s \<noteq> Inl OutOfFuel"
  shows "advances (dec :: Stream \<Rightarrow> rlp_error + ('a \<times> Stream))"
proof (rule advancesI)
  fix s v s' assume s: "kind s = None" "length (sr s) < 2 ^ 64" "dec s = Inr (v, s')"
  with acceptsD [OF assms(1) s] assms(2) [of v] show "length (sr s') < length (sr s) \<and> kind s' = None"
    by (auto simp: took_def)
qed (use assms(3) in blast)

lemma advances_wrapE: "advances dec \<Longrightarrow> advances (\<lambda>s. wrapE (dec s) f)"
proof (rule advancesI)
  fix s :: Stream assume "advances dec" "kind s = None" "length (sr s) < 2 ^ 64"
  from advancesD(1) [OF this] show "wrapE (dec s) f \<noteq> Inl OutOfFuel"
    by (auto simp: wrapE_def dest: wrapStreamError_fuel split: sum.splits)
next
  fix s :: Stream and v s' assume a: "advances dec" "kind s = None" "length (sr s) < 2 ^ 64" and "wrapE (dec s) f = Inr (v, s')"
  then obtain w where "dec s = Inr (w, s')" by (auto simp: wrapE_def split: sum.splits)
  with advancesD(2) [OF a] show "length (sr s') < length (sr s) \<and> kind s' = None" by blast
qed

lemma elems_advance:
  assumes "advances dec"
  shows "kind s = None \<Longrightarrow> length (sr s) < 2 ^ 64 \<Longrightarrow> length (sr s) < fuel \<Longrightarrow>
    decodeSliceElems fuel dec s \<noteq> Inl OutOfFuel \<and>
    (\<forall>vs s'. decodeSliceElems fuel dec s = Inr (vs, s') \<longrightarrow> length (sr s') \<le> length (sr s) \<and> kind s' = None)"
proof (induction fuel arbitrary: s)
  case (Suc fuel)
  note a = advancesD [OF assms Suc.prems(1,2)]
  show ?case
  proof (cases "dec s")
    case (Inl e)
    with a(1) Suc.prems(1) show ?thesis by auto
  next
    case (Inr r)
    obtain v s1 where r: "r = (v, s1)" by fastforce
    with Inr a(2) have s1: "length (sr s1) < length (sr s)" "kind s1 = None" by auto
    have "decodeSliceElems fuel dec s1 \<noteq> Inl OutOfFuel \<and>
      (\<forall>vs s'. decodeSliceElems fuel dec s1 = Inr (vs, s') \<longrightarrow> length (sr s') \<le> length (sr s1) \<and> kind s' = None)"
      using s1 Suc.prems by (intro Suc.IH) auto
    with Inr r s1(1) show ?thesis by (fastforce simp: bindE_eq_Inl bindE_eq_Inr)
  qed
qed simp

lemma fields_advance:
  "(\<And>d. d \<in> set flds \<Longrightarrow> advances (fst d)) \<Longrightarrow> kind s = None \<Longrightarrow> length (sr s) < 2 ^ 64 \<Longrightarrow>
    decodeFields flds nreq s \<noteq> Inl OutOfFuel \<and>
    (\<forall>vs s'. decodeFields flds nreq s = Inr (vs, s') \<longrightarrow> length (sr s') \<le> length (sr s) \<and> kind s' = None)"
proof (induction flds arbitrary: nreq s)
  case (Cons fld flds)
  obtain dec z where fld: "fld = (dec, z)" by fastforce
  note a = advancesD [of dec, OF _ Cons.prems(2,3)]
  have adv: "advances dec" using Cons.prems(1) [of fld] fld by simp
  show ?case
  proof (cases "dec s")
    case (Inl e)
    with a(1) [OF adv] fld Cons.prems(2) show ?thesis by auto
  next
    case (Inr r)
    obtain v s1 where r: "r = (v, s1)" by fastforce
    with Inr a(2) [OF adv] have s1: "length (sr s1) < length (sr s)" "kind s1 = None" by auto
    have "decodeFields flds (nreq - 1) s1 \<noteq> Inl OutOfFuel \<and>
      (\<forall>vs s'. decodeFields flds (nreq - 1) s1 = Inr (vs, s') \<longrightarrow> length (sr s') \<le> length (sr s1) \<and> kind s' = None)"
      using s1 Cons.prems by (intro Cons.IH) auto
    with Inr r s1(1) fld show ?thesis by (fastforce simp: bindE_eq_Inl bindE_eq_Inr)
  qed
qed simp

lemma ListEnd_facts:
  "ListEnd s \<noteq> Inl OutOfFuel" "ListEnd s = Inr s' \<Longrightarrow> sr s' = sr s \<and> kind s' = None"
  by (auto simp: ListEnd_def split: option.splits if_splits)

lemma ListBegin_shrinks:
  "ListBegin s = Inr (n, s1) \<Longrightarrow> kind s = None \<Longrightarrow> length (sr s1) < length (sr s) \<and> kind s1 = None"
  using ListBegin_took [of s n s1] by (simp add: encHead_def)

lemma advances_decodeListSlice:
  assumes "advances dec"
  shows "advances (decodeListSlice dec)"
  unfolding advances_def
proof (intro allI impI)
  fix s :: Stream assume s: "kind s = None \<and> length (sr s) < 2 ^ 64"
  show "decodeListSlice dec s \<noteq> Inl OutOfFuel \<and> (\<forall>v s'. decodeListSlice dec s = Inr (v, s') \<longrightarrow>
    length (sr s') < length (sr s) \<and> kind s' = None)"
  proof (cases "ListBegin s")
    case (Inl e)
    with leaf_no_fuel(5) [of s] s show ?thesis by (auto simp: decodeListSlice_def dest: wrapStreamError_fuel)
  next
    case (Inr r)
    obtain n s1 where r: "r = (n, s1)" by fastforce
    with ListBegin_shrinks Inr s have s1: "length (sr s1) < length (sr s)" "kind s1 = None" by auto
    note el = elems_advance [OF assms s1(2), of "Suc (length (sr s1))"]
    show ?thesis
    proof (cases "n = 0")
      case True
      with Inr r s1(1) show ?thesis
        using ListEnd_facts by (fastforce simp: decodeListSlice_def bindE_eq_Inl bindE_eq_Inr)
    next
      case False
      show ?thesis
      proof (cases "decodeSliceElems (Suc (length (sr s1))) dec s1")
        case (Inl e)
        with False Inr r el s s1 show ?thesis by (simp add: decodeListSlice_def del: decodeSliceElems.simps)
      next
        case el2: (Inr q)
        obtain vs s2 where q: "q = (vs, s2)" by fastforce
        with el el2 s s1 have "length (sr s2) < length (sr s)" by auto
        moreover have "decodeListSlice dec s = bindE (ListEnd s2) (\<lambda>s. Inr (VSlice vs, s))"
          using False Inr r q el2 by (simp add: decodeListSlice_def del: decodeSliceElems.simps)
        ultimately show ?thesis using ListEnd_facts(1) [of s2]
          by (cases "ListEnd s2") (auto dest: ListEnd_facts(2))
      qed
    qed
  qed
qed

lemma advances_decodeStruct:
  assumes "\<And>d. d \<in> set flds \<Longrightarrow> advances (fst d)"
  shows "advances (decodeStruct flds k)"
  unfolding advances_def
proof (intro allI impI)
  fix s :: Stream assume s: "kind s = None \<and> length (sr s) < 2 ^ 64"
  show "decodeStruct flds k s \<noteq> Inl OutOfFuel \<and> (\<forall>v s'. decodeStruct flds k s = Inr (v, s') \<longrightarrow>
    length (sr s') < length (sr s) \<and> kind s' = None)"
  proof (cases "ListBegin s")
    case (Inl e)
    with leaf_no_fuel(5) [of s] s show ?thesis by (auto simp: decodeStruct_def dest: wrapStreamError_fuel)
  next
    case (Inr r)
    obtain n s1 where r: "r = (n, s1)" by fastforce
    with ListBegin_shrinks Inr s have s1: "length (sr s1) < length (sr s)" "kind s1 = None" by auto
    note fa = fields_advance [of flds s1 k, OF assms s1(2)]
    show ?thesis
    proof (cases "decodeFields flds k s1")
      case (Inl e)
      with Inr r fa s s1 show ?thesis by (simp add: decodeStruct_def)
    next
      case df: (Inr q)
      obtain vs s2 where q: "q = (vs, s2)" by fastforce
      with fa df s s1 have "length (sr s2) < length (sr s)" by auto
      with Inr r q df show ?thesis
        using ListEnd_facts(1) [of s2]
        by (cases "ListEnd s2") (auto simp: decodeStruct_def dest: wrapStreamError_fuel ListEnd_facts(2))
    qed
  qed
qed

lemma advances_decodePtr:
  assumes "advances dec"
  shows "advances (decodePtr dec)"
  unfolding advances_def
proof (intro allI impI)
  fix s :: Stream assume s: "kind s = None \<and> length (sr s) < 2 ^ 64"
  show "decodePtr dec s \<noteq> Inl OutOfFuel \<and> (\<forall>v s'. decodePtr dec s = Inr (v, s') \<longrightarrow>
    length (sr s') < length (sr s) \<and> kind s' = None)"
    using advancesD(1) [OF assms, of s] advancesD(2) [OF assms, of s] s
    by (cases "dec s") (auto simp: decodePtr_def)
qed

lemma advances_decodeNilPtr:
  assumes "advances dec" "peeks dec"
  shows "advances (decodeNilPtr nk dec)"
  unfolding advances_def
proof (intro allI impI)
  fix s :: Stream assume s: "kind s = None \<and> length (sr s) < 2 ^ 64"
  show "decodeNilPtr nk dec s \<noteq> Inl OutOfFuel \<and> (\<forall>v s'. decodeNilPtr nk dec s = Inr (v, s') \<longrightarrow>
    length (sr s') < length (sr s) \<and> kind s' = None)"
  proof (cases "KindOf s")
    case (Inl e)
    with KindOf_no_fuel [of s] s show ?thesis by (auto simp: decodeNilPtr_def dest: wrapStreamError_fuel)
  next
    case (Inr r)
    obtain k n s1 where r: "r = (k, n, s1)" by (metis prod_cases3)
    have "dec s1 = dec s" using Inr r KindOf_idem [of s k n s1] by (intro peeksD [OF assms(2)]) simp
    moreover have "length (sr s1) < length (sr s)"
      using KindOf_took [of s k n s1] Inr r s by (auto simp: took_def encHead_def)
    ultimately show ?thesis
      using advancesD [OF assms(1), of s] s Inr r
      by (auto simp: decodeNilPtr_def rearm_def bindE_eq_Inl bindE_eq_Inr split: if_splits)
  qed
qed

lemma advances_makeDecoder: "wfType t \<Longrightarrow> advances (makeDecoder t)"
proof (induction t)
  case (TUint bits)
  then have "advances (uint_bits bits)"
    by (intro advances_leaf [OF accepts_uint_bits]) (auto simp: leaf_no_fuel)
  then show ?case by (simp add: advances_wrapE)
next
  case TBool
  have "Bool s \<noteq> Inl OutOfFuel" if "kind s = None" for s
    using leaf_no_fuel(2) [OF that] by (auto simp: Bool_def bindE_eq_Inl split: if_splits)
  then have "advances Bool" by (intro advances_leaf [OF accepts_Bool]) auto
  then show ?case by (simp add: advances_wrapE)
next
  case TBigInt
  have "advances decodeBigInt" by (intro advances_leaf [OF accepts_decodeBigInt]) (auto simp: leaf_no_fuel)
  then show ?case by (simp add: advances_wrapE)
next
  case TBytes
  have "advances Bytes" by (intro advances_leaf [OF accepts_Bytes]) (auto simp: leaf_no_fuel)
  then show ?case by (simp add: advances_wrapE)
next
  case (TArray n)
  have "advances (decodeByteArray n)"
    by (intro advances_leaf [OF accepts_decodeByteArray]) (auto simp: leaf_no_fuel split: rval.splits)
  then show ?case by simp
next
  case (TStruct ts k)
  then show ?case by (auto simp: list_all_iff intro!: advances_decodeStruct)
qed (simp_all add: advances_decodePtr advances_decodeNilPtr peeks_makeDecoder advances_decodeListSlice)

lemma DecodeBytes_no_fuel: "wfType t \<Longrightarrow> length b < 2 ^ 64 \<Longrightarrow> DecodeBytes t b \<noteq> Inl OutOfFuel"
  using advancesD(1) [OF advances_makeDecoder, of t "Reset b (length b) False"]
  by (auto simp: DecodeBytes_def bindE_eq_Inl Reset_def split: if_splits)

section \<open>Properties\<close>

lemmas rlp_eval = DecodeBytes_def Reset_def decodeListSlice_def ListBegin_def ListEnd_def KindOf_def readKind_def
  readByte_def readFull_def willRead_def listLimit_def set_top_def Let_def Bytes_def wrapE_def rearm_def
  decodeStruct_def uint_bits_def readUint_def readLongSize_def decodeByteArray_def wrapStreamError_def
  decodeBigInt_def decodeBigIntBytes_def Bool_def decodePtr_def decodeNilPtr_def be_nat_def
  unsigned_minus_1_eq_mask mask_eq_exp_minus_1

text \<open>C5. The decoder is canonical: if \<open>DecodeBytes\<close> accepts an input for a type without optional
  fields, then the input is exactly what the encoder writes for the result. No two inputs decode to
  the same value.\<close>

theorem rlp_canonical:
  assumes "wfType t" "noOptional t" "length b < 2 ^ 64" "DecodeBytes t b = Inr v"
  shows "EncodeToBytes t v = Inr b"
proof -
  from DecodeBytes_accepts [OF assms] have "hasType t v" "b = enc t v" by simp_all
  with EncodeToBytes_enc assms(3) show ?thesis by simp
qed

theorem rlp_canonical_witness:
  "DecodeBytes (TSlice TBytes) [0xC3, 5, 0x81, 0x80] = Inr (VSlice [VBytes [5], VBytes [0x80]]) \<and>
   EncodeToBytes (TSlice TBytes) (VSlice [VBytes [5], VBytes [0x80]]) = Inr [0xC3, 5, 0x81, 0x80]"
proof -
  have d: "DecodeBytes (TSlice TBytes) [0xC3, 5, 0x81, 0x80] = Inr (VSlice [VBytes [5], VBytes [0x80]])"
    by (simp add: rlp_eval)
  from rlp_canonical [OF _ _ _ this] d show ?thesis by simp
qed

text \<open>C6. The decoder ends on every input: the bound that the model puts on the element loop of a slice
  is never reached, whatever the bytes and whatever the type.\<close>

theorem rlp_decoder_ends:
  assumes "wfType t" "length b < 2 ^ 64"
  shows "DecodeBytes t b \<noteq> Inl OutOfFuel"
  using assms by (rule DecodeBytes_no_fuel)

theorem rlp_decoder_ends_witness:
  "DecodeBytes (TSlice (TSlice TBytes)) [0xC4, 0xC0, 0xC2, 1, 2] \<noteq> Inl OutOfFuel \<and>
   DecodeBytes (TSlice (TSlice TBytes)) [0xC4, 0xC0, 0xC2, 1, 2]
     = Inr (VSlice [VSlice [], VSlice [VBytes [1], VBytes [2]]])"
  by (rule conjI, rule rlp_decoder_ends, simp, simp) (simp add: rlp_eval)

text \<open>A list that overruns its parent by the length of its tag passes the size check of \<open>Kind\<close> and wraps
  the parent's limit; the decoder fails later, with the error of the outer input and not with
  \<open>ErrElemTooLarge\<close>.\<close>

theorem list_overrun_error:
  "DecodeBytes (TSlice (TSlice TBytes)) [0xC1, 0xC1, 5] = Inl ErrValueTooLarge"
  by (simp add: rlp_eval)

end
