(* ===== verification/Frequency.thy ===== *)
theory Frequency
  imports Turns Rlp_Canonical "HOL-Library.Multiset"
begin

text \<open>
  The stake-weighted choice of the validator in turn after the Snake8 fork: \<open>calcFrequencyRLP\<close> of
  \<open>snapshot.go\<close>, and what its result means for \<open>selectValidatorFromFrequencyRLP\<close>. The iteration order of
  the validator map is the order of the association list; the result does not depend on it.
\<close>

section \<open>Frequencies from stakes\<close>

text \<open>\<open>big.Int.Div\<close> is Euclidean division; the divisors here are never 0.\<close>

definition bigDiv :: "int \<Rightarrow> int \<Rightarrow> int" where
  "bigDiv a b = (if 0 \<le> b then a div b else - (a div (- b)))"

text \<open>Step 1: the stake in whole tokens of every validator with a stake that has not signed recently.
  A stake that is missing or nil is dereferenced.\<close>

fun eligible :: "Snapshot \<Rightarrow> (address \<Rightarrow> int option) \<Rightarrow> address list \<Rightarrow> candidate list result" where
  "eligible s stakes [] = Inr []"
| "eligible s stakes (addr # addrs) =
     (case stakes addr of
        None \<Rightarrow> Inl Panic
      | Some stake \<Rightarrow>
          bindE (eligible s stakes addrs) (\<lambda>cs.
            if stake = 0 \<or> SignRecently s addr then Inr cs else Inr ((addr, bigDiv stake (10 ^ 18)) # cs)))"

text \<open>Steps 2 and 3.\<close>

definition baseFrequency :: "int \<Rightarrow> int \<Rightarrow> candidate \<Rightarrow> candidate" where
  "baseFrequency minFreq totalDelegated c =
     (let f = bigDiv (snd c * validatorFrequencyPrecision) totalDelegated in (fst c, if f < minFreq then minFreq else f))"

text \<open>One round of step 4, with the flag \<open>changed\<close>; the round does nothing when it leaves the loop early.\<close>

definition adjusted :: "int \<Rightarrow> int \<Rightarrow> int \<Rightarrow> candidate \<Rightarrow> int" where
  "adjusted minFreq adjustment totalAboveMin c = snd c + bigDiv (adjustment * snd c) totalAboveMin"

definition normStep :: "int \<Rightarrow> candidate list \<Rightarrow> candidate list \<times> bool" where
  "normStep minFreq cs =
     (let totalFreq = sum_list (map snd cs);
          totalAboveMin = sum_list (map snd (filter (\<lambda>c. minFreq < snd c) cs));
          adjustment = validatorFrequencyPrecision - totalFreq in
      if adjustment = 0 \<or> totalAboveMin = 0 then (cs, False)
      else
        (map (\<lambda>c. if minFreq < snd c
             then (fst c, if adjusted minFreq adjustment totalAboveMin c < minFreq then minFreq
                          else adjusted minFreq adjustment totalAboveMin c)
             else c) cs,
         \<exists>c \<in> set cs. minFreq < snd c \<and> adjusted minFreq adjustment totalAboveMin c < minFreq))"

fun normalizeFreq :: "nat \<Rightarrow> int \<Rightarrow> candidate list \<Rightarrow> candidate list" where
  "normalizeFreq 0 minFreq cs = cs"
| "normalizeFreq (Suc k) minFreq cs =
     (let (cs', changed) = normStep minFreq cs in if changed then normalizeFreq k minFreq cs' else cs')"

definition maxIterations :: nat where "maxIterations = 10"

definition frequencies :: "candidate list \<Rightarrow> candidate list result" where
  "frequencies candidates =
     (let totalDelegated = sum_list (map snd candidates) in
      if candidates = [] \<or> totalDelegated = 0 then Inl (ErrMsg ''no eligible validators found'')
      else
        (let minFreq = bigDiv validatorFrequencyPrecision (2 * int (length candidates)) in
         Inr (sort_key fst (normalizeFreq maxIterations minFreq (map (baseFrequency minFreq totalDelegated) candidates)))))"

definition calcFrequencyRLP :: "Snapshot \<Rightarrow> (address \<Rightarrow> int option) \<Rightarrow> bytes result" where
  "calcFrequencyRLP s stakes =
     bindE (eligible s stakes (map fst (Validators s))) (\<lambda>candidates.
     bindE (frequencies candidates) (\<lambda>cs.
       case EncodeToBytes candidatesType (VSlice (map candidateVal cs)) of
         Inl e \<Rightarrow> Inl (RlpError e) | Inr b \<Rightarrow> Inr b))"

section \<open>Every round keeps the minimum\<close>

abbreviation above :: "int \<Rightarrow> candidate list \<Rightarrow> candidate list" where
  "above m cs \<equiv> filter (\<lambda>c. m < snd c) cs"

definition allMin :: "int \<Rightarrow> candidate list \<Rightarrow> bool" where
  "allMin m cs \<longleftrightarrow> (\<forall>c \<in> set cs. m \<le> snd c)"

lemma normStep_fst: "map fst (fst (normStep m cs)) = map fst cs"
  by (auto simp: normStep_def Let_def)

lemma normalizeFreq_fst: "map fst (normalizeFreq k m cs) = map fst cs"
proof (induction k arbitrary: cs)
  case (Suc k)
  then show ?case using normStep_fst [of m cs] by (simp add: case_prod_unfold Let_def)
qed simp

lemma normStep_allMin: "allMin m cs \<Longrightarrow> allMin m (fst (normStep m cs))"
  by (auto simp: normStep_def Let_def allMin_def)

lemma normalizeFreq_allMin: "allMin m cs \<Longrightarrow> allMin m (normalizeFreq k m cs)"
proof (induction k arbitrary: cs)
  case (Suc k)
  then show ?case using normStep_allMin [of m cs] by (simp add: case_prod_unfold Let_def)
qed simp

section \<open>The frequencies add up to at most the precision\<close>

lemma sum_above_pos: "0 \<le> m \<Longrightarrow> 0 \<le> sum_list (map snd (above m cs))"
  by (rule sum_list_nonneg) auto

lemma sum_above_zero:
  assumes "0 \<le> m" "allMin m cs" "sum_list (map snd (above m cs)) = 0"
  shows "sum_list (map snd cs) = int (length cs) * m"
proof -
  have "above m cs = []"
  proof (rule ccontr)
    assume "above m cs \<noteq> []"
    then obtain c cs' where c: "above m cs = c # cs'" by (cases "above m cs") auto
    have "0 < snd d" if "d \<in> set (above m cs)" for d using that assms(1) by auto
    then have pos: "0 < snd d" if "d \<in> set (c # cs')" for d using that c by metis
    then have "0 < snd c" "0 \<le> sum_list (map snd cs')"
      by (simp, intro sum_list_nonneg) (use pos in \<open>force intro: less_imp_le\<close>)
    with assms(3) c show False by simp
  qed
  then have "snd c = m" if "c \<in> set cs" for c using assms(2) that by (fastforce simp: allMin_def filter_empty_conv)
  then have "map snd cs = replicate (length cs) m" by (intro replicate_eqI) auto
  then show ?thesis by (simp add: sum_list_replicate)
qed

lemma sum_div_le:
  assumes "0 < T" "sum_list (map snd cs) = T"
  shows "(\<Sum>c \<leftarrow> cs. k * snd c div T) \<le> (k :: int)"
proof -
  have "(\<Sum>c \<leftarrow> cs. k * snd c div T) * T = (\<Sum>c \<leftarrow> cs. k * snd c div T * T)"
    by (rule sum_list_mult_const [symmetric])
  also have "\<dots> \<le> (\<Sum>c \<leftarrow> cs. k * snd c)"
    using assms(1) by (intro sum_list_mono) (metis div_mult_mod_eq le_add_same_cancel1 pos_mod_sign)
  also have "\<dots> = k * T" by (simp add: sum_list_const_mult assms(2))
  finally show ?thesis using assms(1) by (simp add: mult_le_cancel_right)
qed

lemma sum_split: "(\<Sum>c \<leftarrow> cs. if P c then f c + g c else f c) = (\<Sum>c \<leftarrow> cs. f c) + (\<Sum>c \<leftarrow> filter P cs. g c :: int)"
  by (induction cs) auto

lemma normStep_sum:
  assumes "0 \<le> m" "allMin m cs" "normStep m cs = (cs', False)" "int (length cs) * m \<le> 1000"
  shows "sum_list (map snd cs') \<le> 1000"
proof -
  let ?T = "sum_list (map snd (above m cs))" and ?k = "1000 - sum_list (map snd cs)"
  have prec: "validatorFrequencyPrecision = 1000" by (simp add: validatorFrequencyPrecision_def)
  show ?thesis
  proof (cases "?k = 0 \<or> ?T = 0")
    case True
    with assms sum_above_zero [OF assms(1,2)] show ?thesis by (auto simp: normStep_def Let_def prec)
  next
    case False
    then have T: "0 < ?T" using sum_above_pos [OF assms(1), of cs] by simp
    have low: "\<not> adjusted m ?k ?T c < m" if "c \<in> set cs" "m < snd c" for c
      using assms(3) False that by (auto simp: normStep_def Let_def prec)
    have "map snd cs' = map (\<lambda>c. if m < snd c then snd c + ?k * snd c div ?T else snd c) cs"
      using assms(3) False low T by (auto simp: normStep_def Let_def prec adjusted_def bigDiv_def)
    then have "sum_list (map snd cs') = sum_list (map snd cs) + (\<Sum>c \<leftarrow> above m cs. ?k * snd c div ?T)"
      by (simp add: sum_split)
    also have "\<dots> \<le> 1000" using sum_div_le [OF T refl, of ?k] by simp
    finally show ?thesis .
  qed
qed

lemma length_filter_map_less:
  assumes "\<And>c. c \<in> set cs \<Longrightarrow> P (f c) \<Longrightarrow> P c" "\<exists>c \<in> set cs. P c \<and> \<not> P (f c)"
  shows "length (filter P (map f cs)) < length (filter P cs)"
  using assms
proof (induction cs)
  case (Cons c cs)
  have le: "length (filter P (map f ds)) \<le> length (filter P ds)" if "\<And>d. d \<in> set ds \<Longrightarrow> P (f d) \<Longrightarrow> P d" for ds
    using that by (induction ds) (auto simp: le_SucI)
  show ?case
  proof (cases "P c \<and> \<not> P (f c)")
    case True
    then show ?thesis using le [of cs] Cons.prems(1) by (simp add: less_Suc_eq_le)
  next
    case False
    then show ?thesis using Cons by auto
  qed
qed simp

lemma normStep_changed:
  assumes "normStep m cs = (cs', True)"
  shows "length (above m cs') < length (above m cs)"
proof -
  let ?T = "sum_list (map snd (above m cs))" and ?k = "validatorFrequencyPrecision - sum_list (map snd cs)"
  let ?f = "\<lambda>c. if m < snd c then (fst c, if adjusted m ?k ?T c < m then m else adjusted m ?k ?T c) else c"
  have cs': "cs' = map ?f cs" and ex: "\<exists>c \<in> set cs. m < snd c \<and> adjusted m ?k ?T c < m"
    using assms by (auto simp: normStep_def Let_def split: if_splits)
  show ?thesis
    unfolding cs'
  proof (rule length_filter_map_less)
    show "m < snd c" if "m < snd (?f c)" for c using that by (cases "m < snd c") simp_all
    show "\<exists>c \<in> set cs. m < snd c \<and> \<not> m < snd (?f c)" using ex by force
  qed
qed

lemma normalizeFreq_sum:
  assumes "0 \<le> m" "allMin m cs" "int (length cs) * m \<le> 1000" "length (above m cs) \<le> k"
  shows "sum_list (map snd (normalizeFreq k m cs)) \<le> 1000"
  using assms(2-)
proof (induction k arbitrary: cs)
  case 0
  then show ?case using sum_above_zero [OF assms(1), of cs] by simp
next
  case (Suc k)
  obtain cs' changed where step: "normStep m cs = (cs', changed)" by fastforce
  have cs': "allMin m cs'" "length cs' = length cs"
    using normStep_allMin [OF Suc.prems(1)] arg_cong [OF normStep_fst [of m cs], of length] step by simp_all
  show ?case
  proof (cases changed)
    case True
    then show ?thesis using Suc step cs' normStep_changed [of m cs cs'] by simp
  next
    case False
    then show ?thesis using normStep_sum [OF assms(1) Suc.prems(1)] Suc.prems(2) step by simp
  qed
qed

lemma frequencies_Inr:
  assumes "frequencies cs = Inr fs"
  obtains m where "m = 1000 div (2 * int (length cs))" "cs \<noteq> []" "sum_list (map snd cs) \<noteq> 0"
    "fs = sort_key fst (normalizeFreq 10 m (map (baseFrequency m (sum_list (map snd cs))) cs))"
  using assms
  by (auto simp: frequencies_def Let_def bigDiv_def maxIterations_def validatorFrequencyPrecision_def split: if_splits)

lemma allMin_base: "allMin m (map (baseFrequency m t) cs)"
  by (auto simp: allMin_def baseFrequency_def Let_def)

lemma zdiv_mult_self_le: "0 < b \<Longrightarrow> a div b * b \<le> (a :: int)"
  by (metis div_mult_mod_eq le_add_same_cancel1 pos_mod_sign)

lemma frequencies_bounds:
  assumes "frequencies cs = Inr fs"
  shows "allMin (1000 div (2 * int (length cs))) fs" "length fs = length cs" "set (map fst fs) = set (map fst cs)"
    "length cs \<le> 10 \<Longrightarrow> sum_list (map snd fs) \<le> 1000" "map fst fs = sort (map fst cs)"
proof -
  from assms obtain m where m: "m = 1000 div (2 * int (length cs))" and ne: "cs \<noteq> []"
    and fs: "fs = sort_key fst (normalizeFreq 10 m (map (baseFrequency m (sum_list (map snd cs))) cs))"
    by (rule frequencies_Inr)
  let ?b = "map (baseFrequency m (sum_list (map snd cs))) cs"
  have keys: "map fst (normalizeFreq 10 m ?b) = map fst cs" by (simp add: normalizeFreq_fst baseFrequency_def Let_def o_def)
  show "allMin (1000 div (2 * int (length cs))) fs"
    using normalizeFreq_allMin [OF allMin_base] by (simp add: fs m [symmetric] allMin_def)
  show "map fst fs = sort (map fst cs)"
    using arg_cong [OF keys, of mset] by (intro properties_for_sort [symmetric]) (simp_all add: fs)
  show "length fs = length cs" using arg_cong [OF keys, of length] by (simp add: fs)
  show "set (map fst fs) = set (map fst cs)" using arg_cong [OF keys, of set] by (simp add: fs)
  show "sum_list (map snd fs) \<le> 1000" if "length cs \<le> 10"
  proof -
    have "0 \<le> m" using ne by (simp add: m pos_imp_zdiv_nonneg_iff)
    moreover have "m * (2 * int (length cs)) \<le> 1000" unfolding m by (rule zdiv_mult_self_le) (use ne in simp)
    then have "int (length ?b) * m \<le> 1000" using \<open>0 \<le> m\<close> zero_le_mult_iff [of "int (length cs)" m] by (simp add: mult.commute)
    moreover have "length (above m ?b) \<le> 10" using that length_filter_le [of _ ?b] by (metis le_trans length_map)
    ultimately have "sum_list (map snd (normalizeFreq 10 m ?b)) \<le> 1000" by (intro normalizeFreq_sum allMin_base)
    then show ?thesis by (simp add: fs sum_mset_sum_list [symmetric])
  qed
qed

section \<open>The order of the validator map does not matter\<close>

lemma sum_list_mset: "mset xs = mset ys \<Longrightarrow> sum_list (map f xs) = (sum_list (map f ys) :: int)"
  by (metis mset_map sum_mset_sum_list)

lemma mset_filter_cong: "mset xs = mset ys \<Longrightarrow> mset (filter P xs) = mset (filter P ys)"
  by (metis mset_filter)

lemma normStep_perm:
  assumes "mset cs = mset ds"
  shows "mset (fst (normStep m cs)) = mset (fst (normStep m ds))" "snd (normStep m cs) = snd (normStep m ds)"
proof -
  have sums: "sum_list (map snd cs) = sum_list (map snd ds)" "sum_list (map snd (above m cs)) = sum_list (map snd (above m ds))"
    using assms mset_filter_cong [OF assms] by (auto intro!: sum_list_mset)
  have "set cs = set ds" using assms by (rule mset_eq_setD)
  with sums assms show "mset (fst (normStep m cs)) = mset (fst (normStep m ds))" "snd (normStep m cs) = snd (normStep m ds)"
    by (simp_all add: normStep_def Let_def)
qed

lemma normalizeFreq_perm: "mset cs = mset ds \<Longrightarrow> mset (normalizeFreq k m cs) = mset (normalizeFreq k m ds)"
proof (induction k arbitrary: cs ds)
  case (Suc k)
  obtain cs' b where 1: "normStep m cs = (cs', b)" by fastforce
  obtain ds' b' where 2: "normStep m ds = (ds', b')" by fastforce
  have "mset cs' = mset ds'" "b = b'" using normStep_perm [OF Suc.prems, of m] unfolding 1 2 by simp_all
  with Suc.IH [of cs' ds'] show ?case unfolding normalizeFreq.simps 1 2 by (cases b') simp_all
qed simp

lemma sort_key_fst_perm:
  assumes "mset xs = mset ys" "distinct (map fst ys)"
  shows "sort_key fst xs = sort_key fst ys"
proof (rule properties_for_sort_key)
  have d: "distinct (map fst (sort_key fst ys))" using assms(2) by (metis distinct_map distinct_sort set_sort)
  have d': "distinct (map fst xs)" using assms by (metis mset_eq_imp_distinct_iff mset_map)
  have uniq: "filter (\<lambda>x. fst k = fst x) zs = [k]" if "k \<in> set zs" "distinct (map fst zs)" for k :: "'a \<times> 'b" and zs
    using that
  proof (induction zs)
    case (Cons z zs)
    show ?case
    proof (cases "k = z")
      case False
      with Cons.prems have "k \<in> set zs" by simp
      moreover from this have "fst k \<noteq> fst z" using Cons.prems(2) by (metis distinct.simps(2) image_eqI list.simps(9) set_map)
      ultimately show ?thesis using Cons by simp
    qed (use Cons.prems in \<open>force simp: filter_empty_conv\<close>)
  qed simp
  show "mset (sort_key fst ys) = mset xs" using assms(1) by simp
  show "filter (\<lambda>x. fst k = fst x) (sort_key fst ys) = filter (\<lambda>x. fst k = fst x) xs" if "k \<in> set (sort_key fst ys)" for k
    using that uniq [OF _ d] uniq [OF _ d'] mset_eq_setD [OF assms(1)] by simp
qed simp

lemma frequencies_perm:
  assumes "mset cs = mset ds" "distinct (map fst ds)"
  shows "frequencies cs = frequencies ds"
proof -
  have len: "length cs = length ds" using assms(1) by (rule mset_eq_length)
  have sum: "sum_list (map snd cs) = sum_list (map snd ds)" using assms(1) by (rule sum_list_mset)
  have empty: "cs = [] \<longleftrightarrow> ds = []" using len by (metis length_0_conv)
  have "sort_key fst (normalizeFreq k m (map g cs)) = sort_key fst (normalizeFreq k m (map g ds))"
    if "\<And>c. fst (g c) = fst c" for k m g
  proof (rule sort_key_fst_perm)
    show "mset (normalizeFreq k m (map g cs)) = mset (normalizeFreq k m (map g ds))"
      using assms(1) by (intro normalizeFreq_perm) simp
    show "distinct (map fst (normalizeFreq k m (map g ds)))" using assms(2) that by (simp add: normalizeFreq_fst o_def)
  qed
  then show ?thesis by (simp add: frequencies_def Let_def len sum empty baseFrequency_def)
qed

lemma eligible_eq:
  "eligible s stakes as =
    (if \<exists>a \<in> set as. stakes a = None then Inl Panic
     else Inr (map (\<lambda>a. (a, bigDiv (the (stakes a)) (10 ^ 18))) (filter (\<lambda>a. stakes a \<noteq> Some 0 \<and> \<not> SignRecently s a) as)))"
  by (induction as) (auto split: option.splits)

section \<open>Through the extra data\<close>

definition smallCandidates :: "candidate list \<Rightarrow> bool" where
  "smallCandidates cs \<longleftrightarrow> length cs < 2 ^ 32 \<and> (\<forall>c \<in> set cs. 0 \<le> snd c \<and> snd c < 2 ^ 64)"

lemma candidate_facts:
  assumes "0 \<le> snd c" "snd c < 2 ^ 64"
  defines "t \<equiv> TStruct [TArray 20, TBigInt] 2"
  shows "hasType t (candidateVal c)" "decodable t (candidateVal c)" "length (enc t (candidateVal c)) \<le> 2 ^ 20"
proof -
  show "hasType t (candidateVal c)" "decodable t (candidateVal c)"
    using assms(1) by (simp_all add: t_def candidateVal_def struct_required(2) del: decodable.simps(5))
  have "nat (snd c) < 256 ^ 32" using assms(2) by (simp add: nat_less_iff)
  then have "list_all2 (\<lambda>f v. length (f v) \<le> maxFieldSize) (map enc [TArray 20, TBigInt])
      [VArray (addrBytes (fst c)), VBigInt (Some (snd c))]"
    by (simp add: field_size(1,2))
  from length_encFields_le [OF this]
  have "length (encFields (map enc [TArray 20, TBigInt]) [VArray (addrBytes (fst c)), VBigInt (Some (snd c))]) \<le> 2 * maxFieldSize"
    by simp
  then have "length (encList (encFields (map enc [TArray 20, TBigInt]) [VArray (addrBytes (fst c)), VBigInt (Some (snd c))])) \<le> 2 ^ 20"
    using length_encList_le [of "encFields (map enc [TArray 20, TBigInt]) [VArray (addrBytes (fst c)), VBigInt (Some (snd c))]"]
    by (simp del: encFields.simps)
  then show "length (enc t (candidateVal c)) \<le> 2 ^ 20"
    by (simp add: t_def candidateVal_def struct_required(1) del: enc.simps)
qed

lemma length_concat_le: "(\<And>x. x \<in> set xs \<Longrightarrow> length (f x) \<le> k) \<Longrightarrow> length (concat (map f xs)) \<le> length xs * k"
  by (induction xs) (auto simp: add_le_mono)

lemma valCandidate_inverse: "valCandidate (candidateVal c) = c"
  by (simp add: valCandidate_def candidateVal_def)

lemma candidates_roundtrip:
  assumes "smallCandidates cs"
  shows "\<exists>b. EncodeToBytes candidatesType (VSlice (map candidateVal cs)) = Inr b \<and> decodeCandidates b = Inr cs"
proof -
  let ?t = "TStruct [TArray 20, TBigInt] 2" and ?v = "VSlice (map candidateVal cs)"
  have has: "hasType candidatesType ?v" "decodable candidatesType ?v" "wfType candidatesType"
    using assms candidate_facts(1,2)
    by (auto simp: candidatesType_def smallCandidates_def list_all_iff simp del: hasType.simps(9) decodable.simps(5))
  have "length (enc ?t x) \<le> 2 ^ 20" if "x \<in> set (map candidateVal cs)" for x
    using that candidate_facts(3) assms unfolding smallCandidates_def set_map by blast
  then have "length (concat (map (enc ?t) (map candidateVal cs))) \<le> length (map candidateVal cs) * 2 ^ 20"
    by (rule length_concat_le)
  also have "\<dots> \<le> 2 ^ 52" using assms by (simp add: smallCandidates_def less_imp_le)
  finally have "length (encList (concat (map (enc ?t) (map candidateVal cs)))) < 2 ^ 64" by (rule length_encList_small) simp
  then have len: "length (enc candidatesType ?v) < 2 ^ 64" by (simp add: candidatesType_def del: enc.simps(9))
  have "EncodeToBytes candidatesType ?v = Inr (enc candidatesType ?v)" by (rule EncodeToBytes_enc [OF has(1) len])
  moreover have "decodeCandidates (enc candidatesType ?v) = Inr cs"
    by (simp add: decodeCandidates_def DecodeBytes_enc [OF has(3,1,2) len] o_def valCandidate_inverse)
  ultimately show ?thesis by blast
qed

section \<open>The choice is proportional\<close>

lemma pick_interval:
  assumes "distinct (map fst (xs @ (a, f) # ys))" "\<forall>c \<in> set xs. 0 \<le> snd c" "cum \<le> t"
  shows "pickCandidate (xs @ (a, f) # ys) cum t = a \<longleftrightarrow>
    cum + sum_list (map snd xs) \<le> t \<and> (ys = [] \<or> t < cum + sum_list (map snd xs) + f)"
  using assms
proof (induction xs arbitrary: cum)
  case Nil
  show ?case
  proof (cases ys)
    case (Cons y ys')
    have "pickCandidate ys c t \<in> fst ` set ys" if "ys \<noteq> []" for ys :: "candidate list" and c t
      using that by (induction ys c t rule: pickCandidate.induct) auto
    then have "pickCandidate (y # ys') (cum + f) t \<in> fst ` set (y # ys')" by blast
    then have "pickCandidate (y # ys') (cum + f) t \<noteq> a" using Nil.prems(1) Cons by auto
    with Cons Nil.prems(3) show ?thesis by simp
  qed (use Nil in simp)
next
  case (Cons x xs)
  obtain z zs where zs: "xs @ (a, f) # ys = z # zs" by (cases "xs @ (a, f) # ys") auto
  have x: "fst x \<noteq> a" "0 \<le> snd x" using Cons.prems(1,2) by auto
  have nonneg: "0 \<le> sum_list (map snd xs)" using Cons.prems(2) by (intro sum_list_nonneg) auto
  show ?case
  proof (cases "t < cum + snd x")
    case True
    then show ?thesis using x nonneg by (simp add: zs)
  next
    case False
    then have "pickCandidate (x # xs @ (a, f) # ys) cum t = pickCandidate (xs @ (a, f) # ys) (cum + snd x) t"
      by (simp add: zs)
    then show ?thesis using Cons.IH [of "cum + snd x"] Cons.prems False by (simp add: algebra_simps)
  qed
qed

lemma card_int_interval: "card {t :: int. 0 \<le> t \<and> t < 1000 \<and> l \<le> t \<and> t < u} = nat (u - l)" if "0 \<le> l" "u \<le> 1000"
proof -
  have "{t :: int. 0 \<le> t \<and> t < 1000 \<and> l \<le> t \<and> t < u} = {l..<u}" using that by auto
  then show ?thesis by simp
qed

text \<open>The number of targets out of 1000 for which a candidate is picked: its frequency, and for the last one
  what the others leave.\<close>

lemma pick_count:
  assumes "distinct (map fst (xs @ (a, f) # ys))" "\<forall>c \<in> set (xs @ (a, f) # ys). 0 \<le> snd c"
    and "sum_list (map snd (xs @ (a, f) # ys)) \<le> 1000"
  shows "int (card {t. 0 \<le> t \<and> t < 1000 \<and> pickCandidate (xs @ (a, f) # ys) 0 t = a}) =
    (if ys = [] then 1000 - sum_list (map snd xs) else f)"
proof -
  let ?S = "sum_list (map snd xs)"
  have S: "0 \<le> ?S" "0 \<le> f" "0 \<le> sum_list (map snd ys)" using assms(2) by (auto intro!: sum_list_nonneg)
  have "{t. 0 \<le> t \<and> t < 1000 \<and> pickCandidate (xs @ (a, f) # ys) 0 t = a} =
      {t. 0 \<le> t \<and> t < 1000 \<and> ?S \<le> t \<and> t < (if ys = [] then 1000 else ?S + f)}"
    using pick_interval [OF assms(1), of 0] assms(2) by auto
  then show ?thesis
    using card_int_interval [of ?S "if ys = [] then 1000 else ?S + f"] S assms(3) by simp
qed

section \<open>Properties\<close>

text \<open>C24. The frequency data does not depend on the iteration order of the validator map, so all producers
  that agree on the stakes write the same bytes.\<close>

theorem frequency_order_independent:
  assumes "mset vs = mset (Validators s)" "distinct (map fst (Validators s))"
  shows "calcFrequencyRLP (s\<lparr> Validators := vs \<rparr>) stakes = calcFrequencyRLP s stakes"
proof -
  let ?s = "s\<lparr> Validators := vs \<rparr>" and ?k = "map fst (Validators s)"
  have keys: "mset (map fst vs) = mset ?k" "set (map fst vs) = set ?k"
    using assms(1) by (simp, metis list.set_map mset_eq_setD)
  have "length vs = length (Validators s)" using assms(1) by (rule mset_eq_length)
  then have "minerHistoryCheckLen ?s = minerHistoryCheckLen s" by (simp add: minerHistoryCheckLen_def)
  then have "countRecents ?s = countRecents s" by (simp add: countRecents_def cong: if_cong)
  then have sign: "SignRecently ?s a = SignRecently s a" for a
    by (simp add: SignRecently_def signRecentlyByCounts_def split: option.split)
  have freq: "frequencies (map (\<lambda>a. (a, bigDiv (the (stakes a)) (10 ^ 18))) (filter P (map fst vs))) =
      frequencies (map (\<lambda>a. (a, bigDiv (the (stakes a)) (10 ^ 18))) (filter P ?k))" for P
    using mset_filter_cong [OF keys(1), of P] assms(2)
    by (intro frequencies_perm) (simp_all add: o_def distinct_map_filter [of id, simplified])
  have "Validators ?s = vs" by simp
  then show ?thesis
    by (simp only: calcFrequencyRLP_def eligible_eq sign keys(2) freq bindE_simps split: if_split) blast
qed

lemma member_le_sum_list_int: "x \<in> set xs \<Longrightarrow> (\<And>y. y \<in> set xs \<Longrightarrow> 0 \<le> y) \<Longrightarrow> x \<le> sum_list (xs :: int list)"
  by (induction xs) (auto simp: sum_list_nonneg add_increasing add_increasing2)

lemma calcFrequency_decodes:
  assumes "calcFrequencyRLP s stakes = Inr b" "eligible s stakes (map fst (Validators s)) = Inr el"
    and "length el \<le> maxIterations"
  obtains cs where "frequencies el = Inr cs" "decodeCandidates b = Inr cs" "\<forall>c \<in> set cs. 0 \<le> snd c"
    "sum_list (map snd cs) \<le> 1000"
proof -
  from assms(1,2) obtain cs where cs: "frequencies el = Inr cs"
    and "(case EncodeToBytes candidatesType (VSlice (map candidateVal cs)) of Inl e \<Rightarrow> Inl (RlpError e) | Inr b \<Rightarrow> Inr b) = Inr b"
    unfolding calcFrequencyRLP_def by (auto simp: bindE_eq_Inr)
  then have b: "EncodeToBytes candidatesType (VSlice (map candidateVal cs)) = Inr b" by (auto split: sum.splits)
  note bounds = frequencies_bounds [OF cs]
  have ten: "length el \<le> 10" using assms(3) by (simp add: maxIterations_def)
  have min: "0 \<le> 1000 div (2 * int (length el))" by (cases "el = []") (simp_all add: pos_imp_zdiv_nonneg_iff)
  have nonneg: "\<forall>c \<in> set cs. 0 \<le> snd c" using bounds(1) min by (force simp: allMin_def)
  have sum: "sum_list (map snd cs) \<le> 1000" by (rule bounds(4) [OF ten])
  have "snd c \<le> sum_list (map snd cs)" if "c \<in> set cs" for c
    using that nonneg by (intro member_le_sum_list_int) auto
  then have "smallCandidates cs" using nonneg sum bounds(2) ten by (fastforce simp: smallCandidates_def)
  then show ?thesis using candidates_roundtrip [of cs] b cs nonneg sum that by auto
qed

section \<open>More stake, not less\<close>

text \<open>A round is the same non-decreasing function of the frequency for every candidate.\<close>

lemma below_min_sum:
  assumes "allMin m cs" "int (length cs) * m \<le> 1000" "0 \<le> m"
  shows "sum_list (map snd cs) - sum_list (map snd (above m cs)) \<le> 1000"
proof -
  have "sum_list (map snd cs) - sum_list (map snd (above m cs)) \<le> int (length cs) * m"
    using assms(1)
  proof (induction cs)
    case (Cons c cs)
    have "int (length (c # cs)) * m = m + int (length cs) * m" by (simp add: distrib_right)
    then show ?case using Cons assms(3) by (auto simp: allMin_def)
  qed simp
  with assms(2) show ?thesis by linarith
qed

lemma clamp_mono: "a \<le> b \<Longrightarrow> u \<le> v \<Longrightarrow> (if m < u then max m a else u) \<le> (if m < v then max m b else (v :: int))"
  by auto

lemma normStep_mono:
  assumes "allMin m cs" "int (length cs) * m \<le> 1000" "0 \<le> m"
  obtains f where "mono f" "fst (normStep m cs) = map (\<lambda>c. (fst c, f (snd c))) cs"
proof -
  let ?T = "sum_list (map snd (above m cs))" and ?k = "1000 - sum_list (map snd cs)"
  show thesis
  proof (cases "?k = 0 \<or> ?T = 0")
    case True
    then show ?thesis by (intro that [of id]) (auto simp: mono_def normStep_def Let_def validatorFrequencyPrecision_def)
  next
    case False
    have T: "0 < ?T" using sum_above_pos [OF assms(3), of cs] False by linarith
    define f where "f x = (if m < x then max m (x + ?k * x div ?T) else x)" for x
    have x: "x + ?k * x div ?T = (?T + ?k) * x div ?T" for x
      using T div_mult_self1 [of ?T "?k * x" x] by (simp add: algebra_simps)
    have pos: "0 \<le> ?T + ?k" using below_min_sum [OF assms] by linarith
    have "mono f"
    proof (rule monoI)
      fix u v :: int assume "u \<le> v"
      then have "(?T + ?k) * u div ?T \<le> (?T + ?k) * v div ?T" using pos T by (intro zdiv_mono1 mult_left_mono)
      then show "f u \<le> f v" using \<open>u \<le> v\<close> unfolding f_def x by (rule clamp_mono)
    qed
    moreover have "fst (normStep m cs) = map (\<lambda>c. (fst c, f (snd c))) cs"
      using False T by (auto simp: normStep_def Let_def f_def adjusted_def bigDiv_def validatorFrequencyPrecision_def)
    ultimately show ?thesis by (rule that)
  qed
qed

lemma normalizeFreq_mono:
  assumes "allMin m cs" "int (length cs) * m \<le> 1000" "0 \<le> m"
  obtains f where "mono f" "normalizeFreq k m cs = map (\<lambda>c. (fst c, f (snd c))) cs"
  using assms(1,2)
proof (induction k arbitrary: cs thesis)
  case 0
  show ?case by (rule "0.prems"(1) [of id]) (simp_all add: mono_def)
next
  case (Suc k)
  obtain f where f: "mono f" "fst (normStep m cs) = map (\<lambda>c. (fst c, f (snd c))) cs" using normStep_mono [OF Suc.prems(2,3) assms(3)] by blast
  have len: "length (fst (normStep m cs)) = length cs" by (simp add: f(2))
  obtain g where g: "mono g" "normalizeFreq k m (fst (normStep m cs)) = map (\<lambda>c. (fst c, g (snd c))) (fst (normStep m cs))"
    using Suc.IH [of "fst (normStep m cs)"] normStep_allMin [OF Suc.prems(2)] Suc.prems(3) len by auto
  show ?case
  proof (cases "snd (normStep m cs)")
    case True
    with g f show ?thesis by (intro Suc.prems(1) [of "g \<circ> f"]) (auto simp: mono_def case_prod_unfold Let_def)
  next
    case False
    with f show ?thesis by (intro Suc.prems(1) [of f]) (auto simp: case_prod_unfold Let_def)
  qed
qed

lemma frequencies_mono:
  assumes "frequencies el = Inr cs" "\<forall>c \<in> set el. 0 \<le> snd c"
  obtains share where "mono share" "cs = sort_key fst (map (\<lambda>c. (fst c, share (snd c))) el)"
proof -
  obtain m where m: "m = 1000 div (2 * int (length el))" "el \<noteq> []" "sum_list (map snd el) \<noteq> 0"
    "cs = sort_key fst (normalizeFreq 10 m (map (baseFrequency m (sum_list (map snd el))) el))" by (rule frequencies_Inr [OF assms(1)])
  let ?t = "sum_list (map snd el)"
  have t: "0 < ?t" using m(3) sum_list_nonneg [of "map snd el"] assms(2) by fastforce
  have "m * (2 * int (length el)) \<le> 1000" using m(1,2) zdiv_mult_self_le [of "2 * int (length el)" 1000] by simp
  moreover have "0 < int (length el)" using m(2) by simp
  then have m0: "0 \<le> m" using m(1) by (simp add: pos_imp_zdiv_nonneg_iff)
  ultimately have "int (length el) * m \<le> 1000" by (simp add: algebra_simps)
  then have "int (length (map (baseFrequency m ?t) el)) * m \<le> 1000" by simp
  then obtain f where f: "mono f" "normalizeFreq 10 m (map (baseFrequency m ?t) el) = map (\<lambda>c. (fst c, f (snd c))) (map (baseFrequency m ?t) el)"
    using normalizeFreq_mono [OF allMin_base _ m0] by blast
  define share where "share x = f (max m (x * 1000 div ?t))" for x
  have if_swap: "(if \<not> P then u else v) = (if P then v else u)" for P and u v :: int by simp
  have "mono share" unfolding share_def by (intro monoI monoD [OF f(1)] max.mono zdiv_mono1 t) simp_all
  moreover have "cs = sort_key fst (map (\<lambda>c. (fst c, share (snd c))) el)"
    unfolding m(4) f(2) using t by (simp add: comp_def baseFrequency_def Let_def bigDiv_def validatorFrequencyPrecision_def share_def max_def linorder_not_less [symmetric] if_swap)
  ultimately show thesis by (rule that)
qed

text \<open>C23. The choice of the validator in turn follows the stake. For at most ten eligible validators, as many as there are rounds of
  normalisation, whose stakes are not negative, the data written by \<open>calcFrequencyRLP\<close> decodes to the eligible validators in ascending
  order. Their frequencies are a non-decreasing function of the stake and at least the minimal frequency. Of the 1000 possible targets
  exactly as many as its frequency select each candidate but the last; the last one gets all the targets that the others leave, which
  are at least as many as its frequency.\<close>

theorem stake_selection:
  assumes "calcFrequencyRLP s stakes = Inr b" "eligible s stakes (map fst (Validators s)) = Inr el"
    and "length el \<le> maxIterations" "snapWF s" "\<forall>c \<in> set el. 0 \<le> snd c"
  shows "\<exists>cs share. decodeCandidates b = Inr cs \<and> cs \<noteq> [] \<and> mono share \<and>
    cs = sort_key fst (map (\<lambda>c. (fst c, share (snd c))) el) \<and>
    (\<forall>c \<in> set cs. 1000 div (2 * int (length el)) \<le> snd c) \<and>
    (\<forall>c \<in> set (butlast cs). int (card {t. 0 \<le> t \<and> t < 1000 \<and> pickCandidate cs 0 t = fst c}) = snd c) \<and>
    int (card {t. 0 \<le> t \<and> t < 1000 \<and> pickCandidate cs 0 t = fst (last cs)}) = 1000 - sum_list (map snd (butlast cs)) \<and>
    snd (last cs) \<le> 1000 - sum_list (map snd (butlast cs))"
proof -
  obtain cs where cs: "frequencies el = Inr cs" "decodeCandidates b = Inr cs" "\<forall>c \<in> set cs. 0 \<le> snd c"
    "sum_list (map snd cs) \<le> 1000"
    by (rule calcFrequency_decodes [OF assms(1-3)])
  note bounds = frequencies_bounds [OF cs(1)]
  have "distinct (map fst el)"
    using assms(2,4) by (auto simp: eligible_eq snapWF_def gm_wf_def o_def distinct_map_filter [of id, simplified] split: if_splits)
  then have d: "distinct (map fst cs)" by (simp add: bounds(5))
  let ?n = "\<lambda>c. int (card {t. 0 \<le> t \<and> t < 1000 \<and> pickCandidate cs 0 t = fst c})"
  have count: "?n c = (if ys = [] then 1000 - sum_list (map snd xs) else snd c)" if "cs = xs @ c # ys" for xs c ys
    using pick_count [of xs "fst c" "snd c" ys] d cs(3,4) that by simp
  have "el \<noteq> []" using cs(1) by (rule frequencies_Inr)
  then have ne: "cs \<noteq> []" using bounds(2) by auto
  then have split: "cs = butlast cs @ last cs # []" by simp
  have "?n (last cs) = 1000 - sum_list (map snd (butlast cs))" using count [OF split] by simp
  moreover have "sum_list (map snd cs) = sum_list (map snd (butlast cs)) + snd (last cs)" by (subst split) simp
  then have "snd (last cs) \<le> 1000 - sum_list (map snd (butlast cs))" using cs(4) by linarith
  moreover have "?n c = snd c" if c: "c \<in> set (butlast cs)" for c
  proof -
    from split_list [OF c] obtain xs ys where "butlast cs = xs @ c # ys" by blast
    then have "cs = xs @ c # (ys @ [last cs])" using c by (metis append_Cons append_assoc append_butlast_last_id butlast.simps(1) list.distinct(1) list.set_cases)
    from count [OF this] show ?thesis by simp
  qed
  moreover obtain share where "mono share" "cs = sort_key fst (map (\<lambda>c. (fst c, share (snd c))) el)"
    using frequencies_mono [OF cs(1) assms(5)] by blast
  ultimately show ?thesis using cs(2) bounds(1) ne by (intro exI [of _ cs] exI [of _ share]) (simp add: allMin_def)
qed

text \<open>Two validators with stakes 3 and 1.\<close>

definition freqSnap :: Snapshot where
  "freqSnap = toySnap\<lparr> Validators := [(7, \<lparr> Index = 2, InfoVoteAddress = 9 \<rparr>), (5, \<lparr> Index = 1, InfoVoteAddress = 8 \<rparr>)] \<rparr>"

definition freqStakes :: "address \<Rightarrow> int option" where
  "freqStakes a = Some (if a = 5 then 3 * 10 ^ 18 else 10 ^ 18)"

lemma freqSnap_eligible: "eligible freqSnap freqStakes (map fst (Validators freqSnap)) = Inr [(7, 1), (5, 3)]"
  by (simp add: eligible_eq freqSnap_def freqStakes_def toySnap_def bigDiv_def SignRecently_def signRecentlyByCounts_def countRecents_def)

lemma freqSnap_frequencies: "frequencies [(7, 1), (5, 3)] = Inr [(5, 750), (7, 250)]"
proof -
  have "normStep 250 [(7, 250), (5, 750)] = ([(7, 250), (5, 750)], False)"
    by (simp add: normStep_def validatorFrequencyPrecision_def)
  then have "normalizeFreq (Suc 9) 250 [(7, 250), (5, 750)] = [(7, 250), (5, 750)]" by (simp only: normalizeFreq.simps Let_def) simp
  then have "normalizeFreq maxIterations 250 [(7, 250), (5, 750)] = [(7, 250), (5, 750)]" by (simp add: maxIterations_def)
  then show ?thesis
    by (simp add: frequencies_def Let_def bigDiv_def validatorFrequencyPrecision_def baseFrequency_def)
qed

theorem frequency_order_independent_witness:
  "calcFrequencyRLP (freqSnap\<lparr> Validators := rev (Validators freqSnap) \<rparr>) freqStakes = calcFrequencyRLP freqSnap freqStakes"
  by (rule frequency_order_independent) (simp_all add: freqSnap_def)

theorem stake_selection_witness:
  "\<exists>b cs share. calcFrequencyRLP freqSnap freqStakes = Inr b \<and> decodeCandidates b = Inr cs \<and> mono share \<and>
    cs = sort_key fst (map (\<lambda>c. (fst c, share (snd c))) [(7, 1 :: int), (5, 3)]) \<and>
    int (card {t. 0 \<le> t \<and> t < 1000 \<and> pickCandidate cs 0 t = fst (last cs)}) = 1000 - sum_list (map snd (butlast cs))"
proof -
  have "smallCandidates [(5, 750), (7, 250)]" by (simp add: smallCandidates_def)
  from candidates_roundtrip [OF this] obtain b where "calcFrequencyRLP freqSnap freqStakes = Inr b"
    using freqSnap_eligible freqSnap_frequencies by (auto simp: calcFrequencyRLP_def)
  moreover have "snapWF freqSnap" by (simp add: snapWF_def gm_wf_def freqSnap_def toySnap_def)
  ultimately show ?thesis using stake_selection [OF _ freqSnap_eligible] by (simp add: maxIterations_def) blast
qed

end
