(* ===== verification/Fork_Id.thy ===== *)
theory Fork_Id
  imports Chain_Types Networks
begin

text \<open>
  Fork identifiers (\<open>core/forkid/forkid.go\<close>): the checksum of the genesis hash and of the forks that a node has passed, the
  identifier that a node announces, and the filter that decides whether a remote identifier is compatible. The CRC32
  of Go's standard library is written out bit by bit (reflected IEEE polynomial).

  The filter is shown to implement the four rules that its comments state, over the number of forks that a head has passed
  (\<open>progress\<close>).
\<close>

unbundle bit_operations_syntax

section \<open>Checksums\<close>

definition crcBit :: "32 word \<Rightarrow> 32 word" where
  "crcBit c = (if bit c 0 then drop_bit 1 c XOR 0xEDB88320 else drop_bit 1 c)"

definition crcByte :: "32 word \<Rightarrow> byte \<Rightarrow> 32 word" where
  "crcByte c b = (crcBit ^^ 8) (c XOR ucast b)"

definition crcUpdate :: "32 word \<Rightarrow> bytes \<Rightarrow> 32 word" where
  "crcUpdate c bs = NOT (foldl crcByte (NOT c) bs)"

definition ChecksumIEEE :: "bytes \<Rightarrow> 32 word" where
  "ChecksumIEEE bs = crcUpdate 0 bs"

definition checksumUpdate :: "32 word \<Rightarrow> u64 \<Rightarrow> 32 word" where
  "checksumUpdate h f = crcUpdate h (be_bytes 8 (unat f))"

definition checksumToBytes :: "32 word \<Rightarrow> bytes" where
  "checksumToBytes h = be_bytes 4 (unat h)"

section \<open>Forks of a configuration\<close>

text \<open>The fields of \<open>ChainConfig\<close> whose name ends in \<open>Block\<close> and in \<open>Time\<close>, in the order of the declaration.\<close>

definition blockFields :: "ChainConfig \<Rightarrow> int option list" where
  "blockFields c = [HomesteadBlock c, DAOForkBlock c, EIP150Block c, EIP155Block c, EIP158Block c, ByzantiumBlock c,
     ConstantinopleBlock c, PetersburgBlock c, IstanbulBlock c, MuirGlacierBlock c, BerlinBlock c, YoloV3Block c, CatalystBlock c,
     LondonBlock c, ArrowGlacierBlock c, GrayGlacierBlock c, MergeNetsplitBlock c, RuntimeUpgradeBlock c, DeployOriginBlock c,
     DeploymentHookFixBlock c, DeployerFactoryBlock c, RamanujanBlock c, NielsBlock c, MirrorSyncBlock c, BrunoBlock c, EulerBlock c,
     GibbsBlock c, NanoBlock c, MoranBlock c, PlanckBlock c, LubanBlock c, PlatoBlock c, HertzBlock c, HertzfixBlock c]"

definition timeFields :: "ChainConfig \<Rightarrow> u64 option list" where
  "timeFields c = [Dragon8Time c, Dragon8FixTime c, Snake8Time c, Pepper8Time c, Pipe8Time c, DeployerProxySunsetTime c, ShanghaiTime c,
     KeplerTime c, FeynmanTime c, FeynmanFixTime c, CancunTime c, HaberTime c, HaberFixTime c, BohrTime c, PascalTime c, PragueTime c,
     LorentzTime c, MaxwellTime c, FermiTime c, OsakaTime c, MendelTime c, BPO1Time c, BPO2Time c, BPO3Time c, BPO4Time c, BPO5Time c,
     AmsterdamTime c, PasteurTime c, VerkleTime c]"

text \<open>The loop that removes an element equal to its predecessor and looks at the same index again.\<close>

fun dedup :: "u64 list \<Rightarrow> u64 list" where
  "dedup (x # y # ys) = (if y = x then dedup (x # ys) else x # dedup (y # ys))"
| "dedup xs = xs"

definition gatherForks :: "ChainConfig \<Rightarrow> u64 \<Rightarrow> u64 list \<times> u64 list" where
  "gatherForks config genesis =
     (let forksByBlock = dedup (sort (map (\<lambda>r. bigUint64 (Some r)) (List.map_filter id (blockFields config))));
          forksByTime = dedup (sort (List.map_filter id (timeFields config)));
          forksByBlock = (if forksByBlock \<noteq> [] \<and> hd forksByBlock = 0 then tl forksByBlock else forksByBlock);
          forksByTime = dropWhile (\<lambda>f. f \<le> genesis) forksByTime
      in (forksByBlock, forksByTime))"

section \<open>Identifiers\<close>

definition timestampThreshold :: u64 where "timestampThreshold = 1438269973"

record ID =
  idHash :: bytes
  idNext :: u64

text \<open>One of the two loops of \<open>NewID\<close> and \<open>NextForkHash\<close>: the checksum after the passed forks and the first fork not passed.\<close>

fun passForks :: "u64 \<Rightarrow> 32 word \<Rightarrow> u64 list \<Rightarrow> 32 word \<times> u64 option" where
  "passForks head h [] = (h, None)"
| "passForks head h (f # fs) = (if f \<le> head then passForks head (checksumUpdate h f) fs else (h, Some f))"

definition NewID :: "ChainConfig \<Rightarrow> hash \<Rightarrow> u64 \<Rightarrow> u64 \<Rightarrow> u64 \<Rightarrow> ID" where
  "NewID config genesisHash genesisTime head time =
     (let h = ChecksumIEEE (hashBytes genesisHash); (forksByBlock, forksByTime) = gatherForks config genesisTime in
      case passForks head h forksByBlock of
        (h, Some f) \<Rightarrow> \<lparr> idHash = checksumToBytes h, idNext = f \<rparr>
      | (h, None) \<Rightarrow>
          (case passForks time h forksByTime of
             (h, Some f) \<Rightarrow> \<lparr> idHash = checksumToBytes h, idNext = f \<rparr>
           | (h, None) \<Rightarrow> \<lparr> idHash = checksumToBytes h, idNext = 0 \<rparr>))"

definition NextForkHash :: "ChainConfig \<Rightarrow> hash \<Rightarrow> u64 \<Rightarrow> u64 \<Rightarrow> u64 \<Rightarrow> bytes" where
  "NextForkHash config genesisHash genesisTime head time =
     (let h = ChecksumIEEE (hashBytes genesisHash); (forksByBlock, forksByTime) = gatherForks config genesisTime in
      case passForks head h forksByBlock of
        (h, Some f) \<Rightarrow> checksumToBytes (checksumUpdate h f)
      | (h, None) \<Rightarrow>
          (case passForks time h forksByTime of
             (h, Some f) \<Rightarrow> checksumToBytes (checksumUpdate h f)
           | (h, None) \<Rightarrow> checksumToBytes h))"

definition NewIDWithChain :: "ChainConfig \<Rightarrow> hash \<Rightarrow> u64 \<Rightarrow> Header \<Rightarrow> ID" where
  "NewIDWithChain config genesisHash genesisTime head = NewID config genesisHash genesisTime (numOf head) (Time head)"

section \<open>The filter\<close>

datatype forkid_error = ErrRemoteStale | ErrLocalIncompatibleOrStale

fun forkSums :: "32 word \<Rightarrow> u64 list \<Rightarrow> bytes list" where
  "forkSums h [] = [checksumToBytes h]"
| "forkSums h (f # fs) = checksumToBytes h # forkSums (checksumUpdate h f) fs"

text \<open>The checks at the first fork \<open>i\<close> that the local head has not passed.\<close>

definition checkAt :: "bytes list \<Rightarrow> u64 list \<Rightarrow> u64 \<Rightarrow> u64 \<Rightarrow> ID \<Rightarrow> nat \<Rightarrow> forkid_error + unit" where
  "checkAt sums forks head time rid i =
     (if sums ! i = idHash rid
      then (if idNext rid > 0 \<and> (head \<ge> idNext rid \<or> idNext rid > timestampThreshold \<and> time \<ge> idNext rid)
            then Inl ErrLocalIncompatibleOrStale else Inr ())
      else (case List.find (\<lambda>j. sums ! j = idHash rid) [0..<i] of
          Some j \<Rightarrow> if forks ! j \<noteq> idNext rid then Inl ErrRemoteStale else Inr ()
        | None \<Rightarrow>
            if list_ex (\<lambda>j. sums ! j = idHash rid) [i + 1..<length sums] then Inr ()
            else Inl ErrLocalIncompatibleOrStale))"

text \<open>The loop over the forks; when it runs off the end, the identifier is accepted.\<close>

fun scanForks :: "nat \<Rightarrow> bytes list \<Rightarrow> u64 list \<Rightarrow> u64 \<Rightarrow> u64 \<Rightarrow> ID \<Rightarrow> nat \<Rightarrow> u64 list \<Rightarrow> forkid_error + unit" where
  "scanForks nb sums forks block time rid i [] = Inr ()"
| "scanForks nb sums forks block time rid i (f # fs) =
     (let head = (if i \<ge> nb then time else block) in
      if head \<ge> f then scanForks nb sums forks block time rid (i + 1) fs
      else checkAt sums forks head time rid i)"

definition newFilter :: "ChainConfig \<Rightarrow> hash \<Rightarrow> u64 \<Rightarrow> u64 \<times> u64 \<Rightarrow> ID \<Rightarrow> forkid_error + unit" where
  "newFilter config genesisHash genesisTime = (\<lambda>(block, time) rid.
     let (forksByBlock, forksByTime) = gatherForks config genesisTime;
         forks = forksByBlock @ forksByTime;
         sums = forkSums (ChecksumIEEE (hashBytes genesisHash)) forks;
         forks = forks @ [- 1];
         forksByBlock = (if forksByTime = [] then forksByBlock @ [- 1] else forksByBlock)
     in scanForks (length forksByBlock) sums forks block time rid 0 forks)"

definition NewFilter :: "ChainConfig \<Rightarrow> hash \<Rightarrow> u64 \<Rightarrow> Header \<Rightarrow> ID \<Rightarrow> forkid_error + unit" where
  "NewFilter config genesisHash genesisTime head = newFilter config genesisHash genesisTime (numOf head, Time head)"

definition NewStaticFilter :: "ChainConfig \<Rightarrow> hash \<Rightarrow> u64 \<Rightarrow> ID \<Rightarrow> forkid_error + unit" where
  "NewStaticFilter config genesisHash genesisTime = newFilter config genesisHash genesisTime (0, 0)"

section \<open>Progress along the forks\<close>

text \<open>How many forks of a configuration a head has passed: the forks by time count only when all forks by block are passed.\<close>

definition progress :: "u64 \<Rightarrow> u64 \<Rightarrow> u64 list \<Rightarrow> u64 list \<Rightarrow> nat" where
  "progress block time bs ts =
     (let k = length (takeWhile (\<lambda>f. f \<le> block) bs) in
      if k < length bs then k else k + length (takeWhile (\<lambda>f. f \<le> time) ts))"

lemma length_forkSums [simp]: "length (forkSums h fs) = length fs + 1"
  by (induction fs arbitrary: h) auto

lemma forkSums_0 [simp]: "forkSums h fs ! 0 = checksumToBytes h"
  by (cases fs) auto

lemma passForks_eq:
  assumes "passForks head h fs = (h', r)"
  shows "r = (if length (takeWhile (\<lambda>f. f \<le> head) fs) < length fs then Some (fs ! length (takeWhile (\<lambda>f. f \<le> head) fs)) else None)"
    and "i \<le> length gs \<Longrightarrow> (r \<noteq> None \<longrightarrow> i = 0) \<Longrightarrow>
      forkSums h (fs @ gs) ! (length (takeWhile (\<lambda>f. f \<le> head) fs) + i) = forkSums h' (drop (length (takeWhile (\<lambda>f. f \<le> head) fs)) fs @ gs) ! i"
  using assms by (induction fs arbitrary: h) (auto split: if_splits)

lemma progress_le: "progress block time bs ts \<le> length (bs @ ts)"
  using length_takeWhile_le [of _ bs] length_takeWhile_le [of _ ts] by (auto simp: progress_def Let_def intro: add_mono)

lemma takeWhile_all: "\<not> length (takeWhile P xs) < length xs \<Longrightarrow> length (takeWhile P xs) = length xs"
  using length_takeWhile_le [of P xs] by linarith

lemma NewID_progress:
  assumes "gatherForks config genesisTime = (bs, ts)"
  shows "NewID config genesisHash genesisTime block time =
    \<lparr> idHash = forkSums (ChecksumIEEE (hashBytes genesisHash)) (bs @ ts) ! progress block time bs ts,
      idNext = (bs @ ts @ [0]) ! progress block time bs ts \<rparr>"
proof -
  let ?h = "ChecksumIEEE (hashBytes genesisHash)" and ?kb = "length (takeWhile (\<lambda>f. f \<le> block) bs)"
    and ?kt = "length (takeWhile (\<lambda>f. f \<le> time) ts)"
  obtain h1 r1 where b: "passForks block ?h bs = (h1, r1)" by fastforce
  note b' = passForks_eq [OF b]
  show ?thesis
  proof (cases "?kb < length bs")
    case True
    with b' (1) b'(2) [of 0 ts] b assms show ?thesis by (simp add: NewID_def progress_def nth_append)
  next
    case False
    note kb = takeWhile_all [OF False]
    obtain h2 r2 where t: "passForks time h1 ts = (h2, r2)" by fastforce
    note t' = passForks_eq [OF t]
    have "forkSums ?h (bs @ ts) ! (length bs + ?kt) = forkSums h1 ts ! ?kt"
      using b'(2) [of ?kt ts] b'(1) kb length_takeWhile_le [of _ ts] by simp
    with t'(2) [of 0 "[]"] have "forkSums ?h (bs @ ts) ! (length bs + ?kt) = checksumToBytes h2" by simp
    with b b'(1) t t'(1) kb assms show ?thesis
      by (simp add: NewID_def progress_def nth_append) (use takeWhile_all in fastforce)
  qed
qed

lemma scanForks_skip:
  assumes "m < length fs" "\<And>j. j < m \<Longrightarrow> fs ! j \<le> (if i + j \<ge> nb then time else block)"
    and "\<not> fs ! m \<le> (if i + m \<ge> nb then time else block)"
  shows "scanForks nb sums forks block time rid i fs = checkAt sums forks (if i + m \<ge> nb then time else block) time rid (i + m)"
  using assms
proof (induction m arbitrary: i fs)
  case 0
  then show ?case by (cases fs) auto
next
  case (Suc m)
  from Suc.prems(1) obtain f fs' where fs: "fs = f # fs'" by (cases fs) auto
  have "f \<le> (if i \<ge> nb then time else block)" using Suc.prems(2) [of 0] fs by simp
  moreover have "scanForks nb sums forks block time rid (i + 1) fs' =
      checkAt sums forks (if i + 1 + m \<ge> nb then time else block) time rid (i + 1 + m)"
  proof (rule Suc.IH)
    show "fs' ! j \<le> (if i + 1 + j \<ge> nb then time else block)" if "j < m" for j
      using Suc.prems(2) [of "Suc j"] that fs by simp
  qed (use Suc.prems(1,3) fs in simp_all)
  ultimately show ?case by (simp add: fs)
qed

lemma passed_nth: "j < length (takeWhile P xs) \<Longrightarrow> P (xs ! j)"
  using takeWhile_nth [of j P xs] set_takeWhileD [of "takeWhile P xs ! j" P xs] nth_mem by fastforce

text \<open>The local head in the comparison with fork \<open>i\<close>.\<close>

definition headAt :: "u64 \<Rightarrow> u64 \<Rightarrow> u64 list \<Rightarrow> u64 list \<Rightarrow> nat \<Rightarrow> u64" where
  "headAt block time bs ts i = (if i < length bs \<or> ts = [] then block else time)"

lemma progress_next:
  assumes "block \<noteq> - 1" "time \<noteq> - 1"
  shows "\<not> (bs @ ts @ [- 1]) ! progress block time bs ts \<le> headAt block time bs ts (progress block time bs ts)"
proof (cases "length (takeWhile (\<lambda>f. f \<le> block) bs) < length bs")
  case True
  with nth_length_takeWhile [of "\<lambda>f. f \<le> block" bs] show ?thesis by (simp add: progress_def Let_def headAt_def nth_append)
next
  case False
  have "\<not> - 1 \<le> block" "\<not> - 1 \<le> time" using assms by (simp_all add: word_order.extremum_unique)
  with takeWhile_all [OF False] nth_length_takeWhile [of "\<lambda>f. f \<le> time" ts] takeWhile_all [of "\<lambda>f. f \<le> time" ts] show ?thesis
    by (cases "length (takeWhile (\<lambda>f. f \<le> time) ts) < length ts") (auto simp: progress_def Let_def headAt_def nth_append)
qed

lemma newFilter_progress:
  assumes g: "gatherForks config genesisTime = (bs, ts)" and heads: "block \<noteq> - 1" "time \<noteq> - 1"
  defines "k \<equiv> progress block time bs ts"
  shows "newFilter config genesisHash genesisTime (block, time) rid =
    checkAt (forkSums (ChecksumIEEE (hashBytes genesisHash)) (bs @ ts)) (bs @ ts @ [- 1]) (headAt block time bs ts k) time rid k"
proof -
  let ?fs = "bs @ ts @ [- 1]" and ?nb = "length (if ts = [] then bs @ [- 1] else bs)"
    and ?kb = "length (takeWhile (\<lambda>f. f \<le> block) bs)" and ?kt = "length (takeWhile (\<lambda>f. f \<le> time) ts)"
  have k: "k < length ?fs" using progress_le [of block time bs ts] by (simp add: k_def)
  have at: "(if j \<ge> ?nb then time else block) = headAt block time bs ts j" if "j < length ?fs" for j
    using that by (auto simp: headAt_def)
  have "?fs ! j \<le> headAt block time bs ts j" if "j < k" for j
  proof (cases "?kb < length bs")
    case True
    then have "j < ?kb" using that by (simp add: k_def progress_def Let_def)
    with passed_nth [OF this] True show ?thesis by (simp add: headAt_def nth_append)
  next
    case False
    note kb = takeWhile_all [OF False]
    show ?thesis
    proof (cases "j < length bs")
      case True
      with passed_nth [of j "\<lambda>f. f \<le> block" bs] kb show ?thesis by (simp add: headAt_def nth_append)
    next
      case outside: False
      with that kb have j: "j - length bs < ?kt" by (simp add: k_def progress_def Let_def)
      then have "j - length bs < length ts" "ts \<noteq> []" using length_takeWhile_le [of "\<lambda>f. f \<le> time" ts] by auto
      with passed_nth [OF j] outside show ?thesis by (simp add: headAt_def nth_append)
    qed
  qed
  moreover have "\<not> ?fs ! k \<le> headAt block time bs ts k" unfolding k_def by (rule progress_next [OF heads])
  ultimately have "scanForks ?nb sums forks block time rid 0 ?fs = checkAt sums forks (headAt block time bs ts k) time rid k" for sums forks
    using scanForks_skip [of k ?fs ?nb 0 time block sums forks rid] at k by (simp del: append.simps append_assoc if_split)
  then show ?thesis using g by (simp add: newFilter_def)
qed

section \<open>Theorems\<close>

lemma find_index:
  assumes "distinct xs" "j < i" "i \<le> length xs"
  shows "List.find (\<lambda>j'. xs ! j' = xs ! j) [0..<i] = Some j"
proof -
  have "List.find (\<lambda>j'. xs ! j' = xs ! j) [0..<i] = List.find (\<lambda>j'. j' = j) [0..<i]"
    using assms by (intro find_cong) (auto simp: nth_eq_iff_index_eq)
  also have "\<dots> = Some j" using assms(2) by (subst find_Some_iff) (rule exI [of _ j], simp)
  finally show ?thesis .
qed

lemma checkAt_past:
  assumes "distinct sums" "j < k" "k < length sums" "length sums = Suc (length fs)"
  shows "checkAt sums (fs @ [- 1]) h0 time \<lparr> idHash = sums ! j, idNext = n \<rparr> k = (if n \<noteq> fs ! j then Inl ErrRemoteStale else Inr ())"
proof -
  have "List.find (\<lambda>j'. sums ! j' = sums ! j) [0..<k] = Some j" using find_index [OF assms(1,2)] assms(3) by simp
  moreover have "sums ! k \<noteq> sums ! j" using assms by (simp add: nth_eq_iff_index_eq)
  moreover have "(fs @ [- 1]) ! j = fs ! j" using assms by (auto simp: nth_append)
  ultimately show ?thesis by (auto simp: checkAt_def)
qed

lemma checkAt_unknown:
  assumes "h \<notin> set sums" "k < length sums"
  shows "checkAt sums fs h0 time \<lparr> idHash = h, idNext = n \<rparr> k = Inl ErrLocalIncompatibleOrStale"
proof -
  have no: "sums ! j \<noteq> h" if "j < length sums" for j using that assms(1) nth_mem by blast
  have "sums ! k \<noteq> h" using no assms(2) by simp
  moreover have "List.find (\<lambda>j. sums ! j = h) [0..<k] = None" unfolding find_None_iff using no assms(2) by simp
  moreover have "\<not> list_ex (\<lambda>j. sums ! j = h) [k + 1..<length sums]" unfolding list_ex_iff set_upt using no by (meson atLeastLessThan_iff)
  ultimately show ?thesis by (simp add: checkAt_def)
qed

text \<open>C32. The fork identifier filter does what its four rules say. Nodes with the same configuration and genesis accept each other's
  identifiers whatever their heads are; an identifier that names a checksum the local node has already passed is refused as
  stale when it announces another next fork; and an identifier whose checksum is none of the local ones is refused as
  incompatible. (The checksums of the forks have to differ from each other, and block numbers of forks have to stay below the threshold that
  separates them from timestamps.)\<close>

theorem fork_filter_rules:
  assumes "gatherForks config genesisTime = (bs, ts)" "distinct (forkSums (ChecksumIEEE (hashBytes genesisHash)) (bs @ ts))"
    and "\<forall>f \<in> set bs. f \<le> timestampThreshold" "block \<noteq> - 1" "time \<noteq> - 1"
  shows "newFilter config genesisHash genesisTime (block, time) (NewID config genesisHash genesisTime block' time') = Inr () \<and>
    (\<forall>j n. j < progress block time bs ts \<longrightarrow> n \<noteq> (bs @ ts) ! j \<longrightarrow>
      newFilter config genesisHash genesisTime (block, time)
        \<lparr> idHash = forkSums (ChecksumIEEE (hashBytes genesisHash)) (bs @ ts) ! j, idNext = n \<rparr> = Inl ErrRemoteStale) \<and>
    (\<forall>h n. h \<notin> set (forkSums (ChecksumIEEE (hashBytes genesisHash)) (bs @ ts)) \<longrightarrow>
      newFilter config genesisHash genesisTime (block, time) \<lparr> idHash = h, idNext = n \<rparr> = Inl ErrLocalIncompatibleOrStale)"
proof -
  let ?sums = "forkSums (ChecksumIEEE (hashBytes genesisHash)) (bs @ ts)" and ?k = "progress block time bs ts"
    and ?k' = "progress block' time' bs ts"
  note filter = newFilter_progress [OF assms(1,4,5), of genesisHash]
  note le = progress_le [of block time bs ts] progress_le [of block' time' bs ts]
  have same: "?sums ! i = ?sums ! j \<longleftrightarrow> i = j" if "i \<le> length (bs @ ts)" "j \<le> length (bs @ ts)" for i j
    using that assms(2) by (simp add: nth_eq_iff_index_eq)
  have 2: "checkAt ?sums (bs @ ts @ [- 1]) hd' time \<lparr> idHash = ?sums ! j, idNext = n \<rparr> ?k =
      (if n \<noteq> (bs @ ts) ! j then Inl ErrRemoteStale else Inr ())" if "j < ?k" for j n hd'
    using checkAt_past [OF assms(2) that, of "bs @ ts" hd' time n] le by simp
  have "newFilter config genesisHash genesisTime (block, time) (NewID config genesisHash genesisTime block' time') = Inr ()"
  proof (cases ?k ?k' rule: linorder_cases)
    case less
    then have "\<not> List.find (\<lambda>j. ?sums ! j = ?sums ! ?k') [0..<?k] \<noteq> None" "?sums ! ?k \<noteq> ?sums ! ?k'"
      using same le by (auto simp: find_None_iff)
    moreover have "\<exists>j \<in> set [?k + 1..<length ?sums]. ?sums ! j = ?sums ! ?k'" using less le by (intro bexI [of _ ?k']) auto
    ultimately show ?thesis by (auto simp: filter NewID_progress [OF assms(1)] checkAt_def list_ex_iff)
  next
    case equal
    let ?n = "(bs @ ts @ [0]) ! ?k"
    have "?n = 0 \<or> \<not> (?n \<le> headAt block time bs ts ?k \<or> timestampThreshold < ?n \<and> ?n \<le> time)"
    proof (cases "?k < length (bs @ ts)")
      case True
      then have n: "?n = (bs @ ts @ [- 1]) ! ?k" "ts = [] \<Longrightarrow> ?k < length bs" by (auto simp: nth_append)
      have "?k < length bs \<Longrightarrow> ?n \<le> timestampThreshold" using assms(3) by (simp add: nth_append)
      with n progress_next [OF assms(4,5), of bs ts] show ?thesis by (auto simp: headAt_def not_less split: if_splits)
    qed (use le in \<open>simp add: nth_append\<close>)
    with equal show ?thesis by (auto simp: filter NewID_progress [OF assms(1)] checkAt_def word_gt_0)
  next
    case greater
    with le have "(bs @ ts @ [0]) ! ?k' = (bs @ ts) ! ?k'" by (auto simp: nth_append)
    with 2 [OF greater] show ?thesis by (simp add: filter NewID_progress [OF assms(1)])
  qed
  moreover have "checkAt ?sums (bs @ ts @ [- 1]) hd' time \<lparr> idHash = h, idNext = n \<rparr> ?k = Inl ErrLocalIncompatibleOrStale"
    if "h \<notin> set ?sums" for h n hd' using checkAt_unknown [OF that] le by simp
  ultimately show ?thesis using 2 by (simp add: filter)
qed

definition twoForks :: ChainConfig where
  "twoForks = zeroChainConfig\<lparr> LondonBlock := Some 1000, CancunTime := Some 1700000000 \<rparr>"

lemma crcByte_8: "crcByte c b = crcBit (crcBit (crcBit (crcBit (crcBit (crcBit (crcBit (crcBit (c XOR ucast b))))))))"
  by (simp add: crcByte_def eval_nat_numeral)

lemma crc_zeros:
  "foldl crcByte 4294967295 [0, 0, 0, 0, 0, 0, 0, 0] = 2598183062"
  "foldl crcByte 2598183062 [0, 0, 0, 0, 0, 0, 0, 0] = 323269802"
  "foldl crcByte 323269802 [0, 0, 0, 0, 0, 0, 0, 0] = 1547580895"
  "foldl crcByte 1547580895 [0, 0, 0, 0, 0, 0, 0, 0] = 3874859602"
  by (simp_all add: crcByte_8 crcBit_def)

lemma crc_forks:
  "foldl crcByte 3874859602 [0, 0, 0, 0, 0, 0, 3, 232] = 2481978311" "foldl crcByte 2481978311 [0, 0, 0, 0, 101, 83, 241, 0] = 134976446"
  by (simp_all add: crcByte_8 crcBit_def)

lemma be_bytes_8: "be_bytes 8 x = [of_nat (x div 256 div 256 div 256 div 256 div 256 div 256 div 256 mod 256), of_nat (x div 256 div 256 div 256 div 256 div 256 div 256 mod 256), of_nat (x div 256 div 256 div 256 div 256 div 256 mod 256), of_nat (x div 256 div 256 div 256 div 256 mod 256), of_nat (x div 256 div 256 div 256 mod 256), of_nat (x div 256 div 256 mod 256), of_nat (x div 256 mod 256), of_nat (x mod 256)]"
proof -
  have "(8 :: nat) = Suc (Suc (Suc (Suc (Suc (Suc (Suc (Suc 0)))))))" by simp
  then show ?thesis by (simp only: be_bytes.simps append.simps)
qed

lemma be_bytes_zero: "be_bytes n 0 = replicate n 0"
  by (induction n) (simp_all add: replicate_append_same)

lemma checksumToBytes_inj: "inj checksumToBytes"
proof (rule injI)
  fix h h' assume "checksumToBytes h = checksumToBytes h'"
  then have "be_nat (be_bytes 4 (unat h)) = be_nat (be_bytes 4 (unat h'))" by (simp add: checksumToBytes_def)
  moreover have "unat h < 256 ^ 4" "unat h' < 256 ^ 4" using unsigned_less [of h] unsigned_less [of h'] by simp_all
  ultimately have "unat h = unat h'" by (simp add: be_nat_be_bytes)
  then show "h = h'" by (rule word_unat_eq_iff [THEN iffD2])
qed

lemma twoForks_sums: "forkSums (ChecksumIEEE (hashBytes 0)) [1000, 1700000000] = map checksumToBytes [420107693, 1812988984, 4159990849]"
proof -
  have ones: "NOT 0 = (4294967295 :: 32 word)" by simp
  have "hashBytes 0 = (let z = [0, 0, 0, 0, 0, 0, 0, 0] in z @ z @ z @ z)"
    by (simp add: hashBytes_def be_bytes_zero) (simp add: eval_nat_numeral)
  then have "ChecksumIEEE (hashBytes 0) = 420107693"
    by (simp only: ChecksumIEEE_def crcUpdate_def Let_def foldl_append ones crc_zeros) simp
  moreover have unat_fork: "unat (1000 :: u64) = 1000" "unat (1700000000 :: u64) = 1700000000" by simp_all
  moreover have "be_bytes 8 1000 = [0, 0, 0, 0, 0, 0, 3, 232]" "be_bytes 8 1700000000 = [0, 0, 0, 0, 101, 83, 241, 0]" by (simp_all add: be_bytes_8)
  moreover have "NOT 420107693 = (3874859602 :: 32 word)" "NOT 1812988984 = (2481978311 :: 32 word)" by simp_all
  ultimately have "checksumUpdate 420107693 1000 = 1812988984" "checksumUpdate 1812988984 1700000000 = 4159990849"
    by (simp_all only: checksumUpdate_def crcUpdate_def unat_fork crc_forks) simp_all
  with \<open>ChecksumIEEE (hashBytes 0) = 420107693\<close> show ?thesis by simp
qed

theorem fork_filter_rules_witness:
  "newFilter twoForks 0 0 (2000, 1600000000) (NewID twoForks 0 0 1 1500000000) = Inr () \<and>
    newFilter twoForks 0 0 (2000, 1600000000) \<lparr> idHash = [0, 0, 0, 0], idNext = 7 \<rparr> = Inl ErrLocalIncompatibleOrStale"
proof -
  have g: "gatherForks twoForks 0 = ([1000], [1700000000])" by code_simp
  have "distinct (forkSums (ChecksumIEEE (hashBytes 0)) ([1000] @ [1700000000]))"
    by (simp add: twoForks_sums inj_eq [OF checksumToBytes_inj] del: forkSums.simps)
  moreover have "\<forall>f \<in> set [1000]. f \<le> timestampThreshold" by (simp add: timestampThreshold_def)
  ultimately have r: "newFilter twoForks 0 0 (2000, 1600000000) (NewID twoForks 0 0 1 1500000000) = Inr ()"
    "h \<notin> set (forkSums (ChecksumIEEE (hashBytes 0)) ([1000] @ [1700000000])) \<Longrightarrow>
      newFilter twoForks 0 0 (2000, 1600000000) \<lparr> idHash = h, idNext = 7 \<rparr> = Inl ErrLocalIncompatibleOrStale" for h
    using fork_filter_rules [OF g, of 0 2000 1600000000 1 1500000000] by simp_all
  have "[0, 0, 0, 0] = checksumToBytes 0" by (simp add: checksumToBytes_def be_bytes_zero eval_nat_numeral)
  then have "[0, 0, 0, 0] \<notin> set (forkSums (ChecksumIEEE (hashBytes 0)) ([1000] @ [1700000000]))"
    by (simp add: twoForks_sums inj_eq [OF checksumToBytes_inj] del: forkSums.simps)
  then show ?thesis using r by simp
qed

end
