(* ===== verification/Election.thy ===== *)
theory Election
  imports Chain_Types
begin

text \<open>
  Election of the validators by voting power (\<open>consensus/parlia/feynmanfork.go\<close>), with the binary heap of Go's \<open>container/heap\<close>
  written out over a list. The heap is verified once for every order whose incomparability is transitive
  (\<open>heap_order\<close>), and the order of the validators is an instance.
\<close>

section \<open>The heap of the standard library\<close>

definition swapAt :: "'a list \<Rightarrow> nat \<Rightarrow> nat \<Rightarrow> 'a list" where
  "swapAt xs i j = xs[i := xs ! j, j := xs ! i]"

text \<open>The smaller of the two children of \<open>i\<close>, the left one in case of doubt.\<close>

definition smallerChild :: "('a \<Rightarrow> 'a \<Rightarrow> bool) \<Rightarrow> 'a list \<Rightarrow> nat \<Rightarrow> nat \<Rightarrow> nat" where
  "smallerChild lt xs i n =
     (let j1 = 2 * i + 1; j2 = j1 + 1 in if j2 < n \<and> lt (xs ! j2) (xs ! j1) then j2 else j1)"

lemma smallerChild_gt: "i < smallerChild lt xs i n"
  by (auto simp: smallerChild_def Let_def)

function heap_down :: "('a \<Rightarrow> 'a \<Rightarrow> bool) \<Rightarrow> 'a list \<Rightarrow> nat \<Rightarrow> nat \<Rightarrow> 'a list" where
  "heap_down lt xs i n =
     (if 2 * i + 1 \<ge> n then xs
      else
        (let j = smallerChild lt xs i n in
         if \<not> lt (xs ! j) (xs ! i) then xs
         else heap_down lt (swapAt xs i j) j n))"
  by pat_completeness auto

termination
  by (relation "measure (\<lambda>(lt, xs, i, n). n - i)") (auto intro!: diff_less_mono2 smallerChild_gt)

declare heap_down.simps [simp del]

lemma heap_down_stop:
  "n \<le> 2 * i + 1 \<or> \<not> lt (xs ! smallerChild lt xs i n) (xs ! i) \<Longrightarrow> heap_down lt xs i n = xs"
  by (subst heap_down.simps) (auto simp: Let_def)

lemma heap_down_step:
  "2 * i + 1 < n \<Longrightarrow> lt (xs ! smallerChild lt xs i n) (xs ! i) \<Longrightarrow>
    heap_down lt xs i n = heap_down lt (swapAt xs i (smallerChild lt xs i n)) (smallerChild lt xs i n) n"
  by (subst heap_down.simps) (simp add: Let_def)

definition heap_init :: "('a \<Rightarrow> 'a \<Rightarrow> bool) \<Rightarrow> 'a list \<Rightarrow> 'a list" where
  "heap_init lt xs = fold (\<lambda>i ys. heap_down lt ys i (length xs)) (rev [0..<length xs div 2]) xs"

definition heap_pop :: "('a \<Rightarrow> 'a \<Rightarrow> bool) \<Rightarrow> 'a list \<Rightarrow> 'a \<times> 'a list" where
  "heap_pop lt xs =
     (let n = length xs - 1; ys = heap_down lt (swapAt xs 0 n) 0 n in (ys ! n, take n ys))"

section \<open>Validators\<close>

record ValidatorItem =
  itemAddress :: address
  votingPower :: int
  itemVoteAddress :: bytes

text \<open>\<open>Address.Hex\<close>: the hexadecimal digits with the mixed case of the checksum. Only the order of the strings matters
  here; digits, upper-case and lower-case letters are in ascending order.\<close>

definition hexChar :: "nat \<Rightarrow> nat" where
  "hexChar d = (if d < 10 then 48 + d else 87 + d)"

definition hexDigits :: "bytes \<Rightarrow> nat list" where
  "hexDigits bs = concat (map (\<lambda>b. [unat b div 16, unat b mod 16]) bs)"

definition Address_Hex :: "crypto \<Rightarrow> address \<Rightarrow> nat list" where
  "Address_Hex C a =
     (let buf = map hexChar (hexDigits (addrBytes a));
          hash = hexDigits (hashBytes (keccak256 C (map of_nat buf)))
      in [48, 120] @ map2 (\<lambda>c h. if c > 57 \<and> h > 7 then c - 32 else c) buf hash)"

fun stringLess :: "nat list \<Rightarrow> nat list \<Rightarrow> bool" where
  "stringLess xs [] = False"
| "stringLess [] (y # ys) = True"
| "stringLess (x # xs) (y # ys) = (x < y \<or> x = y \<and> stringLess xs ys)"

definition itemLess :: "crypto \<Rightarrow> ValidatorItem \<Rightarrow> ValidatorItem \<Rightarrow> bool" where
  "itemLess C a b =
     (if votingPower a = votingPower b then stringLess (Address_Hex C (itemAddress a)) (Address_Hex C (itemAddress b))
      else votingPower a > votingPower b)"

text \<open>The first \<open>n\<close> elements popped, and what is left.\<close>

fun popItems :: "('a \<Rightarrow> 'a \<Rightarrow> bool) \<Rightarrow> nat \<Rightarrow> 'a list \<Rightarrow> 'a list \<times> 'a list" where
  "popItems lt 0 h = ([], h)"
| "popItems lt (Suc n) h =
     (case heap_pop lt h of (item, h') \<Rightarrow> case popItems lt n h' of (items, h'') \<Rightarrow> (item # items, h''))"

text \<open>The elected validators, their voting powers in units of \<open>1e10\<close> and their vote addresses. A negative number of seats
  panics in \<open>make\<close>.\<close>

definition getTopValidatorsByVotingPower ::
  "crypto \<Rightarrow> ValidatorItem list \<Rightarrow> int \<Rightarrow> (address list \<times> u64 list \<times> bytes list) result" where
  "getTopValidatorsByVotingPower C validatorItems maxElectedValidators =
     (let validatorHeap = heap_init (itemLess C) (filter (\<lambda>v. votingPower v > 0) validatorItems);
          topN = sint (word_of_int maxElectedValidators :: u64);
          topN = (if topN > int (length validatorHeap) then int (length validatorHeap) else topN)
      in if topN < 0 then Inl Panic
         else
           (let items = fst (popItems (itemLess C) (nat topN) validatorHeap) in
            Inr (map itemAddress items, map (\<lambda>v. word_of_int (votingPower v div 10 ^ 10)) items, map itemVoteAddress items)))"

section \<open>Correctness of the heap\<close>

lemma length_swapAt [simp]: "length (swapAt xs i j) = length xs"
  by (simp add: swapAt_def)

lemma nth_swapAt:
  "i < length xs \<Longrightarrow> j < length xs \<Longrightarrow> k < length xs \<Longrightarrow> swapAt xs i j ! k = (if k = j then xs ! i else if k = i then xs ! j else xs ! k)"
  by (simp add: swapAt_def nth_list_update)

lemma mset_swapAt: "i < length xs \<Longrightarrow> j < length xs \<Longrightarrow> mset (swapAt xs i j) = mset xs"
  by (cases "i = j") (simp_all add: swapAt_def mset_swap)

lemma drop_swapAt: "i < n \<Longrightarrow> j < n \<Longrightarrow> drop n (swapAt xs i j) = drop n xs"
  by (simp add: swapAt_def)

definition child :: "nat \<Rightarrow> nat \<Rightarrow> bool" where
  "child i j \<longleftrightarrow> j = 2 * i + 1 \<or> j = 2 * i + 2"

lemma smallerChild_child: "2 * i + 1 < n \<Longrightarrow> child i (smallerChild lt xs i n) \<and> smallerChild lt xs i n < n"
  by (auto simp: smallerChild_def child_def Let_def)

lemma heap_down_frame:
  assumes "n \<le> length xs" "i < n"
  shows "length (heap_down lt xs i n) = length xs \<and> mset (heap_down lt xs i n) = mset xs \<and>
    drop n (heap_down lt xs i n) = drop n xs"
  using assms
proof (induction lt xs i n rule: heap_down.induct)
  case (1 lt xs i n)
  let ?j = "smallerChild lt xs i n"
  show ?case
  proof (cases "n \<le> 2 * i + 1 \<or> \<not> lt (xs ! ?j) (xs ! i)")
    case True
    then show ?thesis by (simp add: heap_down_stop)
  next
    case False
    then have j: "2 * i + 1 < n" "lt (xs ! ?j) (xs ! i)" "?j < n" using smallerChild_child [of i n lt xs] by auto
    with 1(1) [OF _ refl] 1(2,3) show ?thesis
      by (simp add: heap_down_step mset_swapAt drop_swapAt)
  qed
qed

text \<open>An order for the heap: \<open>lt\<close> is a strict weak order, so \<open>le a b\<close>, meaning \<open>\<not> lt b a\<close>, is total and transitive.\<close>

locale heap_order =
  fixes lt :: "'a \<Rightarrow> 'a \<Rightarrow> bool"
  assumes asym: "lt a b \<Longrightarrow> \<not> lt b a"
    and neg_trans: "\<not> lt b a \<Longrightarrow> \<not> lt c b \<Longrightarrow> \<not> lt c a"
begin

lemma refl: "\<not> lt a a"
  using asym by blast

text \<open>The heap condition below \<open>n\<close> for the parents from \<open>s\<close> on, and the same with an exception at \<open>i\<close>.\<close>

definition heapFrom :: "nat \<Rightarrow> nat \<Rightarrow> 'a list \<Rightarrow> bool" where
  "heapFrom s n xs \<longleftrightarrow> (\<forall>p c. s \<le> p \<longrightarrow> child p c \<longrightarrow> c < n \<longrightarrow> \<not> lt (xs ! c) (xs ! p))"

definition heapExcept :: "nat \<Rightarrow> nat \<Rightarrow> nat \<Rightarrow> 'a list \<Rightarrow> bool" where
  "heapExcept s i n xs \<longleftrightarrow> (\<forall>p c. s \<le> p \<longrightarrow> p \<noteq> i \<longrightarrow> child p c \<longrightarrow> c < n \<longrightarrow> \<not> lt (xs ! c) (xs ! p)) \<and>
     (\<forall>p c. s \<le> p \<longrightarrow> child p i \<longrightarrow> child i c \<longrightarrow> c < n \<longrightarrow> \<not> lt (xs ! c) (xs ! p))"

lemma heapExcept_swap:
  assumes n: "n \<le> length xs" and ex: "heapExcept s i n xs" and i: "s \<le> i" "i < n" and j: "child i j" "j < n"
    and lt: "lt (xs ! j) (xs ! i)" and least: "\<And>c. child i c \<Longrightarrow> c < n \<Longrightarrow> \<not> lt (xs ! c) (xs ! j)"
  shows "heapExcept s j n (swapAt xs i j)"
proof -
  have nth: "swapAt xs i j ! k = (if k = j then xs ! i else if k = i then xs ! j else xs ! k)" if "k < n" for k
    using that i(2) j(2) n by (simp add: nth_swapAt)
  have ij: "i < j" using j(1) by (auto simp: child_def)
  have "\<not> lt (swapAt xs i j ! c) (swapAt xs i j ! p)" if *: "s \<le> p" "p \<noteq> j" "child p c" "c < n" for p c
  proof -
    have pn: "p < n" "p < c" using *(3,4) by (auto simp: child_def)
    consider (at) "p = i" | (above) "p \<noteq> i" "c = i" | (other) "p \<noteq> i" "c \<noteq> i" by blast
    then show ?thesis
    proof cases
      case at
      then show ?thesis using nth pn * lt least [of c] asym ij by auto
    next
      case above
      then have "\<not> lt (xs ! j) (xs ! p)" using ex * j by (simp add: heapExcept_def)
      with above nth pn * ij show ?thesis by auto
    next
      case other
      then have "c \<noteq> j" using *(3) j(1) by (auto simp: child_def)
      with other nth pn * ex show ?thesis by (simp add: heapExcept_def)
    qed
  qed
  moreover have "\<not> lt (swapAt xs i j ! c) (swapAt xs i j ! p)" if *: "s \<le> p" "child p j" "child j c" "c < n" for p c
  proof -
    have "p = i" "j < c" using * j(1) by (auto simp: child_def)
    moreover have "\<not> lt (xs ! c) (xs ! j)" using ex * i j ij by (auto simp: heapExcept_def)
    ultimately show ?thesis using nth [of c] nth [of p] * i ij by auto
  qed
  ultimately show ?thesis unfolding heapExcept_def by blast
qed

lemma smallerChild_least: "child i c \<Longrightarrow> c < n \<Longrightarrow> \<not> lt (xs ! c) (xs ! smallerChild lt xs i n)"
  using asym by (auto simp: smallerChild_def child_def Let_def refl)

lemma heap_down_heap:
  assumes "n \<le> length xs" "heapExcept s i n xs" "s \<le> i" "i < n"
  shows "heapFrom s n (heap_down lt xs i n)"
  using assms
proof (induction "n - i" arbitrary: xs i rule: less_induct)
  case less
  let ?j = "smallerChild lt xs i n"
  show ?case
  proof (cases "n \<le> 2 * i + 1 \<or> \<not> lt (xs ! ?j) (xs ! i)")
    case True
    have "\<not> lt (xs ! c) (xs ! i)" if "child i c" "c < n" for c
      using True that smallerChild_least [OF that] neg_trans by (auto simp: child_def)
    with less.prems(2) have "heapFrom s n xs" by (auto simp: heapFrom_def heapExcept_def)
    with True show ?thesis by (simp add: heap_down_stop)
  next
    case False
    then have j: "2 * i + 1 < n" "lt (xs ! ?j) (xs ! i)" "child i ?j" "?j < n" using smallerChild_child [of i n lt xs] by auto
    have gt: "i < ?j" by (rule smallerChild_gt)
    have "heapExcept s ?j n (swapAt xs i ?j)"
      using heapExcept_swap [OF less.prems j(3,4,2)] smallerChild_least by blast
    moreover have "n - ?j < n - i" using gt j(4) by linarith
    ultimately show ?thesis using less.hyps [of ?j "swapAt xs i ?j"] less.prems j gt by (simp add: heap_down_step)
  qed
qed

lemma heap_root:
  assumes "heapFrom 0 n xs" "k < n"
  shows "\<not> lt (xs ! k) (xs ! 0)"
  using assms(2)
proof (induction k rule: less_induct)
  case (less k)
  show ?case
  proof (cases "k = 0")
    case False
    let ?p = "(k - 1) div 2"
    have c: "child ?p k" "?p < k" using False by (auto simp: child_def)
    with less.prems have "\<not> lt (xs ! k) (xs ! ?p)" using assms(1) by (auto simp: heapFrom_def)
    with less.IH [OF c(2)] less.prems c(2) neg_trans show ?thesis by (metis less_trans)
  qed (simp add: refl)
qed

lemma heap_init_heap: "heapFrom 0 (length xs) (heap_init lt xs) \<and> mset (heap_init lt xs) = mset xs"
proof -
  let ?n = "length xs"
  have "heapFrom 0 ?n (fold (\<lambda>i ys. heap_down lt ys i ?n) (rev [0..<k]) ys) \<and>
      mset (fold (\<lambda>i ys. heap_down lt ys i ?n) (rev [0..<k]) ys) = mset xs"
    if "heapFrom k ?n ys" "mset ys = mset xs" "k \<le> ?n div 2" for k ys
    using that
  proof (induction k arbitrary: ys)
    case (Suc k)
    have len: "length ys = ?n" using Suc.prems(2) by (metis size_mset)
    have k: "k < ?n" using Suc.prems(3) by linarith
    have "heapExcept k k ?n ys" using Suc.prems(1) by (auto simp: heapExcept_def heapFrom_def child_def)
    then have "heapFrom k ?n (heap_down lt ys k ?n)" by (intro heap_down_heap) (simp_all add: len k)
    with Suc heap_down_frame [of ?n ys k lt] len k show ?case by simp
  qed simp
  moreover have "heapFrom (?n div 2) ?n xs" by (auto simp: heapFrom_def child_def)
  ultimately show ?thesis by (simp add: heap_init_def)
qed

lemma heap_pop_least:
  assumes "heapFrom 0 (length xs) xs" "xs \<noteq> []" "heap_pop lt xs = (x, ys)"
  shows "mset xs = add_mset x (mset ys)" "heapFrom 0 (length ys) ys" "\<forall>y \<in> set ys. \<not> lt y x" "length ys + 1 = length xs"
proof -
  define n where "n = length xs - 1"
  have n: "length xs = Suc n" using assms(2) by (simp add: n_def)
  define zs where "zs = swapAt xs 0 n"
  define ws where "ws = heap_down lt zs 0 n"
  have z: "length zs = Suc n" "mset zs = mset xs" "zs ! n = xs ! 0" using n by (simp_all add: zs_def mset_swapAt nth_swapAt)
  have w: "length ws = Suc n \<and> mset ws = mset zs \<and> drop n ws = drop n zs"
    using heap_down_frame [of n zs 0 lt] z heap_down_stop [of 0 0 lt zs] by (cases "n = 0") (simp_all add: ws_def)
  have last: "ws ! n = xs ! 0" using w z by (metis hd_drop_conv_nth lessI)
  have xy: "x = ws ! n" "ys = take n ws" using assms(3) by (simp_all add: heap_pop_def Let_def n_def zs_def ws_def)
  have "ws = ys @ [x]" using w xy by (metis lessI take_Suc_conv_app_nth take_all le_refl)
  then show m: "mset xs = add_mset x (mset ys)" using w z by simp
  show "length ys + 1 = length xs" using m by (metis Suc_eq_plus1 size_add_mset size_mset)
  have "heapExcept 0 0 n zs"
    using assms(1) n by (auto simp: heapExcept_def heapFrom_def child_def zs_def nth_swapAt)
  then have "heapFrom 0 n ws"
    using heap_down_heap [of n zs 0 0] z heap_down_stop [of 0 0 lt zs] by (cases "n = 0") (auto simp: ws_def heapFrom_def child_def)
  then show "heapFrom 0 (length ys) ys" using xy w by (auto simp: heapFrom_def child_def)
  show "\<forall>y \<in> set ys. \<not> lt y x"
  proof
    fix y assume "y \<in> set ys"
    then have "y \<in> set xs" using m by (metis insert_iff set_mset_add_mset_insert set_mset_mset)
    then obtain k where "k < length xs" "y = xs ! k" by (auto simp: in_set_conv_nth)
    with heap_root [OF assms(1)] xy last show "\<not> lt y x" by simp
  qed
qed

text \<open>Popping \<open>n\<close> elements of a heap gives the \<open>n\<close> first ones in order.\<close>

lemma popItems_first:
  assumes "heapFrom 0 (length h) h" "n \<le> length h" "popItems lt n h = (items, rest)"
  shows "mset h = mset items + mset rest \<and> length items = n \<and> sorted_wrt (\<lambda>a b. \<not> lt b a) items \<and>
    (\<forall>a \<in> set items. \<forall>b \<in> set rest. \<not> lt b a)"
  using assms
proof (induction n arbitrary: h items)
  case (Suc n)
  obtain x h' where p: "heap_pop lt h = (x, h')" by fastforce
  note pop = heap_pop_least [OF Suc.prems(1) _ p]
  obtain items' where items: "popItems lt n h' = (items', rest)" "items = x # items'"
    using Suc.prems(3) p by (auto split: prod.splits)
  have ne: "h \<noteq> []" using Suc.prems(2) by auto
  have IH: "mset h' = mset items' + mset rest \<and> length items' = n \<and> sorted_wrt (\<lambda>a b. \<not> lt b a) items' \<and>
      (\<forall>a \<in> set items'. \<forall>b \<in> set rest. \<not> lt b a)"
    by (rule Suc.IH) (use pop ne Suc.prems(2) items in simp_all)
  have "set h' = set items' \<union> set rest" using IH by (metis set_mset_mset set_mset_union)
  with IH pop ne items show ?case by auto
qed simp

end

section \<open>The order of the validators\<close>

lemma stringLess_asym: "stringLess a b \<Longrightarrow> \<not> stringLess b a"
  by (induction a b rule: stringLess.induct) auto

lemma stringLess_linear: "\<not> stringLess a b \<Longrightarrow> \<not> stringLess b a \<Longrightarrow> a = b"
  by (induction a b rule: stringLess.induct) (auto elim: stringLess.elims)

lemma stringLess_trans: "stringLess a b \<Longrightarrow> stringLess b c \<Longrightarrow> stringLess a c"
proof (induction a b arbitrary: c rule: stringLess.induct)
  case (3 x xs y ys)
  then show ?case by (cases c) auto
next
  case (2 y ys)
  then show ?case by (cases c) auto
qed simp

interpretation election: heap_order "itemLess C" for C
proof
  fix a b c :: ValidatorItem
  show "itemLess C a b \<Longrightarrow> \<not> itemLess C b a" by (auto simp: itemLess_def dest: stringLess_asym split: if_splits)
  show "\<not> itemLess C b a \<Longrightarrow> \<not> itemLess C c b \<Longrightarrow> \<not> itemLess C c a"
    using stringLess_linear stringLess_trans by (fastforce simp: itemLess_def split: if_splits)
qed

text \<open>C33. The election takes the validators with the most voting power. Validators without voting power are never
  elected; as many are elected as there are seats and candidates; they come in the order of their voting power, ties by
  address; and nobody who is left out precedes an elected validator in that order.\<close>

theorem election_takes_top:
  assumes "sint (word_of_int seats :: u64) = seats" "0 \<le> seats"
  shows "\<exists>items rest. getTopValidatorsByVotingPower C vs seats =
      Inr (map itemAddress items, map (\<lambda>v. word_of_int (votingPower v div 10 ^ 10)) items, map itemVoteAddress items) \<and>
    mset (filter (\<lambda>v. votingPower v > 0) vs) = mset items + mset rest \<and>
    int (length items) = min seats (int (length (filter (\<lambda>v. votingPower v > 0) vs))) \<and>
    sorted_wrt (\<lambda>a b. votingPower a \<ge> votingPower b \<and> \<not> itemLess C b a) items \<and>
    (\<forall>a \<in> set items. \<forall>b \<in> set rest. votingPower a \<ge> votingPower b \<and> \<not> itemLess C b a)"
proof -
  let ?vs = "filter (\<lambda>v. votingPower v > 0) vs" and ?h = "heap_init (itemLess C) (filter (\<lambda>v. votingPower v > 0) vs)"
  have h: "election.heapFrom C 0 (length ?vs) ?h" "mset ?h = mset ?vs" using election.heap_init_heap by blast+
  then have len: "length ?h = length ?vs" by (metis size_mset)
  define n where "n = nat (min seats (int (length ?vs)))"
  obtain items rest where p: "popItems (itemLess C) n ?h = (items, rest)" by fastforce
  have power: "votingPower a \<ge> votingPower b" if "\<not> itemLess C b a" for a b using that by (auto simp: itemLess_def split: if_splits)
  have first: "mset ?h = mset items + mset rest" "length items = n" "sorted_wrt (\<lambda>a b. \<not> itemLess C b a) items"
    "\<forall>a \<in> set items. \<forall>b \<in> set rest. \<not> itemLess C b a"
    using election.popItems_first [of C ?h n items rest] h len p by (auto simp: n_def)
  have top: "(if seats > int (length ?h) then int (length ?h) else seats) = int n" using assms(2) len by (simp add: n_def)
  have "getTopValidatorsByVotingPower C vs seats =
      Inr (map itemAddress items, map (\<lambda>v. word_of_int (votingPower v div 10 ^ 10)) items, map itemVoteAddress items)"
    unfolding getTopValidatorsByVotingPower_def Let_def assms(1) top by (simp add: p)
  moreover have "sorted_wrt (\<lambda>a b. votingPower a \<ge> votingPower b \<and> \<not> itemLess C b a) items"
    by (rule sorted_wrt_mono_rel [OF _ first(3)]) (simp add: power)
  moreover have "int (length items) = min seats (int (length ?vs))" using first(2) assms(2) by (simp add: n_def)
  moreover have "mset ?vs = mset items + mset rest" using h(2) first(1) by simp
  ultimately show ?thesis using first(4) power by blast
qed

definition candidateItem :: "address \<Rightarrow> int \<Rightarrow> ValidatorItem" where
  "candidateItem a v = \<lparr> itemAddress = a, votingPower = v * 10 ^ 18, itemVoteAddress = [] \<rparr>"

definition plainCrypto :: crypto where
  "plainCrypto = \<lparr> keccak256 = (\<lambda>_. 0), Ecrecover = (\<lambda>_ _. None), sha256 = (\<lambda>_. 0), blsPublicKeyOK = (\<lambda>_. True),
     blsSignatureOK = (\<lambda>_. True), blsVerify = (\<lambda>_ _ _. True), FastAggregateVerify = (\<lambda>_ _ _. True),
     AggregateSignatures = (\<lambda>_. 0), MultipleSignaturesOK = (\<lambda>_. True) \<rparr>"

definition candidateItems :: "ValidatorItem list" where
  "candidateItems = [candidateItem 1 1, candidateItem 2 3, candidateItem 3 0, candidateItem 4 2]"

theorem election_takes_top_witness:
  "getTopValidatorsByVotingPower plainCrypto candidateItems 2 = Inr ([2, 4], [300000000, 200000000], [[], []]) \<and>
    (\<exists>items rest. mset (filter (\<lambda>v. votingPower v > 0) candidateItems) = mset items + mset rest \<and> length items = 2 \<and>
      map itemAddress items = [2, 4])"
proof -
  have v: "getTopValidatorsByVotingPower plainCrypto candidateItems 2 = Inr ([2, 4], [300000000, 200000000], [[], []])" by code_simp
  have n: "length (filter (\<lambda>v. votingPower v > 0) candidateItems) = 3" by code_simp
  have "sint (word_of_int 2 :: u64) = 2" by simp
  from election_takes_top [OF this, of plainCrypto candidateItems] v n show ?thesis by fastforce
qed

end
