(* ===== verification/Preparation.thy ===== *)
theory Preparation
  imports Finality Fork_Id Frequency
begin

text \<open>
  Preparing and sealing a header (\<open>Prepare\<close>, \<open>prepareValidators\<close>, \<open>prepareTurnLength\<close>, \<open>Seal\<close>, \<open>Delay\<close> of
  \<open>consensus/parlia/parlia.go\<close>, with \<open>bohrFork.go\<close> and \<open>lubanFork.go\<close>) and the checks of the epoch data by a
  verifying node (\<open>verifyValidators\<close>, \<open>verifyTurnLength\<close>).

  The answers of the contracts are the parameter \<open>contracts\<close>: functions of the block whose state is asked. The waiting of \<open>Seal\<close> is
  not modelled; the sealed header is what it delivers when it is not stopped.
\<close>

section \<open>Contract answers\<close>

record contracts =
  miningValidators :: "hash \<Rightarrow> (address list \<times> blskey list) result"
  validatorsBeforeLuban :: "bool \<Rightarrow> hash \<Rightarrow> address list result"
  turnLengthOf :: "hash \<Rightarrow> int option result"
  totalDelegated :: "address \<Rightarrow> u64 \<Rightarrow> int result"

text \<open>\<open>onParent\<close> tells whether the state passed in gives access to the state of the parent; otherwise the call goes through the node's API.
  Both answer from the state of the same block.\<close>

definition getCurrentValidatorsBeforeLuban ::
  "contracts \<Rightarrow> ChainConfig \<Rightarrow> chain_reader \<Rightarrow> bool \<Rightarrow> hash \<Rightarrow> int option \<Rightarrow> address list result" where
  "getCurrentValidatorsBeforeLuban K cfg chain onParent blockHash blockNum =
     (if onParent \<and> GetHeader chain blockHash (bigUint64 blockNum) = None then Inl (ErrMsg ''parent not found'')
      else validatorsBeforeLuban K (IsEuler cfg blockNum) blockHash)"

definition getCurrentValidators ::
  "contracts \<Rightarrow> ChainConfig \<Rightarrow> chain_reader \<Rightarrow> bool \<Rightarrow> hash \<Rightarrow> int option \<Rightarrow> (address list \<times> (address \<Rightarrow> blskey option)) result" where
  "getCurrentValidators K cfg chain onParent blockHash blockNum =
     (if \<not> IsLuban cfg blockNum
      then bindE (getCurrentValidatorsBeforeLuban K cfg chain onParent blockHash blockNum) (\<lambda>vs. Inr (vs, \<lambda>_. None))
      else if onParent \<and> GetHeader chain blockHash (bigUint64 blockNum) = None then Inl (ErrMsg ''parent not found'')
      else bindE (miningValidators K blockHash) (\<lambda>(valSet, voteAddrSet).
        if length voteAddrSet < length valSet then Inl Panic
        else Inr (valSet, map_of (rev (zip valSet voteAddrSet)))))"

definition getTurnLength :: "crypto \<Rightarrow> contracts \<Rightarrow> ChainConfig \<Rightarrow> chain_reader \<Rightarrow> Header \<Rightarrow> u8 result" where
  "getTurnLength C K cfg chain header =
     (case GetHeaderByHash chain (ParentHash header) of
        None \<Rightarrow> Inl (ErrMsg ''parent not found'')
      | Some parent \<Rightarrow>
          if IsBohr cfg (Number parent) (Time parent)
          then bindE (turnLengthOf K (Hash C parent)) (\<lambda>t. case t of
              None \<Rightarrow> Inl (ErrMsg ''unexpected error when getTurnLengthFromContract'')
            | Some n \<Rightarrow> Inr (word_of_int n))
          else Inr defaultTurnLength)"

section \<open>Writing the epoch data\<close>

definition parentNumber :: "Header \<Rightarrow> int option" where
  "parentNumber header = map_option (\<lambda>n. n - 1) (Number header)"

definition prepareValidators :: "crypto \<Rightarrow> contracts \<Rightarrow> Engine \<Rightarrow> chain_reader \<Rightarrow> Header \<Rightarrow> Header engine_act" where
  "prepareValidators C K p chain header =
     bindA (epochLength C p chain header []) (\<lambda>e.
     bindA (liftA (modC (numOf header) e)) (\<lambda>r.
       if r \<noteq> 0 then retA header
       else liftA (bindE (getCurrentValidators K (chainConfig p) chain False (ParentHash header) (parentNumber header))
         (\<lambda>(newValidators, voteAddressMap). appendValidators (chainConfig p) newValidators voteAddressMap header))))"

definition prepareTurnLength :: "crypto \<Rightarrow> contracts \<Rightarrow> Engine \<Rightarrow> chain_reader \<Rightarrow> Header \<Rightarrow> Header engine_act" where
  "prepareTurnLength C K p chain header =
     bindA (epochLength C p chain header []) (\<lambda>e.
     bindA (liftA (modC (numOf header) e)) (\<lambda>r.
       if r \<noteq> 0 \<or> \<not> IsBohr (chainConfig p) (Number header) (Time header) then retA header
       else liftA (bindE (getTurnLength C K (chainConfig p) chain header) (\<lambda>t.
         Inr (header\<lparr> Extra := Extra header @ [t] \<rparr>)))))"

section \<open>Checking the epoch data\<close>

definition verifyValidators :: "crypto \<Rightarrow> contracts \<Rightarrow> Engine \<Rightarrow> chain_reader \<Rightarrow> bool \<Rightarrow> Header \<Rightarrow> unit engine_act" where
  "verifyValidators C K p chain onParent header =
     bindA (epochLength C p chain header []) (\<lambda>e.
     bindA (liftA (modC (numOf header) e)) (\<lambda>r.
       if r \<noteq> 0 then retA ()
       else liftA (bindE (getCurrentValidators K (chainConfig p) chain onParent (ParentHash header) (parentNumber header))
         (\<lambda>(newValidators, voteAddressMap).
           if IsLuban (chainConfig p) (Number header) \<and> length (Extra header) \<le> extraVanity then Inl Panic
           else if IsLuban (chainConfig p) (Number header) \<and> of_nat (length newValidators) \<noteq> Extra header ! extraVanity
           then Inl errMismatchingEpochValidators
           else bindE (validatorBytes (chainConfig p) (Number header) (sort newValidators) voteAddressMap) (\<lambda>validatorsBytes.
             bindE (getValidatorBytesFromHeader header (chainConfig p) e) (\<lambda>b.
               if b \<noteq> validatorsBytes then Inl errMismatchingEpochValidators else Inr ()))))))"

definition verifyTurnLength :: "crypto \<Rightarrow> contracts \<Rightarrow> Engine \<Rightarrow> chain_reader \<Rightarrow> Header \<Rightarrow> unit engine_act" where
  "verifyTurnLength C K p chain header =
     bindA (epochLength C p chain header []) (\<lambda>e.
     bindA (liftA (modC (numOf header) e)) (\<lambda>r.
       if r \<noteq> 0 \<or> \<not> IsBohr (chainConfig p) (Number header) (Time header) then retA ()
       else liftA (bindE (parseTurnLength header (chainConfig p) e) (\<lambda>fromHeader. case fromHeader of
           None \<Rightarrow> Inl errMismatchingEpochTurnLength
         | Some t \<Rightarrow> bindE (getTurnLength C K (chainConfig p) chain header) (\<lambda>t'.
             if t' = t then Inr () else Inl errMismatchingEpochTurnLength)))))"

section \<open>Prepare\<close>

text \<open>The stake frequencies from Snake8 on. A failed request leaves a nil stake; a failed calculation leaves empty data. The result is
  written into the snapshot object, which the cache shares.\<close>

definition prepareFrequency :: "contracts \<Rightarrow> u64 \<Rightarrow> Snapshot \<Rightarrow> Snapshot engine_act" where
  "prepareFrequency K number snap st =
     (let stakes = (\<lambda>addr. case totalDelegated K addr (number - 1) of Inr x \<Rightarrow> Some x | Inl _ \<Rightarrow> None) in
      case calcFrequencyRLP snap stakes of
        Inl Panic \<Rightarrow> (Inl Panic, st)
      | r \<Rightarrow>
          (let freqRlp = (case r of Inr b \<Rightarrow> b | Inl _ \<Rightarrow> []) in
           (Inr (snap\<lparr> FrequencyRLP := freqRlp \<rparr>), writeCached (sHash snap) (\<lambda>s. s\<lparr> FrequencyRLP := freqRlp \<rparr>) st)))"

definition padVanity :: "bytes \<Rightarrow> bytes" where
  "padVanity extra = (if length extra < extraVanity - nextForkHashSize
     then extra @ replicate (extraVanity - nextForkHashSize - length extra) 0 else extra)"

definition Prepare :: "crypto \<Rightarrow> contracts \<Rightarrow> Engine \<Rightarrow> chain_reader \<Rightarrow> u64 \<Rightarrow> u64 \<Rightarrow> Header \<Rightarrow> Header engine_act" where
  "Prepare C K p chain genesisTime now header0 =
     (let header = header0\<lparr> Coinbase := val p, Nonce := 0 \<rparr>; number = numOf header in
      case GetHeader chain (ParentHash header) (number - 1) of
        None \<Rightarrow> liftA (Inl ErrUnknownAncestor)
      | Some parent \<Rightarrow>
          bindA (parentSnapshot C p chain header [] None) (\<lambda>snap0.
          bindA (liftA (isSnake8Enabled (chainConfig p) chain header)) (\<lambda>isSnake8.
          bindA (if isSnake8 then prepareFrequency K number snap0 else retA snap0) (\<lambda>snap.
          bindA (liftA (CalcDifficulty C snap (val p))) (\<lambda>difficulty.
          if difficulty \<noteq> diffInTurn \<and> number = 1 then liftA (Inl (ErrMsg ''not your turn for block producing''))
          else
            (let header = header\<lparr> Difficulty := Some difficulty, Extra := padVanity (Extra header) \<rparr> in
             bindA (liftA (blockTimeForRamanujanFork C (rand p) now (chainConfig p) (val p) snap header parent)) (\<lambda>blockTime.
             let header = setBlockTime (chainConfig p) blockTime header;
                 header = header\<lparr> Extra := take (extraVanity - nextForkHashSize) (Extra header)
                   @ NextForkHash (chainConfig p) (genesisHash p) genesisTime number (Time header) \<rparr>
             in bindA (prepareValidators C K p chain header) (\<lambda>header.
                bindA (prepareTurnLength C K p chain header) (\<lambda>header.
                bindA (liftA (isSnake8Enabled (chainConfig p) chain header)) (\<lambda>isSnake8.
                  retA (appendSeal (appendFrequency isSnake8 (Time parent) (FrequencyRLP snap) header))))))))))))"

section \<open>Seal\<close>

text \<open>\<open>copy\<close> of the signature into the last bytes of the extra data.\<close>

definition writeSeal :: "bytes \<Rightarrow> Header \<Rightarrow> Header result" where
  "writeSeal sig header =
     (if length (Extra header) < extraSeal then Inl Panic
      else
        (let start = length (Extra header) - extraSeal; n = min (length sig) extraSeal in
         Inr (header\<lparr> Extra := take start (Extra header) @ take n sig @ drop (start + n) (Extra header) \<rparr>)))"

text \<open>\<open>signFn\<close> signs the bytes of the header; \<open>None\<close> is a seal that is not delivered, because the validator has signed recently or
  signing failed. An attestation that cannot be assembled is left out.\<close>

definition Seal :: "crypto \<Rightarrow> (bytes \<Rightarrow> bytes option) \<Rightarrow> Engine \<Rightarrow> chain_reader \<Rightarrow> Header \<Rightarrow> Header option engine_act" where
  "Seal C signFn p chain header =
     (if numOf header = 0 then liftA (Inl errUnknownBlock)
      else bindA (parentSnapshot C p chain header [] (Some header)) (\<lambda>snap.
        if gm_get (Validators snap) (val p) = None then liftA (Inl (errUnauthorizedValidator (val p)))
        else if SignRecently snap (val p) then retA None
        else bindA (recoverWith header (assembleVoteAttestation C p chain header)) (\<lambda>header.
          case EncodeSigHeader header (ChainID (chainConfig p)) of
            Inl e \<Rightarrow> liftA (Inl Panic)
          | Inr b \<Rightarrow>
              (case signFn b of
                 None \<Rightarrow> retA None
               | Some sig \<Rightarrow> liftA (bindE (writeSeal sig header) (\<lambda>sealed. Inr (Some sealed)))))))"

text \<open>\<open>Delay\<close>: the time left until the block is due, at most the block interval (half of it for the last block of a turn), less the time
  reserved for finishing the block. Durations are in nanoseconds; \<open>None\<close> is the nil duration of a failed call.\<close>

definition Delay ::
  "crypto \<Rightarrow> (int \<Rightarrow> int) \<Rightarrow> int \<Rightarrow> Engine \<Rightarrow> chain_reader \<Rightarrow> Header \<Rightarrow> int \<Rightarrow> int option engine_act" where
  "Delay C Int63n nowNano p chain header leftOver =
     recoverWith None (bindA (parentSnapshot C p chain header [] (Some header)) (\<lambda>snap.
       liftA (bindE (delayForRamanujanFork Int63n nowNano (chainConfig p) snap header) (\<lambda>delay.
         bindE (lastBlockInOneTurn snap (numOf header)) (\<lambda>isLast.
           let interval = sint (BlockInterval snap) * 1000000;
               timeForMining = (if isLast then interval div 2 else interval);
               delay = (if delay > timeForMining then timeForMining else delay)
           in Inr (Some (if leftOver \<ge> interval then delay else if leftOver \<ge> delay then 0 else delay - leftOver)))))))"

section \<open>Prepared epoch data is accepted\<close>

lemma getCurrentValidators_parent:
  assumes "GetHeader chain x (bigUint64 n) \<noteq> None"
  shows "getCurrentValidators K cfg chain b x n = getCurrentValidators K cfg chain False x n"
  using assms by (auto simp: getCurrentValidators_def getCurrentValidatorsBeforeLuban_def)

lemma validatorEntries_length: "validatorEntries vm vs = Inr b \<Longrightarrow> length b = length vs * 68"
  by (induction vs arbitrary: b) (auto simp: bindE_eq_Inr split: option.splits)

text \<open>What \<open>prepareValidators\<close> and \<open>prepareTurnLength\<close> append on an epoch block.\<close>

definition epochData :: "crypto \<Rightarrow> contracts \<Rightarrow> ChainConfig \<Rightarrow> chain_reader \<Rightarrow> Header \<Rightarrow> address list \<Rightarrow> bytes \<Rightarrow> bytes \<Rightarrow> bool" where
  "epochData C K cfg chain h vs b t \<longleftrightarrow>
     (\<exists>vm. getCurrentValidators K cfg chain False (ParentHash h) (parentNumber h) = Inr (vs, vm) \<and>
       validatorBytes cfg (Number h) (sort vs) vm = Inr b) \<and>
     (if IsBohr cfg (Number h) (Time h) then \<exists>x. getTurnLength C K cfg chain h = Inr x \<and> t = [x] else t = [])"

lemma prepare_epoch:
  assumes "prepareValidators C K p chain h st = (Inr h1, st1)" "prepareTurnLength C K p chain h1 st1 = (Inr h2, st2)"
    and "epochLength C p chain h [] st = (Inr e, st')" "\<And>x. fst (epochLength C p chain (h\<lparr> Extra := x \<rparr>) [] st1) = Inr e" "e \<noteq> 0" "numOf h mod e = 0"
  obtains vs b t where "epochData C K (chainConfig p) chain h vs b t"
    "h2 = h\<lparr> Extra := Extra h @ (if IsLuban (chainConfig p) (Number h) then [of_nat (length vs)] else []) @ b @ t \<rparr>"
proof -
  from assms(1,3,5,6) obtain vs vm b where 1: "getCurrentValidators K (chainConfig p) chain False (ParentHash h) (parentNumber h) = Inr (vs, vm)"
    "validatorBytes (chainConfig p) (Number h) (sort vs) vm = Inr b"
    "h1 = h\<lparr> Extra := Extra h @ (if IsLuban (chainConfig p) (Number h) then [of_nat (length vs)] else []) @ b \<rparr>"
    by (auto simp: prepareValidators_def bindA_eq_Inr bindE_eq_Inr appendValidators_def dest!: sym [of "Inr _"])
  obtain st3 where e: "epochLength C p chain h1 [] st1 = (Inr e, st3)"
    using assms(4) unfolding 1(3) by (metis prod.collapse)
  have same: "Number h1 = Number h" "Time h1 = Time h" "ParentHash h1 = ParentHash h" "Extra h1 = Extra h @ (if IsLuban (chainConfig p) (Number h) then [of_nat (length vs)] else []) @ b"
    using 1(3) by simp_all
  have g: "getTurnLength C K (chainConfig p) chain h1 = getTurnLength C K (chainConfig p) chain h" by (simp add: getTurnLength_def same)
  from assms(2) have "h2 = h1 \<and> \<not> IsBohr (chainConfig p) (Number h) (Time h) \<or>
      (\<exists>x. getTurnLength C K (chainConfig p) chain h = Inr x \<and> h2 = h1\<lparr> Extra := Extra h1 @ [x] \<rparr> \<and> IsBohr (chainConfig p) (Number h) (Time h))"
    using assms(5,6) by (auto simp: prepareTurnLength_def bindA_def e bindE_eq_Inr same g retA_def split: if_splits dest!: sym [of "Inr _"])
  then show thesis
  proof (elim disjE exE conjE)
    assume "h2 = h1" "\<not> IsBohr (chainConfig p) (Number h) (Time h)"
    with 1 show thesis by (intro that [of vs b "[]"]) (auto simp: epochData_def)
  next
    fix x assume "getTurnLength C K (chainConfig p) chain h = Inr x" "h2 = h1\<lparr> Extra := Extra h1 @ [x] \<rparr>"
      "IsBohr (chainConfig p) (Number h) (Time h)"
    with 1 show thesis by (intro that [of vs b "[x]"]) (auto simp: epochData_def)
  qed
qed

text \<open>Every coherent engine computes the epoch length of the reference snapshot, whatever the extra data.\<close>

lemma epochLength_total:
  assumes "soundChain C p H chain" "Snake8Time (chainConfig p) = None" "engineOK C p H chain st" "numOf h \<noteq> 0"
    and "GetHeader chain (ParentHash h) (numOf h - 1) = Some parent" "GetHeaderByHash chain (ParentHash h) = Some parent"
    and "refSnapshot C p chain (unat (numOf h - 1)) (ParentHash h) = Inr s"
  obtains st' where "epochLength C p chain (h\<lparr> Extra := x \<rparr>) [] st = (Inr (EpochLength s), st')" "engineOK C p H chain st'"
proof -
  let ?h = "h\<lparr> Extra := x \<rparr>" and ?m = "snapshot C p chain (numOf h - 1) (ParentHash h) [] False None"
  have "isSnake8Enabled (chainConfig p) chain ?h = Inr False"
    using assms(2,6) by (simp add: isSnake8Enabled_def IsSnake8_def isTimestampForked_def)
  moreover obtain st' where m: "?m st = (Inr s, st')"
    using snapshot_ok(2) [OF assms(1,5,3), of None s] assms(7) by (metis prod.collapse)
  ultimately have "epochLength C p chain ?h [] st = (Inr (EpochLength s), st')"
    using assms(4) by (simp add: epochLength_def parentSnapshot_def) (simp add: bindA_def retA_def)
  moreover have "engineOK C p H chain st'" using snapshot_ok(1) [OF assms(1,5,3), of None] m by simp
  ultimately show thesis by (rule that)
qed

lemma verify_epoch_data:
  assumes e: "e \<noteq> 0" "numOf h mod e = 0" and luban: "IsLuban (chainConfig p) (Number h)" "IsBohr (chainConfig p) (Number h) (Time h)"
    and data: "epochData C K (chainConfig p) chain h vs b t" "vs \<noteq> []" "length vs < 256"
    and parent: "GetHeader chain (ParentHash h) (bigUint64 (parentNumber h)) \<noteq> None"
    and ext: "length (Extra h) = extraVanity" "length seal = extraSeal"
    and h3: "h3 = h\<lparr> Extra := Extra h @ [of_nat (length vs)] @ b @ t @ rest @ seal \<rparr>"
    and ep: "fst (epochLength C p chain h3 [] st) = Inr e"
  shows "fst (verifyValidators C K p chain onParent h3 st) = Inr ()" "fst (verifyTurnLength C K p chain h3 st) = Inr ()"
proof -
  obtain st' where ep': "epochLength C p chain h3 [] st = (Inr e, st')" using ep by (metis prod.collapse)
  obtain vm x where vm: "getCurrentValidators K (chainConfig p) chain onParent (ParentHash h) (parentNumber h) = Inr (vs, vm)"
    "validatorBytes (chainConfig p) (Number h) (sort vs) vm = Inr b" and x: "getTurnLength C K (chainConfig p) chain h = Inr x" "t = [x]"
    using data(1) luban(2) getCurrentValidators_parent [OF parent, of K "chainConfig p" onParent] by (auto simp: epochData_def)
  have len: "length b = length vs * 68" using vm(2) luban(1) validatorEntries_length by (force simp: validatorBytes_def)
  have same: "Number h3 = Number h" "Time h3 = Time h" "ParentHash h3 = ParentHash h" by (simp_all add: h3)
  have gv: "getValidatorBytesFromHeader h3 (chainConfig p) e = Inr b"
    by (rule getValidatorBytes_Luban [where vanity = "Extra h" and n = "length vs" and tail = "t @ rest @ seal"])
      (use e luban data ext len x in \<open>simp_all add: h3\<close>)
  have first: "Extra h3 ! extraVanity = of_nat (length vs)" using ext(1) by (simp add: h3 nth_append)
  show "fst (verifyValidators C K p chain onParent h3 st) = Inr ()"
    using ep' e vm first gv ext luban
    by (simp add: verifyValidators_def bindA_def same parentNumber_def) (simp add: h3 liftA_def)
  have "unat (Extra h3 ! extraVanity) = length vs" using first data(3) by (simp add: unat_of_nat_small)
  moreover have "Extra h3 ! (extraVanity + 1 + length vs * 68) = x" using ext(1) len x(2) by (simp add: h3 nth_append)
  ultimately have "parseTurnLength h3 (chainConfig p) e = Inr (Some x)"
    using e luban len ext x(2) same by (simp add: parseTurnLength_def Let_def) (simp add: h3)
  then show "fst (verifyTurnLength C K p chain h3 st) = Inr ()"
    using ep' e luban x by (simp add: verifyTurnLength_def bindA_def same getTurnLength_def liftA_def)
qed

text \<open>C34. Epoch data that a producer writes is accepted by every verifier. If \<open>prepareValidators\<close> and \<open>prepareTurnLength\<close> have extended the vanity of
  a header after Bohr, and anything (an attestation) and the seal follow, then \<open>verifyValidators\<close> and \<open>verifyTurnLength\<close> accept the
  header on every node with a coherent engine and the same contract answers, whether they read the contract through the
  parent state or through the API.\<close>

theorem prepared_epoch_accepted:
  assumes "soundChain C p H chain" "Snake8Time (chainConfig p) = None" "engineOK C p H chain st" "engineOK C p H chain st'"
    and "Number h = Some n" "0 < n" "n < 2 ^ 64" "IsLuban (chainConfig p) (Number h)" "IsBohr (chainConfig p) (Number h) (Time h)"
    and "GetHeader chain (ParentHash h) (numOf h - 1) = Some parent" "GetHeaderByHash chain (ParentHash h) = Some parent"
    and "\<And>vs vm. getCurrentValidators K (chainConfig p) chain False (ParentHash h) (parentNumber h) = Inr (vs, vm) \<Longrightarrow>
      vs \<noteq> [] \<and> length vs < 256"
    and "prepareValidators C K p chain h st = (Inr h1, st1)" "prepareTurnLength C K p chain h1 st1 = (Inr h2, st2)"
    and "length (Extra h) = extraVanity" "length seal = extraSeal"
  shows "fst (verifyValidators C K p chain onParent (h2\<lparr> Extra := Extra h2 @ rest @ seal \<rparr>) st') = Inr () \<and>
    fst (verifyTurnLength C K p chain (h2\<lparr> Extra := Extra h2 @ rest @ seal \<rparr>) st') = Inr ()"
proof -
  have "uint (numOf h) = n" using uint_bigUint64 [of n] assms(5-7) by simp
  then have nz: "numOf h \<noteq> 0" using assms(6) by auto
  have pn: "bigUint64 (parentNumber h) = numOf h - 1" using assms(5,6) by (simp add: parentNumber_def)
  obtain e where e: "epochLength C p chain h [] st = (Inr e, st1)" "e \<noteq> 0"
    using assms(13) by (auto simp: prepareValidators_def bindA_eq_Inr retA_def modC_def liftA_def split: if_splits)
  obtain s where s: "refSnapshot C p chain (unat (numOf h - 1)) (ParentHash h) = Inr s" "e = EpochLength s" "engineOK C p H chain st1"
    using epochLength_ref [OF assms(1-3) nz assms(10) e(1)] .
  have total: "fst (epochLength C p chain (h\<lparr> Extra := x \<rparr>) [] w) = Inr e" if "engineOK C p H chain w" for w x
    using epochLength_total [OF assms(1,2) that nz assms(10,11) s(1)] s(2) by (metis fst_conv)
  show ?thesis
  proof (cases "numOf h mod e = 0")
    case True
    obtain vs b t where d: "epochData C K (chainConfig p) chain h vs b t"
      "h2 = h\<lparr> Extra := Extra h @ (if IsLuban (chainConfig p) (Number h) then [of_nat (length vs)] else []) @ b @ t \<rparr>"
      using prepare_epoch [OF assms(13,14) e(1) total [OF s(3)] e(2) True] .
    let ?h3 = "h\<lparr> Extra := Extra h @ [of_nat (length vs)] @ b @ t @ rest @ seal \<rparr>"
    have vs: "vs \<noteq> []" "length vs < 256" using d(1) assms(12) by (auto simp: epochData_def)
    note v = verify_epoch_data [where rest = rest, OF e(2) True assms(8,9) d(1) vs _ assms(15,16) refl total [OF assms(4)]]
    have "h2\<lparr> Extra := Extra h2 @ rest @ seal \<rparr> = ?h3" using d(2) assms(8) by simp
    then show ?thesis using v assms(10) pn by simp
  next
    case False
    have "h1 = h" using assms(13) e False by (simp add: prepareValidators_def bindA_def retA_def)
    obtain w where "epochLength C p chain h [] st1 = (Inr e, w)" using total [OF s(3), of "Extra h"] by (cases "epochLength C p chain h [] st1") auto
    then have "h2 = h" using assms(14) False e(2) \<open>h1 = h\<close> by (simp add: prepareTurnLength_def bindA_def retA_def)
    moreover obtain w' where "epochLength C p chain (h\<lparr> Extra := Extra h @ rest @ seal \<rparr>) [] st' = (Inr e, w')"
      using total [OF assms(4), of "Extra h @ rest @ seal"] by (cases "epochLength C p chain (h\<lparr> Extra := Extra h @ rest @ seal \<rparr>) [] st'") auto
    ultimately show ?thesis using False e(2) by (simp add: verifyValidators_def verifyTurnLength_def bindA_def retA_def)
  qed
qed

definition firstChain :: chain_reader where
  "firstChain = emptyChain\<lparr> Config := demoConfig,
     GetHeader := (\<lambda>x n. if x = 5 \<and> n = 0 then Some demoGenesis else None),
     GetHeaderByNumber := (\<lambda>n. if n = 0 then Some demoGenesis else None),
     GetHeaderByHash := (\<lambda>x. if x = 5 then Some demoGenesis else None) \<rparr>"

definition firstEngine :: Engine where
  "firstEngine = demoEngine\<lparr> defaultEpochLength := 1 \<rparr>"

definition firstContracts :: contracts where
  "firstContracts = \<lparr> miningValidators = (\<lambda>_. Inl errNotFound), validatorsBeforeLuban = (\<lambda>_ _. Inr [9, 7]),
     turnLengthOf = (\<lambda>_. Inr None), totalDelegated = (\<lambda>_ _. Inr 1) \<rparr>"

definition firstHeader :: Header where
  "firstHeader = demoBlock\<lparr> Extra := replicate 32 0 \<rparr>"

lemma first_sound: "soundChain demoCrypto firstEngine {demoGenesis} firstChain"
proof -
  have "headersOf firstChain = {demoGenesis}" unfolding headersOf_def firstChain_def by (auto split: if_splits)
  then show ?thesis unfolding soundChain_def using demo_turn(1)
    by (auto simp: firstChain_def firstEngine_def demoEngine_def split: if_splits)
      (auto simp: demoGenesis_def)
qed

lemma first_state: "engineOK demoCrypto firstEngine {demoGenesis} firstChain (NewState (\<lambda>_. None))"
  by (rule engineOK_new) (auto simp: firstChain_def FullImmutabilityThreshold_def split: if_splits)

lemma first_snapshot: "refSnapshot demoCrypto firstEngine firstChain 0 x = Inr (demoSnap\<lparr> EpochLength := 1 \<rparr>)"
proof -
  have "parseValidators demoGenesis demoConfig 1 = Inr ([7], [])" by code_simp
  then show ?thesis
    by (simp add: checkpointSnapshot_def checkpointInfo_def firstChain_def firstEngine_def demoEngine_def parseTurnLength_def newSnapshot_def
      defaultBlockInterval_def defaultTurnLength_def demoSnap_def)
qed

lemma first_fields [simp]: "Number firstHeader = Some 1" "ParentHash firstHeader = 5" "Time firstHeader = 3" "chainConfig firstEngine = demoConfig"
  by (simp_all add: firstHeader_def firstEngine_def demoEngine_def)

lemma first_answers:
  "getCurrentValidators firstContracts demoConfig firstChain False (ParentHash firstHeader) (parentNumber firstHeader) = Inr ([9, 7], \<lambda>_. None)"
  "getTurnLength demoCrypto firstContracts demoConfig firstChain h1 = (if ParentHash h1 = 5 then Inr 1 else Inl (ErrMsg ''parent not found''))"
  by (simp_all add: getCurrentValidators_def getCurrentValidatorsBeforeLuban_def getTurnLength_def parentNumber_def
      firstContracts_def firstChain_def defaultTurnLength_def)

lemma first_prepared:
  "\<exists>st1 st2. prepareValidators demoCrypto firstContracts firstEngine firstChain firstHeader (NewState (\<lambda>_. None)) =
      (Inr (firstHeader\<lparr> Extra := Extra firstHeader @ [2] @ b \<rparr>), st1) \<and>
    prepareTurnLength demoCrypto firstContracts firstEngine firstChain (firstHeader\<lparr> Extra := Extra firstHeader @ [2] @ b \<rparr>) st1 =
      (Inr (firstHeader\<lparr> Extra := Extra firstHeader @ [2] @ b @ [1] \<rparr>), st2)"
  if "b = addrBytes 7 @ replicate 48 0 @ addrBytes 9 @ replicate 48 0"
proof -
  have ep: "\<exists>w'. epochLength demoCrypto firstEngine firstChain (firstHeader\<lparr> Extra := x \<rparr>) [] w = (Inr 1, w') \<and>
      engineOK demoCrypto firstEngine {demoGenesis} firstChain w'"
    if "engineOK demoCrypto firstEngine {demoGenesis} firstChain w" for x w
    using epochLength_total [OF first_sound _ that, of firstHeader demoGenesis "demoSnap\<lparr> EpochLength := 1 \<rparr>" x]
      first_snapshot by (auto simp: firstChain_def demoConfig_def lubanConfig_def zeroChainConfig_def)
  obtain st1 where 1: "epochLength demoCrypto firstEngine firstChain firstHeader [] (NewState (\<lambda>_. None)) = (Inr 1, st1)"
    "engineOK demoCrypto firstEngine {demoGenesis} firstChain st1"
    using ep [OF first_state, of "Extra firstHeader"] by auto
  obtain st2 where 2: "epochLength demoCrypto firstEngine firstChain (firstHeader\<lparr> Extra := Extra firstHeader @ [2] @ b \<rparr>) [] st1 = (Inr 1, st2)"
    using ep [OF 1(2)] by blast
  have "IsOnLuban demoConfig (Some 1)" "sort [9, 7 :: address] = [7, 9]" "blsBytes 0 = replicate 48 0" by code_simp+
  then have "appendValidators demoConfig [9, 7] (\<lambda>_. None) firstHeader = Inr (firstHeader\<lparr> Extra := Extra firstHeader @ [2] @ b \<rparr>)"
    by (simp add: appendValidators_def validatorBytes_def that)
  with 1 2 show ?thesis using first_answers
    by (intro exI [of _ st1] exI [of _ st2]) (simp add: prepareValidators_def prepareTurnLength_def bindA_def liftA_def)
qed

theorem prepared_epoch_accepted_witness:
  "\<exists>h2. Extra h2 = replicate 32 0 @ [2] @ addrBytes 7 @ replicate 48 0 @ addrBytes 9 @ replicate 48 0 @ [1] \<and>
    fst (verifyValidators demoCrypto firstContracts firstEngine firstChain True (h2\<lparr> Extra := Extra h2 @ [] @ replicate 65 0 \<rparr>) (NewState (\<lambda>_. None))) = Inr () \<and>
    fst (verifyTurnLength demoCrypto firstContracts firstEngine firstChain (h2\<lparr> Extra := Extra h2 @ [] @ replicate 65 0 \<rparr>) (NewState (\<lambda>_. None))) = Inr ()"
proof -
  obtain st1 st2 h1 h2 where pr: "prepareValidators demoCrypto firstContracts firstEngine firstChain firstHeader (NewState (\<lambda>_. None)) = (Inr h1, st1)"
    "prepareTurnLength demoCrypto firstContracts firstEngine firstChain h1 st1 = (Inr h2, st2)"
    and x: "Extra h2 = Extra firstHeader @ [2] @ addrBytes 7 @ replicate 48 0 @ addrBytes 9 @ replicate 48 0 @ [1]"
    using first_prepared [OF refl] by fastforce
  have "fst (verifyValidators demoCrypto firstContracts firstEngine firstChain True (h2\<lparr> Extra := Extra h2 @ [] @ replicate 65 0 \<rparr>) (NewState (\<lambda>_. None))) = Inr () \<and>
    fst (verifyTurnLength demoCrypto firstContracts firstEngine firstChain (h2\<lparr> Extra := Extra h2 @ [] @ replicate 65 0 \<rparr>) (NewState (\<lambda>_. None))) = Inr ()"
    by (rule prepared_epoch_accepted [OF first_sound _ first_state first_state _ _ _ _ _ _ _ _ pr, of 1 demoGenesis])
      (use first_answers(1) in \<open>simp_all add: firstChain_def\<close>, simp_all add: demoConfig_def lubanConfig_def zeroChainConfig_def firstHeader_def)
  then show ?thesis using x by (auto simp: firstHeader_def)
qed

end
