(* ===== verification/Validator_Changes.thy ===== *)
theory Validator_Changes
  imports Turns
begin

text \<open>
  When the validator set changes: \<open>nexValidatorsChangeBlock\<close> against what \<open>apply\<close> does. No header before that block changes the
  validators or the turn length, and the header of that block installs those of its checkpoint header.
\<close>

section \<open>One header\<close>

lemma updateIntervals_EpochLength:
  "EpochLength s' = EpochLength s \<Longrightarrow> EpochLength (updateIntervals d cfg h s') = EpochLength (updateIntervals d cfg h s)"
  by (simp add: updateIntervals_def Let_def)

lemma recordSigner_EpochLength: "recordSigner cfg h v s = Inr s' \<Longrightarrow> EpochLength s' = EpochLength s"
  by (auto simp: recordSigner_def Let_def split: if_splits option.splits)

text \<open>A key that is absent stays absent until the header of that number.\<close>

lemma get_filter_None: "gm_get m k = None \<Longrightarrow> gm_get (filter P m) k = None"
  by (auto simp: map_of_eq_None_iff)

lemma applyHeader_steps:
  assumes "applyHeader C d cfg chain parents h s c = (Inr s', c')"
  obtains s2 where "Validators s2 = Validators s" "TurnLength s2 = TurnLength s"
    "EpochLength s2 = EpochLength (updateIntervals d cfg h s)"
    "\<And>k. k \<noteq> numOf h \<Longrightarrow> gm_get (Recents s) k = None \<Longrightarrow> gm_get (Recents s2) k = None"
    "(if numOf h > 0 then
        bindE (modC (numOf h) (EpochLength s)) (\<lambda>r.
          if r = minerHistoryCheckLen s then switchValidators C cfg chain parents h (EpochLength s) s2 else Inr s2)
      else Inr s2) = Inr s'"
proof -
  let ?fin = "\<lambda>s2. if numOf h > 0 then
      bindE (modC (numOf h) (EpochLength s2)) (\<lambda>r.
        if r = minerHistoryCheckLen (updateIntervals d cfg h s2)
        then switchValidators C cfg chain parents h (EpochLength s2) (updateIntervals d cfg h s2)
        else Inr (updateIntervals d cfg h s2))
    else Inr (updateIntervals d cfg h s2)"
  from assms obtain v where "bindE (checkSigner cfg h v (dropOldHistory (numOf h) s)) (\<lambda>_.
      bindE (updateAttestation h cfg (dropOldHistory (numOf h) s)) (\<lambda>s1.
      bindE (recordSigner cfg h v s1) ?fin)) = Inr s'"
    by (auto simp: applyHeader_def Let_def bindA_eq_Inr)
  then obtain s1 s2 where s1: "updateAttestation h cfg (dropOldHistory (numOf h) s) = Inr s1" and s2: "recordSigner cfg h v s1 = Inr s2"
    and fin: "?fin s2 = Inr s'"
    by (simp only: bindE_unit_eq_Inr bindE_eq_Inr) blast
  note f = updateAttestation_fields [OF s1] recordSigner_fields(1-4) [OF s2] recordSigner_EpochLength [OF s2]
  have m: "minerHistoryCheckLen (updateIntervals d cfg h s2) = minerHistoryCheckLen s"
    by (rule minerHistoryCheckLen_cong) (simp_all add: f)
  show thesis
  proof (rule that [of "updateIntervals d cfg h s2"])
    show "EpochLength (updateIntervals d cfg h s2) = EpochLength (updateIntervals d cfg h s)"
      by (rule updateIntervals_EpochLength) (simp add: f)
    show "gm_get (Recents (updateIntervals d cfg h s2)) k = None" if "k \<noteq> numOf h" "gm_get (Recents s) k = None" for k
      using that by (auto simp: f update_conv' delete_conv' intro!: get_filter_None)
    have "EpochLength s2 = EpochLength s" by (simp add: f)
    with fin show "(if numOf h > 0 then
        bindE (modC (numOf h) (EpochLength s)) (\<lambda>r.
          if r = minerHistoryCheckLen s then switchValidators C cfg chain parents h (EpochLength s) (updateIntervals d cfg h s2)
          else Inr (updateIntervals d cfg h s2))
      else Inr (updateIntervals d cfg h s2)) = Inr s'" by (simp only: m)
  qed (simp_all add: f)
qed

text \<open>A header that does not change the validators.\<close>

lemma applyHeader_quiet:
  assumes "applyHeader C d cfg chain parents h s c = (Inr s', c')" "numOf h mod EpochLength s \<noteq> minerHistoryCheckLen s"
  shows "Validators s' = Validators s" "TurnLength s' = TurnLength s" "EpochLength s' = EpochLength (updateIntervals d cfg h s)"
    "k \<noteq> numOf h \<Longrightarrow> gm_get (Recents s) k = None \<Longrightarrow> gm_get (Recents s') k = None"
proof -
  obtain s2 where s2: "Validators s2 = Validators s" "TurnLength s2 = TurnLength s" "EpochLength s2 = EpochLength (updateIntervals d cfg h s)"
    "\<And>k. k \<noteq> numOf h \<Longrightarrow> gm_get (Recents s) k = None \<Longrightarrow> gm_get (Recents s2) k = None" "s' = s2"
    using assms by (auto elim!: applyHeader_steps simp: modC_def split: if_splits)
  then show "Validators s' = Validators s" "TurnLength s' = TurnLength s" "EpochLength s' = EpochLength (updateIntervals d cfg h s)"
    "k \<noteq> numOf h \<Longrightarrow> gm_get (Recents s) k = None \<Longrightarrow> gm_get (Recents s') k = None" by simp_all
qed

lemma keys_put: "fst ` set (gm_put k v m) = insert k (fst ` set m)"
  by (simp add: dom_map_of_conv_image_fst [symmetric] update_conv')

lemma keys_newValidatorMap:
  assumes "newValidatorMap l vs ks = Inr m"
  shows "fst ` set m = set vs"
proof -
  have 1: "fst ` set (fold (\<lambda>v. gm_put v x) vs m) = set vs \<union> fst ` set m" for x :: ValidatorInfo and m
    by (induction vs arbitrary: m) (auto simp: keys_put)
  have 2: "fst ` set (fold (\<lambda>(v, k). gm_put v (f k)) vks m) = fst ` set vks \<union> fst ` set m" for f :: "blskey \<Rightarrow> ValidatorInfo" and vks m
    by (induction vks arbitrary: m) (simp_all add: keys_put split: prod.split)
  have "fst ` set (zip vs ks) = set vs" if "length vs \<le> length ks" using map_fst_zip_take [of vs ks] that by (metis list.set_map min.absorb1 take_all_iff order_refl)
  moreover have "m = fold (\<lambda>v. gm_put v \<lparr> Index = 0, InfoVoteAddress = 0 \<rparr>) vs [] \<or>
      length vs \<le> length ks \<and> m = fold (\<lambda>(v, k). gm_put v \<lparr> Index = 0, InfoVoteAddress = k \<rparr>) (zip vs ks) []"
    using assms by (auto simp: newValidatorMap_def split: if_splits)
  ultimately show ?thesis using 1 [of _ "[]"] 2 [of "\<lambda>k. \<lparr> Index = 0, InfoVoteAddress = k \<rparr>" "zip vs ks" "[]"] by (elim disjE) simp_all
qed

lemma keys_setIndexes_set: "fst ` set (setIndexes vs m) = fst ` set m"
  using keys_setIndexes [of vs m] by (metis list.set_map)

lemma installValidators_switch:
  "fst ` set (Validators (installValidators b l n k t m s)) = fst ` set m"
  "TurnLength (installValidators b l n k t m s) = (case t of None \<Rightarrow> TurnLength s | Some x \<Rightarrow> x)"
  by (cases t; cases l; simp add: installValidators_def Let_def keys_setIndexes_set)+

text \<open>A header that changes them.\<close>

definition changedTo :: "crypto \<Rightarrow> ChainConfig \<Rightarrow> chain_reader \<Rightarrow> Header list \<Rightarrow> Header \<Rightarrow> Snapshot \<Rightarrow> Snapshot \<Rightarrow> bool" where
  "changedTo C cfg chain parents header s s' \<longleftrightarrow>
     (\<exists>checkpoint vals keys turn. FindAncientHeader C header (minerHistoryCheckLen s) chain parents = Some checkpoint \<and>
        parseValidators checkpoint cfg (EpochLength s) = Inr (vals, keys) \<and> parseTurnLength checkpoint cfg (EpochLength s) = Inr turn \<and>
        fst ` set (Validators s') = set vals \<and> TurnLength s' = (case turn of None \<Rightarrow> TurnLength s | Some t \<Rightarrow> t))"

lemma switchValidators_changes:
  assumes "switchValidators C cfg chain parents h e s = Inr s'"
    and "IsBohr cfg (Number h) (Time h) \<Longrightarrow> gm_get (Recents s) (- 1 - numOf h div e) = None"
  obtains cp turn vs ks where "FindAncientHeader C h (minerHistoryCheckLen s) chain parents = Some cp"
    "parseTurnLength cp cfg e = Inr turn" "parseValidators cp cfg e = Inr (vs, ks)" "fst ` set (Validators s') = set vs"
    "TurnLength s' = (case turn of None \<Rightarrow> TurnLength s | Some t \<Rightarrow> t)"
proof -
  have new: "\<not> (IsBohr cfg (Number h) (Time h) \<and> gm_get (Recents s) (- 1 - numOf h div e) \<noteq> None)" using assms(2) by auto
  from assms(1) obtain cp turn vs ks m where "FindAncientHeader C h (minerHistoryCheckLen s) chain parents = Some cp"
    "parseTurnLength cp cfg e = Inr turn" "parseValidators cp cfg e = Inr (vs, ks)" "newValidatorMap (IsLuban cfg (Number h)) vs ks = Inr m"
    "s' = installValidators (IsBohr cfg (Number h) (Time h)) (IsLuban cfg (Number h)) (numOf h) (- 1 - numOf h div e) turn m s"
    unfolding switchValidators_def Let_def if_not_P [OF new] by (auto simp: bindE_eq_Inr split: option.splits)
  with that show thesis using installValidators_switch keys_newValidatorMap by metis
qed

lemma applyHeader_change:
  assumes "applyHeader C d cfg chain parents h s c = (Inr s', c')" "numOf h \<noteq> 0" "numOf h mod EpochLength s = minerHistoryCheckLen s"
    and "EpochLength s \<noteq> 0" "numOf h \<noteq> - 1 - numOf h div EpochLength s"
    and "IsBohr cfg (Number h) (Time h) \<Longrightarrow> gm_get (Recents s) (- 1 - numOf h div EpochLength s) = None"
  shows "changedTo C cfg chain parents h s s'"
  using assms(1)
proof (rule applyHeader_steps)
  fix s2
  assume s2: "Validators s2 = Validators s" "TurnLength s2 = TurnLength s"
    "\<And>k. k \<noteq> numOf h \<Longrightarrow> gm_get (Recents s) k = None \<Longrightarrow> gm_get (Recents s2) k = None"
    and fin: "(if numOf h > 0 then
        bindE (modC (numOf h) (EpochLength s)) (\<lambda>r.
          if r = minerHistoryCheckLen s then switchValidators C cfg chain parents h (EpochLength s) s2 else Inr s2)
      else Inr s2) = Inr s'"
  have "switchValidators C cfg chain parents h (EpochLength s) s2 = Inr s'"
    using fin assms(2-4) by (simp add: modC_def word_greater_zero_iff)
  moreover have "gm_get (Recents s2) (- 1 - numOf h div EpochLength s) = None" if "IsBohr cfg (Number h) (Time h)"
    using s2(3) [OF assms(5) [symmetric]] assms(6) [OF that] by simp
  ultimately obtain cp turn vs ks where "FindAncientHeader C h (minerHistoryCheckLen s2) chain parents = Some cp"
    "parseTurnLength cp cfg (EpochLength s) = Inr turn" "parseValidators cp cfg (EpochLength s) = Inr (vs, ks)"
    "fst ` set (Validators s') = set vs" "TurnLength s' = (case turn of None \<Rightarrow> TurnLength s2 | Some t \<Rightarrow> t)"
    by (rule switchValidators_changes)
  then show "changedTo C cfg chain parents h s s'"
    using minerHistoryCheckLen_cong [of s2 s] s2(1,2) by (auto simp: changedTo_def split: option.split)
qed

section \<open>A batch of headers\<close>

lemma contiguous_number:
  "contiguous C hs = Inr () \<Longrightarrow> i < length hs \<Longrightarrow> numOf (hs ! i) = numOf (hd hs) + of_nat i"
proof (induction hs arbitrary: i)
  case (Cons h hs)
  show ?case
  proof (cases i)
    case (Suc k)
    then have "numOf (hs ! k) = numOf (hd hs) + of_nat k" using Cons.IH [OF contiguous_tl [OF Cons.prems(1)], of k] Cons.prems(2) by simp
    moreover obtain h' hs' where "hs = h' # hs'" using Cons.prems(2) Suc by (cases hs) auto
    moreover from this have "numOf h' = numOf h + 1" using Cons.prems(1) contiguous_next by blast
    ultimately show ?thesis using Suc by simp
  qed simp
qed simp

lemma fold_quiet:
  assumes "foldA (applyHeader C d cfg chain parents) hs s c = (Inr s', c')"
    and "\<forall>h \<in> set hs. numOf h mod EpochLength s \<noteq> minerHistoryCheckLen s"
    and "\<forall>h \<in> set hs. EpochLength (updateIntervals d cfg h s) = EpochLength s"
  shows "Validators s' = Validators s \<and> TurnLength s' = TurnLength s \<and> EpochLength s' = EpochLength s \<and>
    (\<forall>k. (\<forall>h \<in> set hs. k \<noteq> numOf h) \<longrightarrow> gm_get (Recents s) k = None \<longrightarrow> gm_get (Recents s') k = None)"
  using assms
proof (induction hs arbitrary: s c)
  case (Cons h hs)
  from Cons.prems(1) obtain s1 c1 where 1: "applyHeader C d cfg chain parents h s c = (Inr s1, c1)"
    "foldA (applyHeader C d cfg chain parents) hs s1 c1 = (Inr s', c')" by (auto simp: bindA_eq_Inr)
  note q = applyHeader_quiet [OF 1(1)]
  have e: "Validators s1 = Validators s" "TurnLength s1 = TurnLength s" "EpochLength s1 = EpochLength s" using q Cons.prems(2,3) by simp_all
  have "minerHistoryCheckLen s1 = minerHistoryCheckLen s" by (rule minerHistoryCheckLen_cong) (simp_all add: e)
  with Cons.IH [OF 1(2)] Cons.prems(2,3) e updateIntervals_EpochLength [OF e(3)] q(4) show ?case by simp
qed (simp add: retA_def)

lemma last_header:
  assumes "foldA (applyHeader C d cfg chain parents) hs s c = (Inr s', c')" "hs \<noteq> []"
  obtains s1 c1 where "foldA (applyHeader C d cfg chain parents) (butlast hs) s c = (Inr s1, c1)"
    "applyHeader C d cfg chain parents (last hs) s1 c1 = (Inr s', c')"
proof -
  have "foldA (applyHeader C d cfg chain parents) (butlast hs @ [last hs]) s c = (Inr s', c')" using assms by simp
  then show thesis using that by (auto simp only: foldA_append bindA_eq_Inr foldA.simps) (auto simp: bindA_eq_Inr retA_def)
qed

lemma batch_numbers:
  assumes "contiguous C hs = Inr ()" "hs \<noteq> []" "numOf (hd hs) = n + 1" "unat n + length hs < 2 ^ 64" "i < length hs"
  shows "unat (numOf (hs ! i)) = unat n + 1 + i"
proof -
  have "numOf (hs ! i) = of_nat (unat n + 1 + i)" using contiguous_number [OF assms(1,5)] assms(3) by simp
  then show ?thesis using assms(4,5) by (simp only: unat_of_nat_u64)
qed

lemma key_above:
  fixes n e :: u64
  assumes "unat n < 2 ^ 63" "unat k < 2 ^ 63"
  shows "k \<noteq> - 1 - n div e"
proof
  assume "k = - 1 - n div e"
  then have "of_nat (unat k + unat (n div e) + 1) = (0 :: u64)" by simp
  moreover have "unat (n div e) \<le> unat n" by (simp add: unat_div)
  then have "unat k + unat (n div e) + 1 < 2 ^ 64" using assms by simp
  ultimately have "unat k + unat (n div e) + 1 = 0" by (metis unat_0 unat_of_nat_u64)
  then show False by simp
qed

text \<open>The headers before the change block.\<close>

lemma quiet_before:
  assumes "nexValidatorsChangeBlock s = Inr b" "EpochLength s \<noteq> 0" "minerHistoryCheckLen s < EpochLength s"
    "unat (sNumber s) + 2 * unat (EpochLength s) < 2 ^ 63" "unat (sNumber s) < n" "n < unat b"
  shows "n mod unat (EpochLength s) \<noteq> unat (minerHistoryCheckLen s)"
proof
  assume "n mod unat (EpochLength s) = unat (minerHistoryCheckLen s)"
  moreover have "unat b = (LEAST b. unat (sNumber s) < b \<and> b mod unat (EpochLength s) = unat (minerHistoryCheckLen s))"
    using next_change_least [of s] assms(1-4) by auto
  ultimately have "unat b \<le> n" using assms(5) by (auto intro: Least_le)
  with assms(6) show False by simp
qed

lemma change_block:
  assumes "nexValidatorsChangeBlock s = Inr b" "EpochLength s \<noteq> 0" "minerHistoryCheckLen s < EpochLength s"
    "unat (sNumber s) + 2 * unat (EpochLength s) < 2 ^ 63"
  shows "b mod EpochLength s = minerHistoryCheckLen s" "unat (sNumber s) < unat b" "unat b < 2 ^ 63"
proof -
  let ?P = "\<lambda>b. unat (sNumber s) < b \<and> b mod unat (EpochLength s) = unat (minerHistoryCheckLen s)"
  have l: "unat (minerHistoryCheckLen s) < unat (EpochLength s)" using assms(3) by (simp add: word_less_nat_alt)
  have b: "unat b = (LEAST b. ?P b)" using next_change_least [of s] assms by auto
  let ?e = "unat (EpochLength s)" and ?l = "unat (minerHistoryCheckLen s)"
  have "((unat (sNumber s) div ?e + 1) * ?e + ?l) mod ?e = ?l" by (simp only: mod_mult_self3) (simp add: l)
  moreover have "unat (sNumber s) < (unat (sNumber s) div ?e + 1) * ?e" using l dividend_less_div_times [of ?e "unat (sNumber s)"] by simp
  ultimately have "?P ((unat (sNumber s) div ?e + 1) * ?e + ?l)" by (meson trans_less_add1)
  then have "?P (unat b)" unfolding b by (rule LeastI)
  then show "b mod EpochLength s = minerHistoryCheckLen s" "unat (sNumber s) < unat b" 
    by (simp_all add: word_eq_iff_unsigned [where 'a = nat] unat_mod)
  show "unat b < 2 ^ 63" unfolding b least_congruent [OF l] using l assms(4) by auto
qed

lemma batch_quiet:
  assumes next_block: "nexValidatorsChangeBlock s = Inr b" "EpochLength s \<noteq> 0" "minerHistoryCheckLen s < EpochLength s"
      "unat (sNumber s) + 2 * unat (EpochLength s) < 2 ^ 63"
    and hs: "contiguous C hs = Inr ()" "hs \<noteq> []" "numOf (hd hs) = sNumber s + 1" "unat (sNumber s) + length hs \<le> unat b"
    and i: "i < length hs" "unat (sNumber s) + 1 + i < unat b"
  shows "numOf (hs ! i) mod EpochLength s \<noteq> minerHistoryCheckLen s"
proof
  assume "numOf (hs ! i) mod EpochLength s = minerHistoryCheckLen s"
  moreover have "unat (numOf (hs ! i)) = unat (sNumber s) + 1 + i"
    using batch_numbers [OF hs(1-3) _ i(1)] change_block(3) [OF next_block] hs(4) by simp
  ultimately show False using quiet_before [OF next_block, of "unat (sNumber s) + 1 + i"] i(2) by (metis less_add_one trans_less_add1 unat_mod)
qed

lemma changedTo_cong:
  "changedTo C cfg chain parents h s s1 \<Longrightarrow> Validators s = Validators t \<Longrightarrow> TurnLength s = TurnLength t \<Longrightarrow> EpochLength s = EpochLength t \<Longrightarrow>
    Validators s1 = Validators s2 \<Longrightarrow> TurnLength s1 = TurnLength s2 \<Longrightarrow> changedTo C cfg chain parents h t s2"
  unfolding changedTo_def minerHistoryCheckLen_def by (simp only:)

lemma batch_change:
  assumes next_block: "nexValidatorsChangeBlock s = Inr b" "EpochLength s \<noteq> 0" "minerHistoryCheckLen s < EpochLength s"
      "unat (sNumber s) + 2 * unat (EpochLength s) < 2 ^ 63"
    and hs: "contiguous C hs = Inr ()" "hs \<noteq> []" "numOf (hd hs) = sNumber s + 1" "unat (sNumber s) + length hs = unat b"
    and f: "foldA (applyHeader C d cfg chain parents) hs s c = (Inr s', c')"
    and stable: "\<forall>h \<in> set hs. EpochLength (updateIntervals d cfg h s) = EpochLength s"
    and unmarked: "IsBohr cfg (Number (last hs)) (Time (last hs)) \<Longrightarrow> gm_get (Recents s) (- 1 - b div EpochLength s) = None"
  shows "changedTo C cfg chain parents (last hs) s s'"
proof -
  obtain s1 c1 where 1: "foldA (applyHeader C d cfg chain parents) (butlast hs) s c = (Inr s1, c1)"
    "applyHeader C d cfg chain parents (last hs) s1 c1 = (Inr s', c')" by (rule last_header [OF f hs(2)])
  note cb = change_block [OF next_block]
  have num: "unat (numOf (hs ! i)) = unat (sNumber s) + 1 + i" if "i < length hs" for i
    using batch_numbers [OF hs(1-3) _ that] cb(3) hs(4) by simp
  have "0 < length hs" using hs(2) by simp
  then have "unat (numOf (last hs)) = unat b" using num [of "length hs - 1"] hs(4) unfolding last_conv_nth [OF hs(2)] by linarith
  then have last: "numOf (last hs) = b" by (rule unsigned_word_eqI)
  have "\<forall>h \<in> set (butlast hs). numOf h mod EpochLength s \<noteq> minerHistoryCheckLen s \<and> - 1 - b div EpochLength s \<noteq> numOf h"
  proof
    fix h assume "h \<in> set (butlast hs)"
    then obtain i where i: "i < length hs - 1" "h = hs ! i" by (auto simp: in_set_conv_nth nth_butlast)
    then have "numOf h \<noteq> - 1 - b div EpochLength s" using num [of i] hs(4) cb(3) by (intro key_above) auto
    then show "numOf h mod EpochLength s \<noteq> minerHistoryCheckLen s \<and> - 1 - b div EpochLength s \<noteq> numOf h"
      using batch_quiet [OF next_block hs(1-3), of i] i hs(4) by auto
  qed
  with fold_quiet [OF 1(1)] stable in_set_butlastD [of _ hs]
  have s1: "Validators s1 = Validators s" "TurnLength s1 = TurnLength s" "EpochLength s1 = EpochLength s"
    "gm_get (Recents s) (- 1 - b div EpochLength s) = None \<Longrightarrow> gm_get (Recents s1) (- 1 - b div EpochLength s) = None" by auto
  then have "minerHistoryCheckLen s1 = minerHistoryCheckLen s" by (intro minerHistoryCheckLen_cong) auto
  moreover have "b \<noteq> 0" using cb(2) by auto
  ultimately have "changedTo C cfg chain parents (last hs) s1 s'"
    using applyHeader_change [OF 1(2)] last cb next_block(2) s1 unmarked key_above [of b b "EpochLength s"] by simp
  then show ?thesis by (rule changedTo_cong) (simp_all add: s1)
qed

section \<open>An example\<close>

text \<open>A snapshot one block before an epoch with a single validator and turn length 1: the next header is its own checkpoint.\<close>

definition changeSnap :: Snapshot where
  "changeSnap = toySnap\<lparr> sNumber := 199, TurnLength := 1 \<rparr>"

definition changeHeader :: Header where
  "changeHeader = (toyHeader 200)\<lparr> Extra := replicate 32 0 @ [1] @ replicate 68 1 @ [2] @ replicate 65 0 \<rparr>"

lemma changeHeader_simps [simp]:
  "numOf changeHeader = 200" "Number changeHeader = Some 200" "ParentHash changeHeader = 7"
  by (simp_all add: changeHeader_def toyHeader_def exampleHeader_def bigUint64_def)

lemma changeHeader_extra: "Extra changeHeader = replicate 32 0 @ [1] @ replicate 68 1 @ [2] @ replicate 65 0"
  by (simp add: changeHeader_def)

lemma change_extra:
  "sliceC (Extra changeHeader) 28 32 = Some [0, 0, 0, 0]" "getVoteAttestationFromHeader changeHeader lubanConfig 200 = Inr None"
  "parseTurnLength changeHeader lubanConfig 200 = Inr (Some 2)"
  "parseValidators changeHeader lubanConfig 200 = Inr ([BytesToAddress (replicate 20 1)], [BytesToBlsKey (replicate 48 1)])"
  by (simp add: changeHeader_extra sliceC_def slice_def eval_nat_numeral)
    (simp_all add: changeHeader_extra getVoteAttestationFromHeader_def parseTurnLength_def parseValidators_def getValidatorBytesFromHeader_def
      modC_def nth_append slice_def turnLengthSize_def validatorNumberSize_def validatorBytesLength_def)

lemma change_apply: "\<exists>s'. apply_snap toyCrypto 200 lubanConfig emptyChain [] False [changeHeader] changeSnap toyCache = (Inr s', toyCache)"
proof -
  have "\<exists>s'. applyHeader toyCrypto 200 lubanConfig emptyChain [] changeHeader changeSnap toyCache = (Inr s', toyCache)"
    by (simp add: toy_step toy_eval change_extra changeSnap_def toySnap_def switchValidators_def FindAncientHeader_def newValidatorMap_def Let_def)
  moreover have "copy (changeSnap\<lparr> IsSnake8Fork := False \<rparr>) = changeSnap" by (simp add: changeSnap_def toySnap_def copy_def)
  ultimately show ?thesis
    by (auto simp: apply_snap_def Let_def bindA_def liftA_def retA_def) (simp_all add: changeSnap_def toySnap_def)
qed

section \<open>Properties\<close>

text \<open>C20. The validator set changes where \<open>nexValidatorsChangeBlock\<close> says. As long as no header changes the epoch length, a batch that
  \<open>apply\<close> accepts and that ends before this block leaves the validators and the turn length as they are. A batch that ends with this block
  installs the validators and the turn length of the checkpoint header that is as many blocks back as the miner history is long; after
  Bohr this needs that the snapshot does not already carry the mark of the epoch, which tells that the validators of this epoch are in place.\<close>

theorem next_validator_change:
  assumes "EpochLength s \<noteq> 0" "minerHistoryCheckLen s < EpochLength s" "unat (sNumber s) + 2 * unat (EpochLength s) < 2 ^ 63"
    and "apply_snap C d cfg chain parents snake8 hs s c = (Inr s', c')"
    and "\<forall>h \<in> set hs. EpochLength (updateIntervals d cfg h s) = EpochLength s"
  shows "\<exists>b. nexValidatorsChangeBlock s = Inr b \<and>
    (unat (sNumber s) + length hs < unat b \<longrightarrow> Validators s' = Validators s \<and> TurnLength s' = TurnLength s) \<and>
    (unat (sNumber s) + length hs = unat b \<and>
       (IsBohr cfg (Number (last hs)) (Time (last hs)) \<longrightarrow> gm_get (Recents s) (- 1 - b div EpochLength s) = None)
     \<longrightarrow> changedTo C cfg chain parents (last hs) s s')"
proof -
  obtain b where b: "nexValidatorsChangeBlock s = Inr b"
    using next_change_least [of s] assms(1-3) by auto
  note cb = change_block [OF b assms(1-3)]
  have "(unat (sNumber s) + length hs < unat b \<longrightarrow> Validators s' = Validators s \<and> TurnLength s' = TurnLength s) \<and>
    (unat (sNumber s) + length hs = unat b \<and>
       (IsBohr cfg (Number (last hs)) (Time (last hs)) \<longrightarrow> gm_get (Recents s) (- 1 - b div EpochLength s) = None)
     \<longrightarrow> changedTo C cfg chain parents (last hs) s s')"
  proof (cases "hs = []")
    case True
    then show ?thesis using assms(4) cb(2) by (auto simp: apply_snap_def retA_def)
  next
    case False
    let ?s = "copy (s\<lparr> IsSnake8Fork := snake8 \<rparr>)" and ?fold = "foldA (applyHeader C d cfg chain parents)"
    obtain s1 where hs: "contiguous C hs = Inr ()" "hs \<noteq> []" "numOf (hd hs) = sNumber s + 1"
      and f: "?fold hs ?s c = (Inr s1, c')" and s': "Validators s' = Validators s1" "TurnLength s' = TurnLength s1"
      by (rule apply_snap_Inr [OF assms(4) False]) (simp add: False)
    have same: "Validators ?s = Validators s" "TurnLength ?s = TurnLength s" "EpochLength ?s = EpochLength s" "Recents ?s = Recents s"
      "minerHistoryCheckLen ?s = minerHistoryCheckLen s" "sNumber ?s = sNumber s"
      by (simp_all add: copy_def minerHistoryCheckLen_def)
    have stable: "EpochLength (updateIntervals d cfg h ?s) = EpochLength s" if "h \<in> set hs" for h
      using updateIntervals_EpochLength [OF same(3)] assms(5) that by simp
    note quiet = batch_quiet [OF b assms(1-3) hs]
    show ?thesis
    proof (intro conjI impI)
      assume before: "unat (sNumber s) + length hs < unat b"
      then have "\<forall>h \<in> set hs. numOf h mod EpochLength s \<noteq> minerHistoryCheckLen s" using quiet by (auto simp: in_set_conv_nth)
      with fold_quiet [OF f] stable same s' show "Validators s' = Validators s" "TurnLength s' = TurnLength s" by simp_all
    next
      assume at: "unat (sNumber s) + length hs = unat b \<and>
        (IsBohr cfg (Number (last hs)) (Time (last hs)) \<longrightarrow> gm_get (Recents s) (- 1 - b div EpochLength s) = None)"
      have "nexValidatorsChangeBlock ?s = Inr b" using b unfolding nexValidatorsChangeBlock_def same .
      with at hs f stable assms(1-3) have "changedTo C cfg chain parents (last hs) ?s s1" by (intro batch_change) (auto simp: same)
      then show "changedTo C cfg chain parents (last hs) s s'" by (rule changedTo_cong) (simp_all add: same s')
    qed
  qed
  with b show ?thesis by blast
qed

theorem next_validator_change_witness:
  "Validators toySnap2 = Validators toySnap \<and> nexValidatorsChangeBlock changeSnap = Inr 200 \<and>
    (\<exists>s'. apply_snap toyCrypto 200 lubanConfig emptyChain [] False [changeHeader] changeSnap toyCache = (Inr s', toyCache) \<and>
       changedTo toyCrypto lubanConfig emptyChain [] changeHeader changeSnap s')"
proof -
  obtain s' where s': "apply_snap toyCrypto 200 lubanConfig emptyChain [] False [changeHeader] changeSnap toyCache = (Inr s', toyCache)"
    using change_apply by blast
  have b: "nexValidatorsChangeBlock toySnap = Inr 201" "nexValidatorsChangeBlock changeSnap = Inr 200"
    by (simp_all add: nexValidatorsChangeBlock_def modC_def toySnap_def changeSnap_def minerHistoryCheckLen_def)
  have "Validators toySnap2 = Validators toySnap"
    using next_validator_change [OF _ _ _ toy_apply] b(1) by (simp add: toySnap_def minerHistoryCheckLen_def updateIntervals_def)
  moreover have "changedTo toyCrypto lubanConfig emptyChain [] changeHeader changeSnap s'"
    using next_validator_change [OF _ _ _ s'] b(2) by (simp add: changeSnap_def toySnap_def minerHistoryCheckLen_def updateIntervals_def)
  ultimately show ?thesis using s' b(2) by blast
qed

end
