(* ===== verification/State_Db.thy ===== *)
theory State_Db
  imports Chain_Types
begin

text \<open>
  The state of a block while its transactions run (\<open>core/state/statedb.go\<close>, \<open>state_object.go\<close>, \<open>journal.go\<close>, \<open>access_list.go\<close>,
  \<open>transient_storage.go\<close>): accounts loaded lazily from a reader, the changes of a transaction with the journal that can undo
  them, and the end of a transaction.

  The state below, a snapshot or a trie, is reached through the reader only, which is the parameter \<open>D\<close>. An object is a pointer into the map of live objects;
  it is the entry of its address, and a method of the object is a function of the address. Not modelled: prefetching, witnesses, Verkle access events,
  the block access list, metrics and the pool of journal entries, none of which the other fields depend on.
\<close>

section \<open>Accounts\<close>

type_synonym u256 = "256 word"
type_synonym Storage = "(hash, hash) gomap"

record StateAccount =
  accNonce :: u64
  accBalance :: u256
  accRoot :: hash
  accCodeHash :: hash

record reader =
  rAccount :: "address \<Rightarrow> StateAccount option result"
  rStorage :: "address \<Rightarrow> hash \<Rightarrow> hash result"
  rSharedStorage :: "address \<Rightarrow> hash \<Rightarrow> hash option"
  rCode :: "address \<Rightarrow> hash \<Rightarrow> bytes result"
  rCodeSize :: "address \<Rightarrow> hash \<Rightarrow> nat result"

definition EmptyRootHash :: hash where
  "EmptyRootHash = 0x56e81f171bcc55a6ff8345e692c0f86e5b48e01b996cadc001622fb5e363b421"

definition EmptyCodeHash :: "crypto \<Rightarrow> hash" where
  "EmptyCodeHash C = keccak256 C []"

definition NewEmptyStateAccount :: "crypto \<Rightarrow> StateAccount" where
  "NewEmptyStateAccount C = \<lparr> accNonce = 0, accBalance = 0, accRoot = EmptyRootHash, accCodeHash = EmptyCodeHash C \<rparr>"

record stateObject =
  objOrigin :: "StateAccount option"
  objData :: StateAccount
  objCode :: bytes
  originStorage :: Storage
  dirtyStorage :: Storage
  pendingStorage :: Storage
  uncommittedStorage :: Storage
  dirtyCode :: bool
  selfDestructed :: bool
  newContract :: bool

definition newObject :: "crypto \<Rightarrow> StateAccount option \<Rightarrow> stateObject" where
  "newObject C acct =
     \<lparr> objOrigin = acct, objData = (case acct of None \<Rightarrow> NewEmptyStateAccount C | Some a \<Rightarrow> a), objCode = [],
       originStorage = [], dirtyStorage = [], pendingStorage = [], uncommittedStorage = [],
       dirtyCode = False, selfDestructed = False, newContract = False \<rparr>"

definition emptyObject :: "crypto \<Rightarrow> stateObject \<Rightarrow> bool" where
  "emptyObject C obj \<longleftrightarrow>
     accNonce (objData obj) = 0 \<and> accBalance (objData obj) = 0 \<and> accCodeHash (objData obj) = EmptyCodeHash C"

section \<open>Access list and transient storage\<close>

text \<open>The index of an address is \<open>-1\<close> when none of its slots is listed.\<close>

record accessList =
  alAddresses :: "(address, int) gomap"
  alSlots :: "(hash, unit) gomap list"

definition newAccessList :: accessList where
  "newAccessList = \<lparr> alAddresses = [], alSlots = [] \<rparr>"

definition ContainsAddress :: "accessList \<Rightarrow> address \<Rightarrow> bool" where
  "ContainsAddress al addr \<longleftrightarrow> gm_get (alAddresses al) addr \<noteq> None"

definition AccessList_Contains :: "accessList \<Rightarrow> address \<Rightarrow> hash \<Rightarrow> (bool \<times> bool) result" where
  "AccessList_Contains al addr slot =
     (case gm_get (alAddresses al) addr of
        None \<Rightarrow> Inr (False, False)
      | Some idx \<Rightarrow>
          if idx = - 1 then Inr (True, False)
          else if idx < 0 \<or> nat idx \<ge> length (alSlots al) then Inl Panic
          else Inr (True, gm_get (alSlots al ! nat idx) slot \<noteq> None))"

definition AddAddress :: "address \<Rightarrow> accessList \<Rightarrow> bool \<times> accessList" where
  "AddAddress addr al =
     (if gm_get (alAddresses al) addr \<noteq> None then (False, al)
      else (True, al\<lparr> alAddresses := gm_put addr (- 1) (alAddresses al) \<rparr>))"

definition AddSlot :: "address \<Rightarrow> hash \<Rightarrow> accessList \<Rightarrow> (bool \<times> bool) result \<times> accessList" where
  "AddSlot addr slot al =
     (let idx = gm_get (alAddresses al) addr in
      if idx = None \<or> idx = Some (- 1)
      then (Inr (idx = None, True),
            al\<lparr> alAddresses := gm_put addr (int (length (alSlots al))) (alAddresses al), alSlots := alSlots al @ [[(slot, ())]] \<rparr>)
      else if the idx < 0 \<or> nat (the idx) \<ge> length (alSlots al) then (Inl Panic, al)
      else
        (let slotmap = alSlots al ! nat (the idx) in
         if gm_get slotmap slot = None
         then (Inr (False, True), al\<lparr> alSlots := (alSlots al)[nat (the idx) := gm_put slot () slotmap] \<rparr>)
         else (Inr (False, False), al)))"

definition DeleteSlot :: "address \<Rightarrow> hash \<Rightarrow> accessList \<Rightarrow> accessList result" where
  "DeleteSlot addr slot al =
     (case gm_get (alAddresses al) addr of
        None \<Rightarrow> Inl Panic
      | Some idx \<Rightarrow>
          if idx < 0 \<or> nat idx \<ge> length (alSlots al) then Inl Panic
          else
            (let slotmap = gm_del slot (alSlots al ! nat idx) in
             if slotmap = [] then Inr (al\<lparr> alSlots := take (nat idx) (alSlots al), alAddresses := gm_put addr (- 1) (alAddresses al) \<rparr>)
             else Inr (al\<lparr> alSlots := (alSlots al)[nat idx := slotmap] \<rparr>)))"

definition DeleteAddress :: "address \<Rightarrow> accessList \<Rightarrow> accessList" where
  "DeleteAddress addr al = al\<lparr> alAddresses := gm_del addr (alAddresses al) \<rparr>"

type_synonym transientStorage = "(address, Storage) gomap"

definition Transient_Set :: "address \<Rightarrow> hash \<Rightarrow> hash \<Rightarrow> transientStorage \<Rightarrow> transientStorage" where
  "Transient_Set addr key value t =
     (if value = 0
      then (case gm_get t addr of
          None \<Rightarrow> t
        | Some m \<Rightarrow> (let m = gm_del key m in if m = [] then gm_del addr t else gm_put addr m t))
      else gm_put addr (gm_put key value (case gm_get t addr of None \<Rightarrow> [] | Some m \<Rightarrow> m)) t)"

definition Transient_Get :: "transientStorage \<Rightarrow> address \<Rightarrow> hash \<Rightarrow> hash" where
  "Transient_Get t addr key =
     (case gm_get t addr of None \<Rightarrow> 0 | Some m \<Rightarrow> (case gm_get m key of None \<Rightarrow> 0 | Some v \<Rightarrow> v))"

section \<open>The journal\<close>

datatype journalEntry =
    createObjectChange address
  | createContractChange address
  | selfDestructChange address
  | balanceChange address u256
  | nonceChange address u64
  | storageChange address hash hash hash
  | codeChange address bytes
  | refundChange u64
  | addLogChange hash
  | touchChange address
  | accessListAddAccountChange address
  | accessListAddSlotChange address hash
  | transientStorageChange address hash hash

fun dirtied :: "journalEntry \<Rightarrow> address option" where
  "dirtied (createObjectChange a) = Some a"
| "dirtied (createContractChange a) = None"
| "dirtied (selfDestructChange a) = Some a"
| "dirtied (balanceChange a prev) = Some a"
| "dirtied (nonceChange a prev) = Some a"
| "dirtied (storageChange a key prev orig) = Some a"
| "dirtied (codeChange a prev) = Some a"
| "dirtied (refundChange prev) = None"
| "dirtied (addLogChange h) = None"
| "dirtied (touchChange a) = Some a"
| "dirtied (accessListAddAccountChange a) = None"
| "dirtied (accessListAddSlotChange a slot) = None"
| "dirtied (transientStorageChange a key prev) = None"

record revision =
  revId :: nat
  journalIndex :: nat

record journal =
  entries :: "journalEntry list"
  dirties :: "(address, int) gomap"
  validRevisions :: "revision list"
  nextRevisionId :: nat

definition newJournal :: journal where
  "newJournal = \<lparr> entries = [], dirties = [], validRevisions = [], nextRevisionId = 0 \<rparr>"

definition journal_reset :: "journal \<Rightarrow> journal" where
  "journal_reset j = j\<lparr> entries := [], validRevisions := [], dirties := [], nextRevisionId := 0 \<rparr>"

definition journal_snapshot :: "journal \<Rightarrow> nat \<times> journal" where
  "journal_snapshot j =
     (nextRevisionId j,
      j\<lparr> nextRevisionId := nextRevisionId j + 1,
        validRevisions := validRevisions j @ [\<lparr> revId = nextRevisionId j, journalIndex = length (entries j) \<rparr>] \<rparr>)"

definition journal_dirty :: "address \<Rightarrow> journal \<Rightarrow> journal" where
  "journal_dirty addr j = j\<lparr> dirties := gm_put addr ((case gm_get (dirties j) addr of None \<Rightarrow> 0 | Some n \<Rightarrow> n) + 1) (dirties j) \<rparr>"

definition journal_append :: "journalEntry \<Rightarrow> journal \<Rightarrow> journal" where
  "journal_append e j =
     (let j = j\<lparr> entries := entries j @ [e] \<rparr> in
      case dirtied e of None \<Rightarrow> j | Some addr \<Rightarrow> journal_dirty addr j)"

definition ripemd :: address where "ripemd = 3"

definition journal_touchChange :: "address \<Rightarrow> journal \<Rightarrow> journal" where
  "journal_touchChange addr j =
     (let j = journal_append (touchChange addr) j in if addr = ripemd then journal_dirty addr j else j)"

text \<open>A change that is undone gives back its dirty mark.\<close>

definition undirty :: "journalEntry \<Rightarrow> journal \<Rightarrow> journal" where
  "undirty e j =
     (case dirtied e of
        None \<Rightarrow> j
      | Some addr \<Rightarrow>
          (let n = (case gm_get (dirties j) addr of None \<Rightarrow> 0 | Some n \<Rightarrow> n) in
           j\<lparr> dirties := (if n - 1 = 0 then gm_del addr (dirties j) else gm_put addr (n - 1) (dirties j)) \<rparr>))"

text \<open>The binary search of the package \<open>sort\<close>.\<close>

function searchFrom :: "(nat \<Rightarrow> bool) \<Rightarrow> nat \<Rightarrow> nat \<Rightarrow> nat" where
  "searchFrom f i j =
     (if i < j then (let h = (i + j) div 2 in if \<not> f h then searchFrom f (h + 1) j else searchFrom f i h) else i)"
  by pat_completeness auto
termination
  by (relation "measure (\<lambda>(f, i, j). j - i)") auto

declare searchFrom.simps [simp del]

definition Search :: "nat \<Rightarrow> (nat \<Rightarrow> bool) \<Rightarrow> nat" where
  "Search n f = searchFrom f 0 n"

section \<open>The state\<close>

record Log =
  logAddress :: address
  logTopics :: "hash list"
  logBytes :: bytes
  logTxHash :: hash
  logTxIndex :: u64
  logIndex :: u64
  logBlockNumber :: u64
  logBlockHash :: hash
  logBlockTimestamp :: u64

datatype mutationType = update_mutation | deletion

record mutation =
  mutTyp :: mutationType
  mutApplied :: bool

record StateDB =
  stateObjects :: "(address, stateObject) gomap"
  stateObjectsDestruct :: "(address, stateObject) gomap"
  mutations :: "(address, mutation) gomap"
  needBadSharedStorage :: bool
  dbErr :: "parlia_error option"
  refund :: u64
  thash :: hash
  txIndex :: u64
  logs :: "(hash, Log list) gomap"
  logSize :: u64
  preimages :: "(hash, bytes) gomap"
  accList :: accessList
  transientMap :: transientStorage
  sdbJournal :: journal

definition NewStateDB :: StateDB where
  "NewStateDB = \<lparr> stateObjects = [], stateObjectsDestruct = [], mutations = [], needBadSharedStorage = False, dbErr = None, refund = 0,
     thash = 0, txIndex = 0, logs = [], logSize = 0, preimages = [], accList = newAccessList, transientMap = [],
     sdbJournal = newJournal \<rparr>"

definition setError :: "parlia_error \<Rightarrow> StateDB \<Rightarrow> StateDB" where
  "setError e s = (case dbErr s of None \<Rightarrow> s\<lparr> dbErr := Some e \<rparr> | Some _ \<Rightarrow> s)"

definition setStateObject :: "address \<Rightarrow> stateObject \<Rightarrow> StateDB \<Rightarrow> StateDB" where
  "setStateObject addr obj s = s\<lparr> stateObjects := gm_put addr obj (stateObjects s) \<rparr>"

text \<open>A write to a field of the live object of an address.\<close>

definition updObject :: "address \<Rightarrow> (stateObject \<Rightarrow> stateObject) \<Rightarrow> StateDB \<Rightarrow> StateDB" where
  "updObject addr f s =
     (case gm_get (stateObjects s) addr of None \<Rightarrow> s | Some obj \<Rightarrow> setStateObject addr (f obj) s)"

definition appendJournal :: "journalEntry \<Rightarrow> StateDB \<Rightarrow> StateDB" where
  "appendJournal e s = s\<lparr> sdbJournal := journal_append e (sdbJournal s) \<rparr>"

definition getStateObject :: "crypto \<Rightarrow> reader \<Rightarrow> address \<Rightarrow> StateDB \<Rightarrow> stateObject option \<times> StateDB" where
  "getStateObject C D addr s =
     (case gm_get (stateObjects s) addr of
        Some obj \<Rightarrow> (Some obj, s)
      | None \<Rightarrow>
          if gm_get (stateObjectsDestruct s) addr \<noteq> None then (None, s)
          else (case rAccount D addr of
              Inl e \<Rightarrow> (None, setError (ErrMsg ''getStateObject error'') s)
            | Inr None \<Rightarrow> (None, s)
            | Inr (Some acct) \<Rightarrow> (let obj = newObject C (Some acct) in (Some obj, setStateObject addr obj s))))"

definition createObject :: "crypto \<Rightarrow> address \<Rightarrow> StateDB \<Rightarrow> StateDB" where
  "createObject C addr s = setStateObject addr (newObject C None) (appendJournal (createObjectChange addr) s)"

text \<open>Afterwards the object is live.\<close>

definition getOrNewStateObject :: "crypto \<Rightarrow> reader \<Rightarrow> address \<Rightarrow> StateDB \<Rightarrow> stateObject \<times> StateDB" where
  "getOrNewStateObject C D addr s =
     (case getStateObject C D addr s of
        (Some obj, s) \<Rightarrow> (obj, s)
      | (None, s) \<Rightarrow> (newObject C None, createObject C addr s))"

section \<open>Methods of an object\<close>

definition GetCommittedState :: "reader \<Rightarrow> address \<Rightarrow> hash \<Rightarrow> stateObject \<Rightarrow> StateDB \<Rightarrow> hash \<times> StateDB" where
  "GetCommittedState D addr key obj s =
     (let cache = (\<lambda>value. (value, updObject addr (\<lambda>obj. obj\<lparr> originStorage := gm_put key value (originStorage obj) \<rparr>) s)) in
      case gm_get (pendingStorage obj) key of
        Some value \<Rightarrow> (value, s)
      | None \<Rightarrow>
      case gm_get (originStorage obj) key of
        Some value \<Rightarrow> (value, s)
      | None \<Rightarrow>
      case (if needBadSharedStorage s then rSharedStorage D addr key else None) of
        Some value \<Rightarrow> cache value
      | None \<Rightarrow>
          if gm_get (stateObjectsDestruct s) addr \<noteq> None then cache 0
          else (case rStorage D addr key of
              Inl e \<Rightarrow> (0, setError e s)
            | Inr value \<Rightarrow> cache value))"

text \<open>The current value and the one at the start of the transaction.\<close>

definition getState :: "reader \<Rightarrow> address \<Rightarrow> hash \<Rightarrow> stateObject \<Rightarrow> StateDB \<Rightarrow> (hash \<times> hash) \<times> StateDB" where
  "getState D addr key obj s =
     (case GetCommittedState D addr key obj s of
        (orig, s) \<Rightarrow> (case gm_get (dirtyStorage obj) key of
            Some value \<Rightarrow> ((value, orig), s)
          | None \<Rightarrow> ((orig, orig), s)))"

definition setState :: "hash \<Rightarrow> hash \<Rightarrow> hash \<Rightarrow> stateObject \<Rightarrow> stateObject" where
  "setState key value orig obj =
     (if value = orig then obj\<lparr> dirtyStorage := gm_del key (dirtyStorage obj) \<rparr>
      else obj\<lparr> dirtyStorage := gm_put key value (dirtyStorage obj) \<rparr>)"

definition Object_SetState :: "reader \<Rightarrow> address \<Rightarrow> hash \<Rightarrow> hash \<Rightarrow> stateObject \<Rightarrow> StateDB \<Rightarrow> hash \<times> StateDB" where
  "Object_SetState D addr key value obj s =
     (case getState D addr key obj s of
        ((prev, orig), s) \<Rightarrow>
          if prev = value then (prev, s)
          else (prev, updObject addr (setState key value orig) (appendJournal (storageChange addr key prev orig) s)))"

definition setBalance :: "u256 \<Rightarrow> stateObject \<Rightarrow> stateObject" where
  "setBalance amount obj = obj\<lparr> objData := (objData obj)\<lparr> accBalance := amount \<rparr> \<rparr>"

definition setNonce :: "u64 \<Rightarrow> stateObject \<Rightarrow> stateObject" where
  "setNonce nonce obj = obj\<lparr> objData := (objData obj)\<lparr> accNonce := nonce \<rparr> \<rparr>"

definition setCode :: "hash \<Rightarrow> bytes \<Rightarrow> stateObject \<Rightarrow> stateObject" where
  "setCode codeHash c obj = obj\<lparr> objCode := c, objData := (objData obj)\<lparr> accCodeHash := codeHash \<rparr>, dirtyCode := True \<rparr>"

definition Object_SetBalance :: "address \<Rightarrow> u256 \<Rightarrow> stateObject \<Rightarrow> StateDB \<Rightarrow> u256 \<times> StateDB" where
  "Object_SetBalance addr amount obj s =
     (let prev = accBalance (objData obj) in
      (prev, updObject addr (setBalance amount) (appendJournal (balanceChange addr prev) s)))"

definition Object_AddBalance :: "crypto \<Rightarrow> address \<Rightarrow> u256 \<Rightarrow> stateObject \<Rightarrow> StateDB \<Rightarrow> u256 \<times> StateDB" where
  "Object_AddBalance C addr amount obj s =
     (if amount = 0
      then (accBalance (objData obj),
            if emptyObject C obj then s\<lparr> sdbJournal := journal_touchChange addr (sdbJournal s) \<rparr> else s)
      else Object_SetBalance addr (accBalance (objData obj) + amount) obj s)"

definition Object_SetNonce :: "address \<Rightarrow> u64 \<Rightarrow> stateObject \<Rightarrow> StateDB \<Rightarrow> StateDB" where
  "Object_SetNonce addr nonce obj s =
     updObject addr (setNonce nonce) (appendJournal (nonceChange addr (accNonce (objData obj))) s)"

text \<open>The journal keeps the code that is loaded, not the one that would be read.\<close>

definition Object_SetCode :: "address \<Rightarrow> hash \<Rightarrow> bytes \<Rightarrow> stateObject \<Rightarrow> StateDB \<Rightarrow> bytes \<times> StateDB" where
  "Object_SetCode addr codeHash c obj s =
     (objCode obj, updObject addr (setCode codeHash c) (appendJournal (codeChange addr (objCode obj)) s))"

definition Object_Code :: "crypto \<Rightarrow> reader \<Rightarrow> address \<Rightarrow> stateObject \<Rightarrow> StateDB \<Rightarrow> bytes \<times> StateDB" where
  "Object_Code C D addr obj s =
     (if objCode obj \<noteq> [] then (objCode obj, s)
      else if accCodeHash (objData obj) = EmptyCodeHash C then ([], s)
      else
        (let r = rCode D addr (accCodeHash (objData obj));
             c = (case r of Inl e \<Rightarrow> [] | Inr b \<Rightarrow> b);
             s = (case r of Inl e \<Rightarrow> setError (ErrMsg ''cannot load code hash'') s | Inr b \<Rightarrow> s);
             s = (if c = [] then setError (ErrMsg ''code is not found'') s else s)
         in (c, updObject addr (\<lambda>obj. obj\<lparr> objCode := c \<rparr>) s)))"

text \<open>The end of a transaction: dirty slots become pending. The slots that have to be written at the next commit are kept
  with the value they have there. A loop over a map meets every key once.\<close>

definition finaliseSlot :: "reader \<Rightarrow> address \<Rightarrow> hash \<times> hash \<Rightarrow> StateDB \<Rightarrow> StateDB" where
  "finaliseSlot D addr kv s =
     (case gm_get (stateObjects s) addr of
        None \<Rightarrow> s
      | Some obj \<Rightarrow>
          (let key = fst kv; value = snd kv;
               s = (case gm_get (uncommittedStorage obj) key of
                   Some orig \<Rightarrow>
                     if orig = value
                     then updObject addr (\<lambda>obj. obj\<lparr> uncommittedStorage := gm_del key (uncommittedStorage obj) \<rparr>) s else s
                 | None \<Rightarrow>
                     (case GetCommittedState D addr key obj s of
                        (orig, s) \<Rightarrow> updObject addr (\<lambda>obj. obj\<lparr> uncommittedStorage := gm_put key orig (uncommittedStorage obj) \<rparr>) s))
           in updObject addr (\<lambda>obj. obj\<lparr> pendingStorage := gm_put key value (pendingStorage obj) \<rparr>) s))"

definition Object_finalise :: "reader \<Rightarrow> address \<Rightarrow> stateObject \<Rightarrow> StateDB \<Rightarrow> StateDB" where
  "Object_finalise D addr obj s =
     updObject addr (\<lambda>obj. obj\<lparr> dirtyStorage := [], newContract := False \<rparr>)
       (fold (finaliseSlot D addr) (AList.clearjunk (dirtyStorage obj)) s)"

section \<open>Reading\<close>

definition Exist :: "crypto \<Rightarrow> reader \<Rightarrow> address \<Rightarrow> StateDB \<Rightarrow> bool \<times> StateDB" where
  "Exist C D addr s = (case getStateObject C D addr s of (obj, s) \<Rightarrow> (obj \<noteq> None, s))"

definition EmptyAccount :: "crypto \<Rightarrow> reader \<Rightarrow> address \<Rightarrow> StateDB \<Rightarrow> bool \<times> StateDB" where
  "EmptyAccount C D addr s =
     (case getStateObject C D addr s of (so, s) \<Rightarrow> (case so of None \<Rightarrow> True | Some obj \<Rightarrow> emptyObject C obj, s))"

definition GetBalance :: "crypto \<Rightarrow> reader \<Rightarrow> address \<Rightarrow> StateDB \<Rightarrow> u256 \<times> StateDB" where
  "GetBalance C D addr s =
     (case getStateObject C D addr s of (so, s) \<Rightarrow> (case so of None \<Rightarrow> 0 | Some obj \<Rightarrow> accBalance (objData obj), s))"

definition GetNonce :: "crypto \<Rightarrow> reader \<Rightarrow> address \<Rightarrow> StateDB \<Rightarrow> u64 \<times> StateDB" where
  "GetNonce C D addr s =
     (case getStateObject C D addr s of (so, s) \<Rightarrow> (case so of None \<Rightarrow> 0 | Some obj \<Rightarrow> accNonce (objData obj), s))"

definition GetStorageRoot :: "crypto \<Rightarrow> reader \<Rightarrow> address \<Rightarrow> StateDB \<Rightarrow> hash \<times> StateDB" where
  "GetStorageRoot C D addr s =
     (case getStateObject C D addr s of (so, s) \<Rightarrow> (case so of None \<Rightarrow> 0 | Some obj \<Rightarrow> accRoot (objData obj), s))"

definition GetCode :: "crypto \<Rightarrow> reader \<Rightarrow> address \<Rightarrow> StateDB \<Rightarrow> bytes \<times> StateDB" where
  "GetCode C D addr s =
     (case getStateObject C D addr s of (None, s) \<Rightarrow> ([], s) | (Some obj, s) \<Rightarrow> Object_Code C D addr obj s)"

definition GetCodeHash :: "crypto \<Rightarrow> reader \<Rightarrow> address \<Rightarrow> StateDB \<Rightarrow> hash \<times> StateDB" where
  "GetCodeHash C D addr s =
     (case getStateObject C D addr s of (so, s) \<Rightarrow> (case so of None \<Rightarrow> 0 | Some obj \<Rightarrow> accCodeHash (objData obj), s))"

definition GetState :: "crypto \<Rightarrow> reader \<Rightarrow> address \<Rightarrow> hash \<Rightarrow> StateDB \<Rightarrow> hash \<times> StateDB" where
  "GetState C D addr key s =
     (case getStateObject C D addr s of
        (None, s) \<Rightarrow> (0, s)
      | (Some obj, s) \<Rightarrow> (case getState D addr key obj s of ((value, _), s) \<Rightarrow> (value, s)))"

definition StateDB_GetCommittedState :: "crypto \<Rightarrow> reader \<Rightarrow> address \<Rightarrow> hash \<Rightarrow> StateDB \<Rightarrow> hash \<times> StateDB" where
  "StateDB_GetCommittedState C D addr key s =
     (case getStateObject C D addr s of (None, s) \<Rightarrow> (0, s) | (Some obj, s) \<Rightarrow> GetCommittedState D addr key obj s)"

definition HasSelfDestructed :: "crypto \<Rightarrow> reader \<Rightarrow> address \<Rightarrow> StateDB \<Rightarrow> bool \<times> StateDB" where
  "HasSelfDestructed C D addr s =
     (case getStateObject C D addr s of (so, s) \<Rightarrow> (case so of None \<Rightarrow> False | Some obj \<Rightarrow> selfDestructed obj, s))"

definition GetTransientState :: "address \<Rightarrow> hash \<Rightarrow> StateDB \<Rightarrow> hash" where
  "GetTransientState addr key s = Transient_Get (transientMap s) addr key"

text \<open>The logs of a transaction are annotated with the block in place.\<close>

definition GetLogs :: "hash \<Rightarrow> u64 \<Rightarrow> hash \<Rightarrow> u64 \<Rightarrow> StateDB \<Rightarrow> Log list \<times> StateDB" where
  "GetLogs h blockNumber blockHash blockTime s =
     (case gm_get (logs s) h of
        None \<Rightarrow> ([], s)
      | Some ls \<Rightarrow>
          (let ls = map (\<lambda>l. l\<lparr> logBlockNumber := blockNumber, logBlockHash := blockHash, logBlockTimestamp := blockTime \<rparr>) ls in
           (ls, s\<lparr> logs := gm_put h ls (logs s) \<rparr>)))"

section \<open>Writing\<close>

definition AddLog :: "Log \<Rightarrow> StateDB \<Rightarrow> StateDB" where
  "AddLog l s =
     (let s = appendJournal (addLogChange (thash s)) s;
          l = l\<lparr> logTxHash := thash s, logTxIndex := txIndex s, logIndex := logSize s \<rparr>
      in s\<lparr> logs := gm_put (thash s) ((case gm_get (logs s) (thash s) of None \<Rightarrow> [] | Some ls \<Rightarrow> ls) @ [l]) (logs s),
            logSize := logSize s + 1 \<rparr>)"

definition AddPreimage :: "hash \<Rightarrow> bytes \<Rightarrow> StateDB \<Rightarrow> StateDB" where
  "AddPreimage h preimage s =
     (case gm_get (preimages s) h of None \<Rightarrow> s\<lparr> preimages := gm_put h preimage (preimages s) \<rparr> | Some _ \<Rightarrow> s)"

definition AddRefund :: "u64 \<Rightarrow> StateDB \<Rightarrow> StateDB" where
  "AddRefund gas s = (let s = appendJournal (refundChange (refund s)) s in s\<lparr> refund := refund s + gas \<rparr>)"

definition SubRefund :: "u64 \<Rightarrow> StateDB \<Rightarrow> unit result \<times> StateDB" where
  "SubRefund gas s =
     (let s = appendJournal (refundChange (refund s)) s in
      if gas > refund s then (Inl Panic, s) else (Inr (), s\<lparr> refund := refund s - gas \<rparr>))"

definition AddBalance :: "crypto \<Rightarrow> reader \<Rightarrow> address \<Rightarrow> u256 \<Rightarrow> StateDB \<Rightarrow> u256 \<times> StateDB" where
  "AddBalance C D addr amount s =
     (case getOrNewStateObject C D addr s of (obj, s) \<Rightarrow> Object_AddBalance C addr amount obj s)"

definition SubBalance :: "crypto \<Rightarrow> reader \<Rightarrow> address \<Rightarrow> u256 \<Rightarrow> StateDB \<Rightarrow> u256 \<times> StateDB" where
  "SubBalance C D addr amount s =
     (case getOrNewStateObject C D addr s of (obj, s) \<Rightarrow>
        if amount = 0 then (accBalance (objData obj), s)
        else Object_SetBalance addr (accBalance (objData obj) - amount) obj s)"

definition SetBalance :: "crypto \<Rightarrow> reader \<Rightarrow> address \<Rightarrow> u256 \<Rightarrow> StateDB \<Rightarrow> StateDB" where
  "SetBalance C D addr amount s =
     (case getOrNewStateObject C D addr s of (obj, s) \<Rightarrow> snd (Object_SetBalance addr amount obj s))"

definition SetNonce :: "crypto \<Rightarrow> reader \<Rightarrow> address \<Rightarrow> u64 \<Rightarrow> StateDB \<Rightarrow> StateDB" where
  "SetNonce C D addr nonce s =
     (case getOrNewStateObject C D addr s of (obj, s) \<Rightarrow> Object_SetNonce addr nonce obj s)"

definition SetCode :: "crypto \<Rightarrow> reader \<Rightarrow> address \<Rightarrow> bytes \<Rightarrow> StateDB \<Rightarrow> bytes \<times> StateDB" where
  "SetCode C D addr c s =
     (case getOrNewStateObject C D addr s of (obj, s) \<Rightarrow> Object_SetCode addr (keccak256 C c) c obj s)"

definition SetState :: "crypto \<Rightarrow> reader \<Rightarrow> address \<Rightarrow> hash \<Rightarrow> hash \<Rightarrow> StateDB \<Rightarrow> hash \<times> StateDB" where
  "SetState C D addr key value s =
     (case getOrNewStateObject C D addr s of (obj, s) \<Rightarrow> Object_SetState D addr key value obj s)"

definition SelfDestruct :: "crypto \<Rightarrow> reader \<Rightarrow> address \<Rightarrow> StateDB \<Rightarrow> u256 \<times> StateDB" where
  "SelfDestruct C D addr s =
     (case getStateObject C D addr s of
        (None, s) \<Rightarrow> (0, s)
      | (Some obj, s) \<Rightarrow>
          (let prevBalance = accBalance (objData obj);
               s = (if prevBalance \<noteq> 0 then snd (Object_SetBalance addr 0 obj s) else s);
               s = (if \<not> selfDestructed obj
                    then updObject addr (\<lambda>obj. obj\<lparr> selfDestructed := True \<rparr>) (appendJournal (selfDestructChange addr) s) else s)
           in (prevBalance, s)))"

definition SelfDestruct6780 :: "crypto \<Rightarrow> reader \<Rightarrow> address \<Rightarrow> StateDB \<Rightarrow> (u256 \<times> bool) \<times> StateDB" where
  "SelfDestruct6780 C D addr s =
     (case getStateObject C D addr s of
        (None, s) \<Rightarrow> ((0, False), s)
      | (Some obj, s) \<Rightarrow>
          if newContract obj then (case SelfDestruct C D addr s of (prev, s) \<Rightarrow> ((prev, True), s))
          else ((accBalance (objData obj), False), s))"

definition setTransientState :: "address \<Rightarrow> hash \<Rightarrow> hash \<Rightarrow> StateDB \<Rightarrow> StateDB" where
  "setTransientState addr key value s = s\<lparr> transientMap := Transient_Set addr key value (transientMap s) \<rparr>"

definition SetTransientState :: "address \<Rightarrow> hash \<Rightarrow> hash \<Rightarrow> StateDB \<Rightarrow> StateDB" where
  "SetTransientState addr key value s =
     (let prev = GetTransientState addr key s in
      if prev = value then s
      else setTransientState addr key value (appendJournal (transientStorageChange addr key prev) s))"

definition CreateAccount :: "crypto \<Rightarrow> address \<Rightarrow> StateDB \<Rightarrow> StateDB" where
  "CreateAccount C addr s = createObject C addr s"

text \<open>The account has to exist.\<close>

definition CreateContract :: "crypto \<Rightarrow> reader \<Rightarrow> address \<Rightarrow> StateDB \<Rightarrow> unit result \<times> StateDB" where
  "CreateContract C D addr s =
     (case getStateObject C D addr s of
        (None, s) \<Rightarrow> (Inl Panic, s)
      | (Some obj, s) \<Rightarrow>
          if newContract obj then (Inr (), s)
          else (Inr (), appendJournal (createContractChange addr) (updObject addr (\<lambda>obj. obj\<lparr> newContract := True \<rparr>) s)))"

definition AddAddressToAccessList :: "address \<Rightarrow> StateDB \<Rightarrow> StateDB" where
  "AddAddressToAccessList addr s =
     (case AddAddress addr (accList s) of
        (added, al) \<Rightarrow>
          (let s = s\<lparr> accList := al \<rparr> in if added then appendJournal (accessListAddAccountChange addr) s else s))"

definition AddSlotToAccessList :: "address \<Rightarrow> hash \<Rightarrow> StateDB \<Rightarrow> unit result \<times> StateDB" where
  "AddSlotToAccessList addr slot s =
     (case AddSlot addr slot (accList s) of
        (Inl e, al) \<Rightarrow> (Inl e, s)
      | (Inr (addrMod, slotMod), al) \<Rightarrow>
          (let s = s\<lparr> accList := al \<rparr>;
               s = (if addrMod then appendJournal (accessListAddAccountChange addr) s else s);
               s = (if slotMod then appendJournal (accessListAddSlotChange addr slot) s else s)
           in (Inr (), s)))"

text \<open>The start of a transaction. \<open>rules\<close> are the fork rules, \<open>dst\<close> is \<open>None\<close> when a contract is created.\<close>

definition StateDB_Prepare ::
  "Rules \<Rightarrow> address \<Rightarrow> address \<Rightarrow> address option \<Rightarrow> address list \<Rightarrow> (address \<times> hash list) list \<Rightarrow> StateDB \<Rightarrow> unit result \<times> StateDB" where
  "StateDB_Prepare rules sender coinbase dst precompiles accesses s =
     (if rIsEIP2929 rules \<and> rIsEIP4762 rules then (Inl Panic, s)
      else
        (let add = (\<lambda>a al. snd (AddAddress a al));
             al = add sender newAccessList;
             al = (case dst of None \<Rightarrow> al | Some a \<Rightarrow> add a al);
             al = fold add precompiles al;
             al = fold (\<lambda>(a, keys) al. fold (\<lambda>k al. snd (AddSlot a k al)) keys (add a al)) accesses al;
             al = (if rIsShanghai rules then add coinbase al else al)
         in (Inr (), s\<lparr> accList := (if rIsEIP2929 rules then al else accList s), transientMap := [] \<rparr>)))"

definition ClearAccessList :: "StateDB \<Rightarrow> StateDB" where
  "ClearAccessList s = s\<lparr> accList := newAccessList \<rparr>"

definition SetTxContext :: "hash \<Rightarrow> u64 \<Rightarrow> StateDB \<Rightarrow> StateDB" where
  "SetTxContext h ti s = s\<lparr> thash := h, txIndex := ti \<rparr>"

section \<open>Undoing\<close>

text \<open>A write to the object of an address, which panics if there is none.\<close>

definition withObject :: "crypto \<Rightarrow> reader \<Rightarrow> address \<Rightarrow> (stateObject \<Rightarrow> stateObject) \<Rightarrow> StateDB \<Rightarrow> unit result \<times> StateDB" where
  "withObject C D addr f s =
     (case getStateObject C D addr s of (None, s) \<Rightarrow> (Inl Panic, s) | (Some _, s) \<Rightarrow> (Inr (), updObject addr f s))"

fun revertEntry :: "crypto \<Rightarrow> reader \<Rightarrow> journalEntry \<Rightarrow> StateDB \<Rightarrow> unit result \<times> StateDB" where
  "revertEntry C D (createObjectChange a) s = (Inr (), s\<lparr> stateObjects := gm_del a (stateObjects s) \<rparr>)"
| "revertEntry C D (createContractChange a) s = withObject C D a (\<lambda>obj. obj\<lparr> newContract := False \<rparr>) s"
| "revertEntry C D (selfDestructChange a) s =
     (Inr (), updObject a (\<lambda>obj. obj\<lparr> selfDestructed := False \<rparr>) (snd (getStateObject C D a s)))"
| "revertEntry C D (balanceChange a prev) s = withObject C D a (setBalance prev) s"
| "revertEntry C D (nonceChange a prev) s = withObject C D a (setNonce prev) s"
| "revertEntry C D (storageChange a key prev orig) s = withObject C D a (setState key prev orig) s"
| "revertEntry C D (codeChange a prev) s = withObject C D a (setCode (keccak256 C prev) prev) s"
| "revertEntry C D (refundChange prev) s = (Inr (), s\<lparr> refund := prev \<rparr>)"
| "revertEntry C D (addLogChange h) s =
     (let ls = (case gm_get (logs s) h of None \<Rightarrow> [] | Some ls \<Rightarrow> ls) in
      if ls = [] then (Inl Panic, s)
      else (Inr (), s\<lparr> logs := (if length ls = 1 then gm_del h (logs s) else gm_put h (butlast ls) (logs s)),
                      logSize := logSize s - 1 \<rparr>))"
| "revertEntry C D (touchChange a) s = (Inr (), s)"
| "revertEntry C D (accessListAddAccountChange a) s = (Inr (), s\<lparr> accList := DeleteAddress a (accList s) \<rparr>)"
| "revertEntry C D (accessListAddSlotChange a slot) s =
     (case DeleteSlot a slot (accList s) of Inl e \<Rightarrow> (Inl e, s) | Inr al \<Rightarrow> (Inr (), s\<lparr> accList := al \<rparr>))"
| "revertEntry C D (transientStorageChange a key prev) s = (Inr (), setTransientState a key prev s)"

text \<open>The entries in the order in which they are undone.\<close>

fun revertEntries :: "crypto \<Rightarrow> reader \<Rightarrow> journalEntry list \<Rightarrow> StateDB \<Rightarrow> unit result \<times> StateDB" where
  "revertEntries C D [] s = (Inr (), s)"
| "revertEntries C D (e # es) s =
     (case revertEntry C D e s of
        (Inl err, s) \<Rightarrow> (Inl err, s)
      | (Inr _, s) \<Rightarrow> revertEntries C D es (s\<lparr> sdbJournal := undirty e (sdbJournal s) \<rparr>))"

definition journal_revert :: "crypto \<Rightarrow> reader \<Rightarrow> nat \<Rightarrow> StateDB \<Rightarrow> unit result \<times> StateDB" where
  "journal_revert C D index s =
     (case revertEntries C D (rev (drop index (entries (sdbJournal s)))) s of
        (Inl err, s) \<Rightarrow> (Inl err, s)
      | (Inr _, s) \<Rightarrow> (Inr (), s\<lparr> sdbJournal := (sdbJournal s)\<lparr> entries := take index (entries (sdbJournal s)) \<rparr> \<rparr>))"

definition StateDB_Snapshot :: "StateDB \<Rightarrow> nat \<times> StateDB" where
  "StateDB_Snapshot s = (case journal_snapshot (sdbJournal s) of (revid, j) \<Rightarrow> (revid, s\<lparr> sdbJournal := j \<rparr>))"

definition RevertToSnapshot :: "crypto \<Rightarrow> reader \<Rightarrow> nat \<Rightarrow> StateDB \<Rightarrow> unit result \<times> StateDB" where
  "RevertToSnapshot C D revid s =
     (let revs = validRevisions (sdbJournal s);
          idx = Search (length revs) (\<lambda>i. revId (revs ! i) \<ge> revid)
      in if idx = length revs \<or> revId (revs ! idx) \<noteq> revid then (Inl Panic, s)
         else (case journal_revert C D (journalIndex (revs ! idx)) s of
             (Inl err, s) \<Rightarrow> (Inl err, s)
           | (Inr _, s) \<Rightarrow> (Inr (), s\<lparr> sdbJournal := (sdbJournal s)\<lparr> validRevisions := take idx revs \<rparr> \<rparr>)))"

section \<open>The end of a transaction\<close>

definition markDelete :: "address \<Rightarrow> StateDB \<Rightarrow> StateDB" where
  "markDelete addr s = s\<lparr> mutations := gm_put addr \<lparr> mutTyp = deletion, mutApplied = False \<rparr> (mutations s) \<rparr>"

definition markUpdate :: "address \<Rightarrow> StateDB \<Rightarrow> StateDB" where
  "markUpdate addr s = s\<lparr> mutations := gm_put addr \<lparr> mutTyp = update_mutation, mutApplied = False \<rparr> (mutations s) \<rparr>"

definition finaliseAccount :: "crypto \<Rightarrow> reader \<Rightarrow> bool \<Rightarrow> address \<Rightarrow> StateDB \<Rightarrow> StateDB" where
  "finaliseAccount C D deleteEmptyObjects addr s =
     (case gm_get (stateObjects s) addr of
        None \<Rightarrow> s
      | Some obj \<Rightarrow>
          if selfDestructed obj \<or> deleteEmptyObjects \<and> emptyObject C obj
          then
            (let s = markDelete addr (s\<lparr> stateObjects := gm_del addr (stateObjects s) \<rparr>) in
             if gm_get (stateObjectsDestruct s) addr = None
             then s\<lparr> stateObjectsDestruct := gm_put addr obj (stateObjectsDestruct s) \<rparr> else s)
          else markUpdate addr (Object_finalise D addr obj s))"

definition clearJournalAndRefund :: "StateDB \<Rightarrow> StateDB" where
  "clearJournalAndRefund s = s\<lparr> sdbJournal := journal_reset (sdbJournal s), refund := 0 \<rparr>"

definition Finalise :: "crypto \<Rightarrow> reader \<Rightarrow> bool \<Rightarrow> StateDB \<Rightarrow> StateDB" where
  "Finalise C D deleteEmptyObjects s =
     clearJournalAndRefund (fold (finaliseAccount C D deleteEmptyObjects) (map fst (AList.clearjunk (dirties (sdbJournal s)))) s)"

end
