(* ===== verification/State_View.thy ===== *)
theory State_View
  imports State_Db
begin

text \<open>
  What the state of a block shows to a transaction: the abstract state (\<open>view\<close>) of a state with its caches and storage layers. Reading
  from the database and caching do not change it (\<open>silent\<close>). Every journal entry has an abstract inverse (\<open>undo\<close>).
\<close>

section \<open>The abstract state\<close>

record accView =
  vNonce :: u64
  vBalance :: u256
  vRoot :: hash
  vCodeHash :: hash
  vCode :: bytes
  vState :: "hash \<Rightarrow> hash"
  vCommitted :: "hash \<Rightarrow> hash"
  vDestructed :: bool
  vNewContract :: bool

text \<open>The values of a map over those of a function.\<close>

definition overlay :: "Storage \<Rightarrow> (hash \<Rightarrow> hash) \<Rightarrow> hash \<Rightarrow> hash" where
  "overlay m f = (\<lambda>k. case gm_get m k of Some v \<Rightarrow> v | None \<Rightarrow> f k)"

definition storedView :: "reader \<Rightarrow> StateDB \<Rightarrow> address \<Rightarrow> hash \<Rightarrow> hash" where
  "storedView D s a key =
     (case (if needBadSharedStorage s then rSharedStorage D a key else None) of Some v \<Rightarrow> v | None \<Rightarrow>
      if gm_get (stateObjectsDestruct s) a \<noteq> None then 0
      else case rStorage D a key of Inl e \<Rightarrow> 0 | Inr v \<Rightarrow> v)"

definition committedView :: "reader \<Rightarrow> StateDB \<Rightarrow> address \<Rightarrow> stateObject \<Rightarrow> hash \<Rightarrow> hash" where
  "committedView D s a obj = overlay (pendingStorage obj) (overlay (originStorage obj) (storedView D s a))"

definition codeView :: "crypto \<Rightarrow> reader \<Rightarrow> address \<Rightarrow> stateObject \<Rightarrow> bytes" where
  "codeView C D a obj =
     (if objCode obj \<noteq> [] then objCode obj
      else if accCodeHash (objData obj) = EmptyCodeHash C then []
      else case rCode D a (accCodeHash (objData obj)) of Inl e \<Rightarrow> [] | Inr c \<Rightarrow> c)"

definition objView :: "crypto \<Rightarrow> reader \<Rightarrow> StateDB \<Rightarrow> address \<Rightarrow> stateObject \<Rightarrow> accView" where
  "objView C D s a obj =
     \<lparr> vNonce = accNonce (objData obj), vBalance = accBalance (objData obj), vRoot = accRoot (objData obj),
       vCodeHash = accCodeHash (objData obj), vCode = codeView C D a obj,
       vState = overlay (dirtyStorage obj) (committedView D s a obj),
       vCommitted = committedView D s a obj, vDestructed = selfDestructed obj, vNewContract = newContract obj \<rparr>"

text \<open>The account that is loaded when there is no live object.\<close>

definition baseView :: "crypto \<Rightarrow> reader \<Rightarrow> StateDB \<Rightarrow> address \<Rightarrow> accView option" where
  "baseView C D s a =
     (if gm_get (stateObjectsDestruct s) a \<noteq> None then None
      else case rAccount D a of Inr (Some acct) \<Rightarrow> Some (objView C D s a (newObject C (Some acct))) | _ \<Rightarrow> None)"

definition accountView :: "crypto \<Rightarrow> reader \<Rightarrow> StateDB \<Rightarrow> address \<Rightarrow> accView option" where
  "accountView C D s a =
     (case gm_get (stateObjects s) a of Some obj \<Rightarrow> Some (objView C D s a obj) | None \<Rightarrow> baseView C D s a)"

record sview =
  vAccounts :: "address \<Rightarrow> accView option"
  vBase :: "address \<Rightarrow> accView option"
  vRefund :: u64
  vLogs :: "hash \<Rightarrow> Log list"
  vLogSize :: u64
  vAddresses :: "address \<Rightarrow> int option"
  vSlots :: "hash set list"
  vTransient :: "address \<Rightarrow> hash \<Rightarrow> hash"
  vMutations :: "address \<Rightarrow> mutation option"

definition view :: "crypto \<Rightarrow> reader \<Rightarrow> StateDB \<Rightarrow> sview" where
  "view C D s =
     \<lparr> vAccounts = accountView C D s, vBase = baseView C D s, vRefund = refund s,
       vLogs = (\<lambda>h. case gm_get (logs s) h of None \<Rightarrow> [] | Some ls \<Rightarrow> ls), vLogSize = logSize s,
       vAddresses = gm_get (alAddresses (accList s)), vSlots = map (\<lambda>m. fst ` set m) (alSlots (accList s)),
       vTransient = Transient_Get (transientMap s), vMutations = gm_get (mutations s) \<rparr>"

text \<open>What every reachable abstract state satisfies: code hashes belong to the code, and the indices of the access list are valid.\<close>

definition viewOK :: "crypto \<Rightarrow> sview \<Rightarrow> bool" where
  "viewOK C v \<longleftrightarrow>
     (\<forall>a acc. vAccounts v a = Some acc \<or> vBase v a = Some acc \<longrightarrow> vCodeHash acc = keccak256 C (vCode acc)) \<and>
     {} \<notin> set (vSlots v) \<and>
     (\<forall>a i. vAddresses v a = Some i \<longrightarrow> i = - 1 \<or> 0 \<le> i \<and> nat i < length (vSlots v))"

section \<open>Abstract inverses\<close>

definition onAccount :: "address \<Rightarrow> (accView \<Rightarrow> accView) \<Rightarrow> sview \<Rightarrow> sview option" where
  "onAccount a f v = (case vAccounts v a of None \<Rightarrow> None | Some acc \<Rightarrow> Some (v\<lparr> vAccounts := (vAccounts v)(a \<mapsto> f acc) \<rparr>))"

fun undo :: "crypto \<Rightarrow> journalEntry \<Rightarrow> sview \<Rightarrow> sview option" where
  "undo C (createObjectChange a) v = Some (v\<lparr> vAccounts := (vAccounts v)(a := vBase v a) \<rparr>)"
| "undo C (createContractChange a) v = onAccount a (\<lambda>acc. acc\<lparr> vNewContract := False \<rparr>) v"
| "undo C (selfDestructChange a) v = onAccount a (\<lambda>acc. acc\<lparr> vDestructed := False \<rparr>) v"
| "undo C (balanceChange a prev) v = onAccount a (\<lambda>acc. acc\<lparr> vBalance := prev \<rparr>) v"
| "undo C (nonceChange a prev) v = onAccount a (\<lambda>acc. acc\<lparr> vNonce := prev \<rparr>) v"
| "undo C (storageChange a key prev orig) v =
     (case vAccounts v a of
        None \<Rightarrow> None
      | Some acc \<Rightarrow>
          if vCommitted acc key = orig then onAccount a (\<lambda>acc. acc\<lparr> vState := (vState acc)(key := prev) \<rparr>) v else None)"
| "undo C (codeChange a prev) v = onAccount a (\<lambda>acc. acc\<lparr> vCode := prev, vCodeHash := keccak256 C prev \<rparr>) v"
| "undo C (refundChange prev) v = Some (v\<lparr> vRefund := prev \<rparr>)"
| "undo C (addLogChange h) v =
     (if vLogs v h = [] then None else Some (v\<lparr> vLogs := (vLogs v)(h := butlast (vLogs v h)), vLogSize := vLogSize v - 1 \<rparr>))"
| "undo C (touchChange a) v = Some v"
| "undo C (accessListAddAccountChange a) v = Some (v\<lparr> vAddresses := (vAddresses v)(a := None) \<rparr>)"
| "undo C (accessListAddSlotChange a slot) v =
     (case vAddresses v a of
        None \<Rightarrow> None
      | Some i \<Rightarrow>
          if i < 0 \<or> nat i \<ge> length (vSlots v) then None
          else if vSlots v ! nat i - {slot} = {}
          then Some (v\<lparr> vSlots := take (nat i) (vSlots v), vAddresses := (vAddresses v)(a \<mapsto> - 1) \<rparr>)
          else Some (v\<lparr> vSlots := (vSlots v)[nat i := vSlots v ! nat i - {slot}] \<rparr>))"
| "undo C (transientStorageChange a key prev) v =
     Some (v\<lparr> vTransient := (vTransient v)(a := (vTransient v a)(key := prev)) \<rparr>)"

text \<open>The entries, latest first, lead from one abstract state back to another, through good ones.\<close>

fun chain :: "crypto \<Rightarrow> journalEntry list \<Rightarrow> sview \<Rightarrow> sview \<Rightarrow> bool" where
  "chain C [] v v0 = (v = v0)"
| "chain C (e # es) v v0 = (\<exists>v'. undo C e v = Some v' \<and> viewOK C v' \<and> chain C es v' v0)"

lemma chain_append: "chain C (es @ es') v v0 \<longleftrightarrow> (\<exists>v1. chain C es v v1 \<and> chain C es' v1 v0)"
  by (induction es arbitrary: v) auto

lemma chain_OK: "chain C es v v0 \<Longrightarrow> viewOK C v \<Longrightarrow> viewOK C v0"
  by (induction es arbitrary: v) auto

section \<open>Reading and caching\<close>

lemma objView_cong:
  "stateObjectsDestruct s' = stateObjectsDestruct s \<Longrightarrow> needBadSharedStorage s' = needBadSharedStorage s \<Longrightarrow>
    objView C D s' = objView C D s"
proof -
  assume "stateObjectsDestruct s' = stateObjectsDestruct s" "needBadSharedStorage s' = needBadSharedStorage s"
  then have "storedView D s' = storedView D s" unfolding storedView_def by presburger
  then have "committedView D s' = committedView D s" unfolding committedView_def by presburger
  then show ?thesis unfolding objView_def by presburger
qed

lemma baseView_cong:
  assumes "stateObjectsDestruct s' = stateObjectsDestruct s" "needBadSharedStorage s' = needBadSharedStorage s"
  shows "baseView C D s' = baseView C D s"
  unfolding baseView_def objView_cong [OF assms] assms(1) ..

lemma setError_simps [simp]:
  "stateObjects (setError e s) = stateObjects s" "stateObjectsDestruct (setError e s) = stateObjectsDestruct s"
  "needBadSharedStorage (setError e s) = needBadSharedStorage s" "refund (setError e s) = refund s"
  "logs (setError e s) = logs s" "logSize (setError e s) = logSize s" "accList (setError e s) = accList s"
  "transientMap (setError e s) = transientMap s" "sdbJournal (setError e s) = sdbJournal s"
  "mutations (setError e s) = mutations s" "thash (setError e s) = thash s" "txIndex (setError e s) = txIndex s"
  by (auto simp: setError_def split: option.splits)

lemma view_cong:
  assumes "\<And>a. accountView C D s' a = accountView C D s a" "stateObjectsDestruct s' = stateObjectsDestruct s"
    "needBadSharedStorage s' = needBadSharedStorage s" "refund s' = refund s" "logs s' = logs s" "logSize s' = logSize s"
    "accList s' = accList s" "transientMap s' = transientMap s" "mutations s' = mutations s"
  shows "view C D s' = view C D s"
proof -
  have "baseView C D s' = baseView C D s" by (rule baseView_cong) (rule assms)+
  then show ?thesis using assms(1,4-) by (simp add: view_def fun_eq_iff)
qed

lemma view_setError [simp]: "view C D (setError e s) = view C D s"
proof (rule view_cong)
  show "accountView C D (setError e s) a = accountView C D s a" for a
    by (simp add: accountView_def baseView_cong [of "setError e s" s] objView_cong [of "setError e s" s] split: option.split)
qed simp_all

lemma updObject_simps [simp]:
  "stateObjectsDestruct (updObject a f s) = stateObjectsDestruct s" "needBadSharedStorage (updObject a f s) = needBadSharedStorage s"
  "refund (updObject a f s) = refund s" "logs (updObject a f s) = logs s" "logSize (updObject a f s) = logSize s"
  "mutations (updObject a f s) = mutations s" "accList (updObject a f s) = accList s" "transientMap (updObject a f s) = transientMap s"
  "sdbJournal (updObject a f s) = sdbJournal s" "thash (updObject a f s) = thash s" "txIndex (updObject a f s) = txIndex s"
  by (simp_all add: updObject_def setStateObject_def split: option.splits)

lemma setStateObject_simps [simp]:
  "stateObjectsDestruct (setStateObject a x s) = stateObjectsDestruct s" "needBadSharedStorage (setStateObject a x s) = needBadSharedStorage s"
  "refund (setStateObject a x s) = refund s" "logs (setStateObject a x s) = logs s" "logSize (setStateObject a x s) = logSize s"
  "mutations (setStateObject a x s) = mutations s" "accList (setStateObject a x s) = accList s" "transientMap (setStateObject a x s) = transientMap s"
  "sdbJournal (setStateObject a x s) = sdbJournal s" "thash (setStateObject a x s) = thash s" "txIndex (setStateObject a x s) = txIndex s"
  "gm_get (stateObjects (setStateObject a x s)) b = (if b = a then Some x else gm_get (stateObjects s) b)"
  by (simp_all add: setStateObject_def update_conv')

lemma get_updObject:
  "gm_get (stateObjects (updObject a f s)) b = (if b = a then map_option f (gm_get (stateObjects s) a) else gm_get (stateObjects s) b)"
  by (auto simp: updObject_def split: option.splits)

text \<open>The abstract effect of a new object and of a write to a live one.\<close>

lemma view_setStateObject:
  "view C D (setStateObject a obj s) = (view C D s)\<lparr> vAccounts := (accountView C D s)(a \<mapsto> objView C D s a obj) \<rparr>"
proof -
  have "objView C D (setStateObject a obj s) = objView C D s" "baseView C D (setStateObject a obj s) = baseView C D s"
    by (rule objView_cong; simp) (rule baseView_cong; simp)
  moreover from this have "accountView C D (setStateObject a obj s) = (accountView C D s)(a \<mapsto> objView C D s a obj)"
    by (intro ext) (simp add: accountView_def split: option.split)
  ultimately show ?thesis by (simp add: view_def)
qed

lemma view_updObject:
  "gm_get (stateObjects s) a = Some obj \<Longrightarrow>
    view C D (updObject a f s) = (view C D s)\<lparr> vAccounts := (accountView C D s)(a \<mapsto> objView C D s a (f obj)) \<rparr>"
  by (simp add: updObject_def view_setStateObject)

lemma view_accounts [simp]: "vAccounts (view C D s) = accountView C D s" "vBase (view C D s) = baseView C D s"
  by (simp_all add: view_def)

lemma upd_same: "m a = Some x \<Longrightarrow> v\<lparr> vAccounts := m(a \<mapsto> x) \<rparr> = v\<lparr> vAccounts := m \<rparr>"
  by (simp add: map_upd_triv)

lemma view_self [simp]: "(view C D s)\<lparr> vAccounts := accountView C D s \<rparr> = view C D s"
  by (simp add: view_def)

text \<open>Writes that only fill caches.\<close>

lemma view_updObject_silent:
  assumes "gm_get (stateObjects s) a = Some obj" "objView C D s a (f obj) = objView C D s a obj"
  shows "view C D (updObject a f s) = view C D s"
proof -
  have "accountView C D s a = Some (objView C D s a obj)" using assms(1) by (simp add: accountView_def)
  then show ?thesis using assms(2) by (simp add: view_updObject [OF assms(1)] upd_same)
qed

lemma getStateObject_view:
  assumes "getStateObject C D a s = (r, s')"
  shows "view C D s' = view C D s" "sdbJournal s' = sdbJournal s"
    "r = None \<Longrightarrow> accountView C D s a = None"
    "r = Some obj \<Longrightarrow> gm_get (stateObjects s') a = Some obj \<and> accountView C D s a = Some (objView C D s' a obj)"
    "thash s' = thash s" "txIndex s' = txIndex s"
proof -
  note * = assms [unfolded getStateObject_def]
  consider (live) "gm_get (stateObjects s) a \<noteq> None" "r = gm_get (stateObjects s) a" "s' = s"
    | (gone) "gm_get (stateObjects s) a = None" "r = None" "s' = s \<or> (\<exists>e. s' = setError e s)" "baseView C D s a = None"
    | (load) acct where "gm_get (stateObjects s) a = None" "r = Some (newObject C (Some acct))"
        "s' = setStateObject a (newObject C (Some acct)) s" "baseView C D s a = Some (objView C D s a (newObject C (Some acct)))"
    using * by (force simp: baseView_def Let_def split: option.splits if_splits sum.splits)
  note cases = this
  show "view C D s' = view C D s"
    by (cases rule: cases) (auto simp: view_setStateObject upd_same accountView_def)
  show "sdbJournal s' = sdbJournal s" "thash s' = thash s" "txIndex s' = txIndex s" by (cases rule: cases; auto)+
  show "accountView C D s a = None" if "r = None" using that by (cases rule: cases) (auto simp: accountView_def)
  show "gm_get (stateObjects s') a = Some obj \<and> accountView C D s a = Some (objView C D s' a obj)" if "r = Some obj"
    using that by (cases rule: cases) (auto simp: accountView_def objView_cong [of "setStateObject _ _ s" s])
qed

lemma committedView_obj:
  "pendingStorage obj' = pendingStorage obj \<Longrightarrow> originStorage obj' = originStorage obj \<Longrightarrow> committedView D s a obj' = committedView D s a obj"
  unfolding committedView_def by presburger

lemma committedView_upd [simp]:
  "committedView D s a (setBalance x obj) = committedView D s a obj" "committedView D s a (setNonce n obj) = committedView D s a obj"
  "committedView D s a (setCode h c obj) = committedView D s a obj" "committedView D s a (setState k x y obj) = committedView D s a obj"
  "committedView D s a (obj\<lparr> selfDestructed := b \<rparr>) = committedView D s a obj"
  "committedView D s a (obj\<lparr> newContract := b \<rparr>) = committedView D s a obj"
  "committedView D s a (obj\<lparr> objCode := c \<rparr>) = committedView D s a obj"
  by (rule committedView_obj; simp add: setBalance_def setNonce_def setCode_def setState_def)+

lemma objView_data [simp]:
  "objView C D s a (setBalance x obj) = (objView C D s a obj)\<lparr> vBalance := x \<rparr>"
  "objView C D s a (setNonce n obj) = (objView C D s a obj)\<lparr> vNonce := n \<rparr>"
  "objView C D s a (obj\<lparr> selfDestructed := b \<rparr>) = (objView C D s a obj)\<lparr> vDestructed := b \<rparr>"
  "objView C D s a (obj\<lparr> newContract := b \<rparr>) = (objView C D s a obj)\<lparr> vNewContract := b \<rparr>"
  by (simp_all add: objView_def codeView_def) (simp_all add: setBalance_def setNonce_def)

lemma objView_setCode:
  "objView C D s a (setCode (keccak256 C c) c obj) = (objView C D s a obj)\<lparr> vCode := c, vCodeHash := keccak256 C c \<rparr>"
  by (simp add: objView_def codeView_def) (auto simp: setCode_def EmptyCodeHash_def)

lemma objView_setState:
  assumes "vCommitted (objView C D s a obj) k = orig"
  shows "objView C D s a (setState k x orig obj) = (objView C D s a obj)\<lparr> vState := (vState (objView C D s a obj))(k := x) \<rparr>"
  using assms by (simp add: objView_def codeView_def) (auto simp: setState_def overlay_def update_conv' delete_conv' fun_eq_iff)

lemma overlay_put: "overlay (gm_put k x m) f = (overlay m f)(k := x)"
  by (auto simp: overlay_def update_conv')

lemma objView_cache:
  assumes "gm_get (pendingStorage obj) k = None" "committedView D s a obj k = x"
  shows "objView C D s a (obj\<lparr> originStorage := gm_put k x (originStorage obj) \<rparr>) = objView C D s a obj"
proof -
  have "overlay (originStorage obj) (storedView D s a) k = x" using assms by (simp add: committedView_def overlay_def)
  then have "committedView D s a (obj\<lparr> originStorage := gm_put k x (originStorage obj) \<rparr>) = committedView D s a obj"
    by (simp add: committedView_def overlay_put fun_upd_idem)
  then show ?thesis by (simp add: objView_def codeView_def)
qed

text \<open>A step that changes nothing that can be seen: the abstract state, the journal and the transaction context stay, and live
  objects stay live with the same view.\<close>

definition silent :: "crypto \<Rightarrow> reader \<Rightarrow> StateDB \<Rightarrow> StateDB \<Rightarrow> bool" where
  "silent C D s s' \<longleftrightarrow> view C D s' = view C D s \<and> sdbJournal s' = sdbJournal s \<and> thash s' = thash s \<and> txIndex s' = txIndex s \<and>
     (\<forall>a. gm_get (stateObjects s) a \<noteq> None \<longrightarrow> gm_get (stateObjects s') a \<noteq> None)"

lemma silent_refl [simp]: "silent C D s s"
  by (simp add: silent_def)

lemma silent_setError [simp]: "silent C D s (setError e s)"
  by (simp add: silent_def)

lemma silent_trans: "silent C D s s1 \<Longrightarrow> silent C D s1 s2 \<Longrightarrow> silent C D s s2"
  by (simp add: silent_def)

lemma silent_getStateObject: "getStateObject C D a s = (r, s') \<Longrightarrow> silent C D s s'"
  using getStateObject_view [of C D a s r s'] unfolding silent_def getStateObject_def
  by (auto split: option.splits if_splits sum.splits simp: Let_def)

lemma silent_updObject:
  "gm_get (stateObjects s) a = Some obj \<Longrightarrow> objView C D s a (f obj) = objView C D s a obj \<Longrightarrow> silent C D s (updObject a f s)"
  by (auto simp: silent_def view_updObject_silent get_updObject)

lemma live_view: "gm_get (stateObjects s) a = Some obj \<Longrightarrow> accountView C D s a = Some (objView C D s a obj)"
  by (simp add: accountView_def)

lemma silent_objView:
  assumes "silent C D s s'" "gm_get (stateObjects s) a = Some obj"
  obtains obj' where "gm_get (stateObjects s') a = Some obj'" "objView C D s' a obj' = objView C D s a obj"
proof -
  obtain obj' where obj': "gm_get (stateObjects s') a = Some obj'" using assms by (auto simp: silent_def)
  have "accountView C D s' = accountView C D s" using assms(1) view_accounts(1) by (metis silent_def)
  with live_view [OF obj', of C D] live_view [OF assms(2), of C D] have "objView C D s' a obj' = objView C D s a obj" by simp
  with obj' that show thesis by blast
qed

lemma GetCommittedState_silent:
  assumes "gm_get (stateObjects s) a = Some obj" "GetCommittedState D a k obj s = (x, s')"
  shows "x = vCommitted (objView C D s a obj) k" "silent C D s s'"
    "\<exists>obj'. gm_get (stateObjects s') a = Some obj' \<and> objView C D s' a obj' = objView C D s a obj \<and> dirtyStorage obj' = dirtyStorage obj"
proof -
  let ?c = "\<lambda>obj. obj\<lparr> originStorage := gm_put k x (originStorage obj) \<rparr>"
  have com: "committedView D s a obj k =
      (case gm_get (pendingStorage obj) k of Some v \<Rightarrow> v | None \<Rightarrow> case gm_get (originStorage obj) k of Some v \<Rightarrow> v | None \<Rightarrow> storedView D s a k)"
    by (simp add: committedView_def overlay_def)
  have "x = committedView D s a obj k \<and> (s' = s \<or> (\<exists>e. s' = setError e s) \<or> gm_get (pendingStorage obj) k = None \<and> s' = updObject a ?c s)"
  proof (cases "gm_get (pendingStorage obj) k")
    case None
    note pending = this
    show ?thesis
    proof (cases "gm_get (originStorage obj) k")
      case None
      with assms(2) pending show ?thesis unfolding GetCommittedState_def com storedView_def
        by (simp add: Let_def split: option.splits if_splits sum.splits) blast+
    next
      case (Some v)
      with assms(2) pending show ?thesis unfolding com by (simp add: GetCommittedState_def Let_def)
    qed
  next
    case (Some v)
    with assms(2) show ?thesis unfolding com by (simp add: GetCommittedState_def Let_def)
  qed
  then consider (hit) "s' = s \<or> (\<exists>e. s' = setError e s)" "x = committedView D s a obj k"
    | (fill) "s' = updObject a ?c s" "x = committedView D s a obj k" "gm_get (pendingStorage obj) k = None"
    by (elim conjE disjE) simp_all
  note cases = this
  show "x = vCommitted (objView C D s a obj) k" by (cases rule: cases) (simp_all add: objView_def)
  show sil: "silent C D s s'"
    by (cases rule: cases) (auto intro: silent_updObject [OF assms(1)] objView_cache)
  show "\<exists>obj'. gm_get (stateObjects s') a = Some obj' \<and> objView C D s' a obj' = objView C D s a obj \<and> dirtyStorage obj' = dirtyStorage obj"
  proof (cases rule: cases)
    case hit
    with assms(1) show ?thesis using objView_cong [of s' s C D] by auto
  next
    case fill
    then have "gm_get (stateObjects s') a = Some (?c obj)" using assms(1) by (simp add: get_updObject)
    moreover have "objView C D s' a (?c obj) = objView C D s a obj"
      using fill objView_cong [of s' s C D] by (simp add: objView_cache)
    ultimately show ?thesis by auto
  qed
qed

lemma Code_silent:
  assumes "gm_get (stateObjects s) a = Some obj" "Object_Code C D a obj s = (c, s')"
  shows "c = vCode (objView C D s a obj)" "silent C D s s'"
proof -
  show "c = vCode (objView C D s a obj)"
    using assms(2) by (auto simp: Object_Code_def objView_def codeView_def Let_def split: if_splits sum.splits)
  have upd: "silent C D s (updObject a (\<lambda>obj. obj\<lparr> objCode := c \<rparr>) s1)"
    if "silent C D s s1" "gm_get (stateObjects s1) a = Some obj" "objCode obj = []" "c = codeView C D a obj" for s1
  proof (rule silent_trans [OF that(1) silent_updObject [OF that(2)]])
    show "objView C D s1 a (obj\<lparr> objCode := c \<rparr>) = objView C D s1 a obj"
      using that(3,4) by (simp add: objView_def) (simp add: codeView_def)
  qed
  show "silent C D s s'"
  proof (cases "objCode obj \<noteq> [] \<or> accCodeHash (objData obj) = EmptyCodeHash C")
    case True
    with assms(2) show ?thesis by (auto simp: Object_Code_def split: if_splits)
  next
    case False
    let ?s1 = "case rCode D a (accCodeHash (objData obj)) of Inl e \<Rightarrow> setError (ErrMsg ''cannot load code hash'') s | Inr b \<Rightarrow> s"
    let ?s2 = "if c = [] then setError (ErrMsg ''code is not found'') ?s1 else ?s1"
    have "silent C D s ?s1" by (simp split: sum.split)
    then have "silent C D s ?s2" using silent_trans silent_setError by auto
    moreover have "gm_get (stateObjects ?s2) a = Some obj" using assms(1) by (simp split: sum.split)
    moreover have "c = codeView C D a obj" "s' = updObject a (\<lambda>obj. obj\<lparr> objCode := c \<rparr>) ?s2"
      using assms(2) False by (auto simp: Object_Code_def codeView_def Let_def split: sum.splits)
    ultimately show ?thesis using upd False by simp
  qed
qed

end
