(* ===== verification/State_Journal.thy ===== *)
theory State_Journal
  imports State_View
begin

text \<open>
  What the operations of a transaction leave in the journal: every write appends entries whose abstract inverses lead back to the abstract
  state before it, undoing an entry on the detailed state is its abstract inverse, and the dirty counters count the entries of an account.
\<close>

section \<open>Undoing on the detailed state\<close>

lemma accountView_cong:
  assumes "stateObjects s' = stateObjects s" "stateObjectsDestruct s' = stateObjectsDestruct s"
    "needBadSharedStorage s' = needBadSharedStorage s"
  shows "accountView C D s' = accountView C D s" "baseView C D s' = baseView C D s"
proof -
  show b: "baseView C D s' = baseView C D s" by (rule baseView_cong [OF assms(2,3)])
  show "accountView C D s' = accountView C D s" unfolding accountView_def b objView_cong [OF assms(2,3)] assms(1) ..
qed

lemma view_fields [simp]:
  "view C D (s\<lparr> refund := x \<rparr>) = (view C D s)\<lparr> vRefund := x \<rparr>"
  "view C D (s\<lparr> transientMap := t \<rparr>) = (view C D s)\<lparr> vTransient := Transient_Get t \<rparr>"
  "view C D (s\<lparr> accList := al \<rparr>) =
    (view C D s)\<lparr> vAddresses := gm_get (alAddresses al), vSlots := map (\<lambda>m. fst ` set m) (alSlots al) \<rparr>"
  "view C D (s\<lparr> logs := l, logSize := n \<rparr>) =
    (view C D s)\<lparr> vLogs := (\<lambda>h. case gm_get l h of None \<Rightarrow> [] | Some ls \<Rightarrow> ls), vLogSize := n \<rparr>"
  "view C D (s\<lparr> sdbJournal := j \<rparr>) = view C D s"
  "view C D (s\<lparr> preimages := pre \<rparr>) = view C D s"
  by (simp_all add: view_def accountView_cong [of "s\<lparr> refund := x \<rparr>" s] accountView_cong [of "s\<lparr> transientMap := t \<rparr>" s]
      accountView_cong [of "s\<lparr> accList := al \<rparr>" s] accountView_cong [of "s\<lparr> logs := l, logSize := n \<rparr>" s]
      accountView_cong [of "s\<lparr> sdbJournal := j \<rparr>" s] accountView_cong [of "s\<lparr> preimages := pre \<rparr>" s])

lemma view_sels [simp]:
  "vRefund (view C D s) = refund s" "vLogs (view C D s) = (\<lambda>h. case gm_get (logs s) h of None \<Rightarrow> [] | Some ls \<Rightarrow> ls)"
  "vLogSize (view C D s) = logSize s" "vAddresses (view C D s) = gm_get (alAddresses (accList s))"
  "vSlots (view C D s) = map (\<lambda>m. fst ` set m) (alSlots (accList s))" "vTransient (view C D s) = Transient_Get (transientMap s)"
  "vMutations (view C D s) = gm_get (mutations s)"
  by (simp_all add: view_def)

lemma view_al_self [simp]:
  "(view C D s)\<lparr> vAddresses := x, vSlots := map (\<lambda>m. fst ` set m) (alSlots (accList s)) \<rparr> = (view C D s)\<lparr> vAddresses := x \<rparr>"
  "(view C D s)\<lparr> vAddresses := gm_get (alAddresses (accList s)), vSlots := y \<rparr> = (view C D s)\<lparr> vSlots := y \<rparr>"
  by (simp_all add: view_def)

lemma view_self2 [simp]:
  "(view C D s)\<lparr> vTransient := Transient_Get (transientMap s) \<rparr> = view C D s" "(view C D s)\<lparr> vRefund := refund s \<rparr> = view C D s"
  "(view C D s)\<lparr> vLogs := (\<lambda>h. case gm_get (logs s) h of None \<Rightarrow> [] | Some ls \<Rightarrow> ls), vLogSize := logSize s \<rparr> = view C D s"
  by (simp_all add: view_def)

lemma withObject_view:
  assumes "accountView C D s a = Some acc"
    and "\<And>obj s1. objView C D s1 a obj = acc \<Longrightarrow> objView C D s1 a (f obj) = g acc"
  obtains s' where "withObject C D a f s = (Inr (), s')" "view C D s' = (view C D s)\<lparr> vAccounts := (accountView C D s)(a \<mapsto> g acc) \<rparr>"
    "sdbJournal s' = sdbJournal s"
proof -
  obtain r s1 where g: "getStateObject C D a s = (r, s1)" by fastforce
  note * = getStateObject_view [OF g]
  obtain obj where r: "r = Some obj" using *(3) assms(1) by fastforce
  have live: "gm_get (stateObjects s1) a = Some obj" and acc: "objView C D s1 a obj = acc" using *(4) [OF r] assms(1) by simp_all
  have same: "accountView C D s1 = accountView C D s" using *(1) view_accounts(1) by metis
  show thesis
  proof (rule that)
    show "withObject C D a f s = (Inr (), updObject a f s1)" using g r by (simp add: withObject_def)
    show "view C D (updObject a f s1) = (view C D s)\<lparr> vAccounts := (accountView C D s)(a \<mapsto> g acc) \<rparr>"
      using view_updObject [OF live] assms(2) [OF acc] *(1) same by simp
    show "sdbJournal (updObject a f s1) = sdbJournal s" using *(2) by simp
  qed
qed

lemma onAccount_Some:
  assumes "onAccount a g (view C D s) = Some v"
    and "\<And>acc obj s1. accountView C D s a = Some acc \<Longrightarrow> objView C D s1 a obj = acc \<Longrightarrow> objView C D s1 a (f obj) = g acc"
  shows "\<exists>s'. withObject C D a f s = (Inr (), s') \<and> view C D s' = v \<and> sdbJournal s' = sdbJournal s"
proof -
  obtain acc where acc: "accountView C D s a = Some acc" and v: "v = (view C D s)\<lparr> vAccounts := (accountView C D s)(a \<mapsto> g acc) \<rparr>"
    using assms(1) by (auto simp: onAccount_def split: option.splits)
  show ?thesis by (rule withObject_view [where f = f and g = g, OF acc assms(2) [OF acc]]) (use v in auto)
qed

lemma Transient_Get_Set: "Transient_Get (Transient_Set a k x t) = (Transient_Get t)(a := (Transient_Get t a)(k := x))"
proof (intro ext)
  fix a' k'
  show "Transient_Get (Transient_Set a k x t) a' k' = ((Transient_Get t)(a := (Transient_Get t a)(k := x))) a' k'"
  proof (cases "gm_get t a")
    case None
    then show ?thesis by (auto simp: Transient_Get_def Transient_Set_def update_conv')
  next
    case (Some m)
    have "gm_get m k'' = None" if "gm_del k m = []" "k'' \<noteq> k" for k''
      using that by (metis delete_conv' fun_upd_other map_of.simps(1))
    with Some show ?thesis by (auto simp: Transient_Get_def Transient_Set_def update_conv' delete_conv' Let_def)
  qed
qed

lemma keys_del: "fst ` set (gm_del k m) = fst ` set m - {k}"
  by (induction m) auto

lemma del_Nil: "gm_del k m = [] \<longleftrightarrow> fst ` set m - {k} = {}"
  by (metis image_is_empty keys_del set_empty)

lemma undo_step:
  assumes "undo C e (view C D s) = Some v"
  shows "\<exists>s'. revertEntry C D e s = (Inr (), s') \<and> view C D s' = v \<and> sdbJournal s' = sdbJournal s"
proof (cases e)
  case (createObjectChange a)
  let ?s = "s\<lparr> stateObjects := gm_del a (stateObjects s) \<rparr>"
  have b: "baseView C D ?s = baseView C D s" "objView C D ?s = objView C D s" by (rule baseView_cong objView_cong; simp)+
  then have "accountView C D ?s = (accountView C D s)(a := baseView C D s a)"
    by (intro ext) (simp add: accountView_def delete_conv' split: option.split)
  then show ?thesis using assms b createObjectChange by (simp add: view_def)
next
  case (selfDestructChange a)
  obtain r s1 where g: "getStateObject C D a s = (r, s1)" by fastforce
  obtain acc where "accountView C D s a = Some acc" using assms selfDestructChange by (auto simp: onAccount_def split: option.splits)
  then have "r \<noteq> None" using getStateObject_view(3) [OF g] by auto
  then have "revertEntry C D e s = withObject C D a (\<lambda>obj. obj\<lparr> selfDestructed := False \<rparr>) s"
    using selfDestructChange g by (auto simp: withObject_def)
  then show ?thesis using onAccount_Some [OF assms [unfolded selfDestructChange undo.simps]] by simp
next
  case (storageChange a key prev orig)
  obtain acc where acc: "accountView C D s a = Some acc" "vCommitted acc key = orig"
    "onAccount a (\<lambda>acc. acc\<lparr> vState := (vState acc)(key := prev) \<rparr>) (view C D s) = Some v"
    using assms storageChange by (auto split: option.splits if_splits)
  show ?thesis unfolding storageChange revertEntry.simps
    by (rule onAccount_Some [OF acc(3)]) (use acc(1,2) objView_setState in auto)
next
  case (addLogChange h)
  let ?ls = "case gm_get (logs s) h of None \<Rightarrow> [] | Some ls \<Rightarrow> ls"
  have ne: "?ls \<noteq> []" and v: "v = (view C D s)\<lparr> vLogs := (vLogs (view C D s))(h := butlast ?ls), vLogSize := logSize s - 1 \<rparr>"
    using assms addLogChange by (auto split: if_splits)
  let ?l = "if length ?ls = 1 then gm_del h (logs s) else gm_put h (butlast ?ls) (logs s)"
  have "(\<lambda>h'. case gm_get ?l h' of None \<Rightarrow> [] | Some ls \<Rightarrow> ls) = (vLogs (view C D s))(h := butlast ?ls)"
    using ne by (auto simp: update_conv' delete_conv' length_Suc_conv split: option.splits)
  then show ?thesis using addLogChange ne v by (simp add: Let_def)
next
  case (accessListAddSlotChange a slot)
  then obtain i where i: "gm_get (alAddresses (accList s)) a = Some i" "0 \<le> i" "nat i < length (alSlots (accList s))"
    using assms by (auto simp: not_le split: option.splits if_splits)
  with assms accessListAddSlotChange show ?thesis
    by (auto simp: DeleteSlot_def Let_def del_Nil keys_del update_conv' take_map map_update fun_upd_def split: if_splits)
next
  case (transientStorageChange a key prev)
  then show ?thesis using assms by (simp add: setTransientState_def Transient_Get_Set)
qed (use assms onAccount_Some in \<open>auto simp: objView_setCode DeleteAddress_def delete_conv' fun_upd_def\<close>)

section \<open>Dirty marks\<close>

definition dirtyCount :: "journalEntry list \<Rightarrow> address \<Rightarrow> nat" where
  "dirtyCount es a = length (filter (\<lambda>e. dirtied e = Some a) es)"

text \<open>The mark of an address counts its entries. The mark of one precompile may be higher: it survives a revert.\<close>

definition markOf :: "nat \<Rightarrow> journalEntry list \<Rightarrow> address \<Rightarrow> int option" where
  "markOf x es a = (let n = dirtyCount es a + (if a = ripemd then x else 0) in if n = 0 then None else Some (int n))"

definition marked :: "(address, int) gomap \<Rightarrow> journalEntry list \<Rightarrow> bool" where
  "marked m es \<longleftrightarrow> (\<exists>x. gm_get m = markOf x es)"

lemma dirtyCount_snoc [simp]: "dirtyCount (es @ [e]) a = dirtyCount es a + (if dirtied e = Some a then 1 else 0)"
  by (simp add: dirtyCount_def)

lemma dirtyCount_Nil [simp]: "dirtyCount [] a = 0"
  by (simp add: dirtyCount_def)

lemma journal_append_simps [simp]:
  "entries (journal_append e j) = entries j @ [e]" "validRevisions (journal_append e j) = validRevisions j"
  "nextRevisionId (journal_append e j) = nextRevisionId j"
  by (simp_all add: journal_append_def journal_dirty_def Let_def split: option.split)

lemma journal_touch_simps [simp]:
  "entries (journal_touchChange a j) = entries j @ [touchChange a]" "validRevisions (journal_touchChange a j) = validRevisions j"
  "nextRevisionId (journal_touchChange a j) = nextRevisionId j"
  by (simp_all add: journal_touchChange_def journal_dirty_def Let_def)

lemma marked_append: "marked (dirties j) es \<Longrightarrow> marked (dirties (journal_append e j)) (es @ [e])"
proof -
  assume "marked (dirties j) es"
  then obtain x where "gm_get (dirties j) = markOf x es" by (auto simp: marked_def)
  then have "gm_get (dirties (journal_append e j)) = markOf x (es @ [e])"
    by (auto simp: journal_append_def journal_dirty_def markOf_def update_conv' Let_def fun_eq_iff split: option.split)
  then show ?thesis by (auto simp: marked_def)
qed

lemma marked_dirty: "marked (dirties j) es \<Longrightarrow> marked (dirties (journal_dirty ripemd j)) es"
proof -
  assume "marked (dirties j) es"
  then obtain x where "gm_get (dirties j) = markOf x es" by (auto simp: marked_def)
  then have "gm_get (dirties (journal_dirty ripemd j)) = markOf (Suc x) es"
    by (auto simp: journal_dirty_def markOf_def update_conv' Let_def fun_eq_iff)
  then show ?thesis by (auto simp: marked_def)
qed

lemma marked_touch: "marked (dirties j) es \<Longrightarrow> marked (dirties (journal_touchChange a j)) (es @ [touchChange a])"
  using marked_append [of j es "touchChange a"] marked_dirty [of "journal_append (touchChange a) j"]
  by (auto simp: journal_touchChange_def Let_def)

lemma marked_undirty: "marked (dirties j) (es @ [e]) \<Longrightarrow> marked (dirties (undirty e j)) es"
proof -
  assume "marked (dirties j) (es @ [e])"
  then obtain x where "gm_get (dirties j) = markOf x (es @ [e])" by (auto simp: marked_def)
  then have "gm_get (dirties (undirty e j)) = markOf x es"
    by (auto simp: undirty_def markOf_def update_conv' delete_conv' Let_def fun_eq_iff split: option.split)
  then show ?thesis by (auto simp: marked_def)
qed

lemma undirty_simps [simp]:
  "entries (undirty e j) = entries j" "validRevisions (undirty e j) = validRevisions j" "nextRevisionId (undirty e j) = nextRevisionId j"
  by (simp_all add: undirty_def Let_def split: option.split)

section \<open>Logged steps\<close>

text \<open>A step that has written to the journal what leads back.\<close>

definition logged :: "crypto \<Rightarrow> reader \<Rightarrow> StateDB \<Rightarrow> StateDB \<Rightarrow> bool" where
  "logged C D s s' \<longleftrightarrow> viewOK C (view C D s') \<and> thash s' = thash s \<and> txIndex s' = txIndex s \<and>
     (\<exists>es. entries (sdbJournal s') = entries (sdbJournal s) @ es \<and> chain C (rev es) (view C D s') (view C D s)) \<and>
     validRevisions (sdbJournal s') = validRevisions (sdbJournal s) \<and> nextRevisionId (sdbJournal s') = nextRevisionId (sdbJournal s) \<and>
     (marked (dirties (sdbJournal s)) (entries (sdbJournal s)) \<longrightarrow> marked (dirties (sdbJournal s')) (entries (sdbJournal s')))"

lemma logged_OK: "logged C D s s' \<Longrightarrow> viewOK C (view C D s')"
  by (simp add: logged_def)

lemma logged_silent: "silent C D s s' \<Longrightarrow> viewOK C (view C D s) \<Longrightarrow> logged C D s s'"
  by (auto simp: logged_def silent_def)

lemma logged_trans:
  assumes "logged C D s s1" "logged C D s1 s2" shows "logged C D s s2"
proof -
  from assms obtain es es' where "entries (sdbJournal s1) = entries (sdbJournal s) @ es" "chain C (rev es) (view C D s1) (view C D s)"
    "entries (sdbJournal s2) = entries (sdbJournal s1) @ es'" "chain C (rev es') (view C D s2) (view C D s1)"
    unfolding logged_def by blast
  then have "entries (sdbJournal s2) = entries (sdbJournal s) @ (es @ es')" "chain C (rev (es @ es')) (view C D s2) (view C D s)"
    by (auto simp: chain_append)
  with assms show ?thesis unfolding logged_def by metis
qed

lemma logged_entry:
  assumes "sdbJournal s' = journal_append e (sdbJournal s)" "thash s' = thash s" "txIndex s' = txIndex s"
    and "undo C e (view C D s') = Some (view C D s)" "viewOK C (view C D s)" "viewOK C (view C D s')"
  shows "logged C D s s'"
  using assms marked_append by (auto simp: logged_def intro!: exI [of _ "[e]"])

lemma viewOK_account:
  assumes "viewOK C v" "vCodeHash acc = keccak256 C (vCode acc)"
  shows "viewOK C (v\<lparr> vAccounts := (vAccounts v)(a \<mapsto> acc) \<rparr>)"
  using assms by (auto simp: viewOK_def)

lemma viewOK_code:
  assumes "viewOK C (view C D s)" "accountView C D s a = Some acc"
  shows "vCodeHash acc = keccak256 C (vCode acc)"
  using assms by (auto simp: viewOK_def)

text \<open>A write to a live object with its entry.\<close>

lemma logged_write:
  assumes "gm_get (stateObjects s) a = Some obj" "viewOK C (view C D s)" "objView C D s a (f obj) = acc"
    and "undo C e ((view C D s)\<lparr> vAccounts := (accountView C D s)(a \<mapsto> acc) \<rparr>) = Some (view C D s)"
    and "vCodeHash acc = keccak256 C (vCode acc)"
  shows "logged C D s (updObject a f (appendJournal e s))"
proof -
  let ?s = "appendJournal e s"
  have v: "view C D ?s = view C D s" and acc: "accountView C D ?s = accountView C D s" "objView C D ?s = objView C D s"
    by (simp_all add: appendJournal_def accountView_cong [of "s\<lparr> sdbJournal := j \<rparr>" s for j] objView_cong [of "s\<lparr> sdbJournal := j \<rparr>" s for j])
  have "view C D (updObject a f ?s) = (view C D s)\<lparr> vAccounts := (accountView C D s)(a \<mapsto> acc) \<rparr>"
    using view_updObject [of ?s a obj C D f] assms(1,3) v acc by (simp add: appendJournal_def)
  moreover have "viewOK C ((view C D s)\<lparr> vAccounts := (accountView C D s)(a \<mapsto> acc) \<rparr>)"
    using viewOK_account [OF assms(2,5), of a] by simp
  ultimately show ?thesis using assms(2,4) by (intro logged_entry [where e = e]) (simp_all add: appendJournal_def)
qed

section \<open>Every operation is logged\<close>

lemma objView_new [simp]:
  "vCode (objView C D s a (newObject C None)) = []" "vCodeHash (objView C D s a (newObject C None)) = keccak256 C []"
  by (simp_all add: objView_def codeView_def newObject_def NewEmptyStateAccount_def EmptyCodeHash_def)

lemma createObject_logged:
  assumes "accountView C D s a = None" "viewOK C (view C D s)"
  shows "logged C D s (createObject C a s)" "gm_get (stateObjects (createObject C a s)) a = Some (newObject C None)"
proof -
  let ?s = "appendJournal (createObjectChange a) s" and ?acc = "objView C D s a (newObject C None)"
  have v: "view C D ?s = view C D s" and acc: "accountView C D ?s = accountView C D s" "objView C D ?s = objView C D s"
    by (simp_all add: appendJournal_def accountView_cong [of "s\<lparr> sdbJournal := j \<rparr>" s for j] objView_cong [of "s\<lparr> sdbJournal := j \<rparr>" s for j])
  have base: "baseView C D s a = None" using assms(1) by (simp add: accountView_def split: option.splits)
  have new: "view C D (createObject C a s) = (view C D s)\<lparr> vAccounts := (accountView C D s)(a \<mapsto> ?acc) \<rparr>"
    by (simp add: createObject_def view_setStateObject v acc)
  have "undo C (createObjectChange a) (view C D (createObject C a s)) = Some (view C D s)"
    using base assms(1) unfolding new by (simp add: fun_upd_idem)
  moreover have "viewOK C (view C D (createObject C a s))" using viewOK_account [OF assms(2), of ?acc a] unfolding new by simp
  ultimately show "logged C D s (createObject C a s)"
    using assms(2) by (intro logged_entry [where e = "createObjectChange a"]) (simp_all add: createObject_def appendJournal_def)
qed (simp add: createObject_def)

lemma getOrNew_logged:
  assumes "getOrNewStateObject C D a s = (obj, s')" "viewOK C (view C D s)"
  shows "logged C D s s'" "gm_get (stateObjects s') a = Some obj" "viewOK C (view C D s')"
    "vCode (objView C D s' a obj) = (case accountView C D s a of None \<Rightarrow> [] | Some acc \<Rightarrow> vCode acc)"
proof -
  obtain r s1 where g: "getStateObject C D a s = (r, s1)" by fastforce
  note * = getStateObject_view [OF g]
  have ok: "viewOK C (view C D s1)" using *(1) assms(2) by simp
  have "logged C D s s' \<and> gm_get (stateObjects s') a = Some obj \<and>
      vCode (objView C D s' a obj) = (case accountView C D s a of None \<Rightarrow> [] | Some acc \<Rightarrow> vCode acc)"
  proof (cases r)
    case None
    then have new: "obj = newObject C None" "s' = createObject C a s1" using assms(1) g by (simp_all add: getOrNewStateObject_def)
    have none: "accountView C D s a = None" "accountView C D s1 a = None" using *(1,3) None view_accounts(1) by metis+
    show ?thesis using createObject_logged [OF none(2) ok] logged_trans [OF logged_silent [OF silent_getStateObject [OF g] assms(2)]] new none(1) by simp
  next
    case (Some x)
    then show ?thesis using assms g *(4) [of obj] logged_silent [OF silent_getStateObject [OF g]] by (auto simp: getOrNewStateObject_def)
  qed
  then show "logged C D s s'" "gm_get (stateObjects s') a = Some obj" "viewOK C (view C D s')"
    "vCode (objView C D s' a obj) = (case accountView C D s a of None \<Rightarrow> [] | Some acc \<Rightarrow> vCode acc)"
    using logged_OK by blast+
qed

lemma undo_account:
  assumes "accountView C D s a = Some acc" "g acc' = acc"
  shows "onAccount a g ((view C D s)\<lparr> vAccounts := (accountView C D s)(a \<mapsto> acc') \<rparr>) = Some (view C D s)"
  using assms by (simp add: onAccount_def map_upd_triv)

lemma objView_self [simp]:
  "(objView C D s a obj)\<lparr> vBalance := accBalance (objData obj) \<rparr> = objView C D s a obj"
  "(objView C D s a obj)\<lparr> vNonce := accNonce (objData obj) \<rparr> = objView C D s a obj"
  "(objView C D s a obj)\<lparr> vDestructed := selfDestructed obj \<rparr> = objView C D s a obj"
  "(objView C D s a obj)\<lparr> vNewContract := newContract obj \<rparr> = objView C D s a obj"
  by (simp_all add: objView_def)

text \<open>Writes to an object.\<close>

lemma Object_SetBalance_logged:
  assumes "gm_get (stateObjects s) a = Some obj" "viewOK C (view C D s)"
  shows "logged C D s (snd (Object_SetBalance a x obj s))"
proof -
  note acc = live_view [OF assms(1), of C D]
  show ?thesis unfolding Object_SetBalance_def Let_def snd_conv
    by (rule logged_write [OF assms refl])
      (use viewOK_code [OF assms(2) acc] in \<open>auto intro!: undo_account [OF acc]\<close>)
qed

lemma Object_SetNonce_logged:
  assumes "gm_get (stateObjects s) a = Some obj" "viewOK C (view C D s)"
  shows "logged C D s (Object_SetNonce a x obj s)"
proof -
  note acc = live_view [OF assms(1), of C D]
  show ?thesis unfolding Object_SetNonce_def
    by (rule logged_write [OF assms refl])
      (use viewOK_code [OF assms(2) acc] in \<open>auto intro!: undo_account [OF acc]\<close>)
qed

lemma Object_SetCode_logged:
  assumes "gm_get (stateObjects s) a = Some obj" "viewOK C (view C D s)" "objCode obj = vCode (objView C D s a obj)"
  shows "logged C D s (snd (Object_SetCode a (keccak256 C c) c obj s))"
proof -
  note acc = live_view [OF assms(1), of C D]
  show ?thesis unfolding Object_SetCode_def snd_conv
    by (rule logged_write [OF assms(1,2) refl])
      (use viewOK_code [OF assms(2) acc] assms(3) in \<open>auto intro!: undo_account [OF acc] simp: objView_setCode\<close>)
qed

lemma Object_SetState_logged:
  assumes "gm_get (stateObjects s) a = Some obj" "viewOK C (view C D s)"
  shows "logged C D s (snd (Object_SetState D a k x obj s))"
proof -
  obtain orig s1 where g: "GetCommittedState D a k obj s = (orig, s1)" by fastforce
  note * = GetCommittedState_silent [OF assms(1) g, where C = C]
  obtain obj' where obj': "gm_get (stateObjects s1) a = Some obj'" "objView C D s1 a obj' = objView C D s a obj" using *(3) by blast
  let ?prev = "case gm_get (dirtyStorage obj) k of Some v \<Rightarrow> v | None \<Rightarrow> orig"
  have prev: "?prev = vState (objView C D s a obj) k" using *(1) by (simp add: objView_def overlay_def split: option.split)
  have st: "getState D a k obj s = ((?prev, orig), s1)" using g by (simp add: getState_def split: option.split)
  have ok: "viewOK C (view C D s1)" using *(2) assms(2) by (simp add: silent_def)
  note acc = live_view [OF obj'(1), of C D]
  have "logged C D s1 (updObject a (setState k x orig) (appendJournal (storageChange a k ?prev orig) s1))"
  proof (rule logged_write [OF obj'(1) ok])
    show "objView C D s1 a (setState k x orig obj') = (objView C D s1 a obj')\<lparr> vState := (vState (objView C D s1 a obj'))(k := x) \<rparr>"
      using objView_setState obj'(2) *(1) by metis
    show "undo C (storageChange a k ?prev orig)
        ((view C D s1)\<lparr> vAccounts := (accountView C D s1)(a \<mapsto> (objView C D s1 a obj')\<lparr> vState := (vState (objView C D s1 a obj'))(k := x) \<rparr>) \<rparr>) = Some (view C D s1)"
      using *(1) obj'(2) prev acc by (simp add: onAccount_def map_upd_triv)
  qed (use viewOK_code [OF ok acc] in simp)
  then show ?thesis using st logged_trans [OF logged_silent [OF *(2) assms(2)]] logged_silent [OF *(2) assms(2)]
    by (simp add: Object_SetState_def)
qed

section \<open>Transactions as sequences of operations\<close>

datatype stateOp =
    OpAddBalance address u256
  | OpSubBalance address u256
  | OpSetBalance address u256
  | OpSetNonce address u64
  | OpSetCode address bytes
  | OpSetState address hash hash
  | OpSelfDestruct address
  | OpSelfDestruct6780 address
  | OpCreateAccount address
  | OpCreateContract address
  | OpSetTransientState address hash hash
  | OpAddRefund u64
  | OpSubRefund u64
  | OpAddLog Log
  | OpAddPreimage hash bytes
  | OpAddAddress address
  | OpAddSlot address hash
  | OpExist address
  | OpGetCode address
  | OpGetState address hash
  | OpSnapshot
  | OpRevert nat

fun runOp :: "crypto \<Rightarrow> reader \<Rightarrow> stateOp \<Rightarrow> StateDB \<Rightarrow> unit result \<times> StateDB" where
  "runOp C D (OpAddBalance a x) s = (Inr (), snd (AddBalance C D a x s))"
| "runOp C D (OpSubBalance a x) s = (Inr (), snd (SubBalance C D a x s))"
| "runOp C D (OpSetBalance a x) s = (Inr (), SetBalance C D a x s)"
| "runOp C D (OpSetNonce a n) s = (Inr (), SetNonce C D a n s)"
| "runOp C D (OpSetCode a c) s = (Inr (), snd (SetCode C D a c s))"
| "runOp C D (OpSetState a k x) s = (Inr (), snd (SetState C D a k x s))"
| "runOp C D (OpSelfDestruct a) s = (Inr (), snd (SelfDestruct C D a s))"
| "runOp C D (OpSelfDestruct6780 a) s = (Inr (), snd (SelfDestruct6780 C D a s))"
| "runOp C D (OpCreateAccount a) s = (Inr (), CreateAccount C a s)"
| "runOp C D (OpCreateContract a) s = CreateContract C D a s"
| "runOp C D (OpSetTransientState a k x) s = (Inr (), SetTransientState a k x s)"
| "runOp C D (OpAddRefund g) s = (Inr (), AddRefund g s)"
| "runOp C D (OpSubRefund g) s = SubRefund g s"
| "runOp C D (OpAddLog l) s = (Inr (), AddLog l s)"
| "runOp C D (OpAddPreimage h p) s = (Inr (), AddPreimage h p s)"
| "runOp C D (OpAddAddress a) s = (Inr (), AddAddressToAccessList a s)"
| "runOp C D (OpAddSlot a slot) s = AddSlotToAccessList a slot s"
| "runOp C D (OpExist a) s = (Inr (), snd (Exist C D a s))"
| "runOp C D (OpGetCode a) s = (Inr (), snd (GetCode C D a s))"
| "runOp C D (OpGetState a k) s = (Inr (), snd (GetState C D a k s))"
| "runOp C D OpSnapshot s = (Inr (), snd (StateDB_Snapshot s))"
| "runOp C D (OpRevert revid) s = RevertToSnapshot C D revid s"

text \<open>What the callers of the state obey: an account is created only where there is none, and code is written only where the code is loaded
  or empty.\<close>

fun allowedOp :: "crypto \<Rightarrow> reader \<Rightarrow> stateOp \<Rightarrow> StateDB \<Rightarrow> bool" where
  "allowedOp C D (OpCreateAccount a) s = (\<not> fst (Exist C D a s))"
| "allowedOp C D (OpSetCode a c) s = (objCode (fst (getOrNewStateObject C D a s)) = fst (GetCode C D a s))"
| "allowedOp C D op s = True"

text \<open>A call reverts only to the snapshots taken inside it.\<close>

fun inside :: "nat \<Rightarrow> stateOp \<Rightarrow> bool" where
  "inside base (OpRevert revid) = (base < revid)"
| "inside base op = True"

inductive runs :: "crypto \<Rightarrow> reader \<Rightarrow> nat \<Rightarrow> StateDB \<Rightarrow> stateOp list \<Rightarrow> StateDB \<Rightarrow> bool" for C D base where
  nil: "runs C D base s [] s"
| cons: "runs C D base s (op # ops) s'"
    if "inside base op" "allowedOp C D op s" "runOp C D op s = (Inr (), s1)" "runs C D base s1 ops s'"

lemma with_getOrNew:
  assumes "viewOK C (view C D s)"
    and "\<And>obj s1. gm_get (stateObjects s1) a = Some obj \<Longrightarrow> viewOK C (view C D s1) \<Longrightarrow>
      getOrNewStateObject C D a s = (obj, s1) \<Longrightarrow> logged C D s1 (f obj s1)"
  shows "logged C D s (case getOrNewStateObject C D a s of (obj, s) \<Rightarrow> f obj s)"
proof -
  obtain obj s1 where g: "getOrNewStateObject C D a s = (obj, s1)" by fastforce
  note * = getOrNew_logged [OF g assms(1)]
  show ?thesis using logged_trans [OF *(1) assms(2) [OF *(2,3) g]] g by simp
qed

lemma logged_refl: "viewOK C (view C D s) \<Longrightarrow> logged C D s s"
  by (rule logged_silent) simp_all

lemma touch_logged: "viewOK C (view C D s) \<Longrightarrow> logged C D s (s\<lparr> sdbJournal := journal_touchChange a (sdbJournal s) \<rparr>)"
  using marked_touch by (auto simp: logged_def intro!: exI [of _ "[touchChange a]"])

lemma balance_ops_logged:
  assumes "viewOK C (view C D s)"
  shows "logged C D s (snd (AddBalance C D a x s))" "logged C D s (snd (SubBalance C D a x s))"
    "logged C D s (SetBalance C D a x s)" "logged C D s (SetNonce C D a n s)" "logged C D s (snd (SetState C D a k y s))"
proof -
  note snd_case = prod.case_distrib [of snd]
  show "logged C D s (snd (AddBalance C D a x s))" unfolding AddBalance_def snd_case
    by (rule with_getOrNew [OF assms]) (auto simp: Object_AddBalance_def logged_refl touch_logged Object_SetBalance_logged)
  show "logged C D s (snd (SubBalance C D a x s))" unfolding SubBalance_def snd_case
    by (rule with_getOrNew [OF assms]) (auto simp: logged_refl Object_SetBalance_logged)
  show "logged C D s (SetBalance C D a x s)" unfolding SetBalance_def
    by (rule with_getOrNew [OF assms]) (auto simp: Object_SetBalance_logged)
  show "logged C D s (SetNonce C D a n s)" unfolding SetNonce_def
    by (rule with_getOrNew [OF assms]) (auto simp: Object_SetNonce_logged)
  show "logged C D s (snd (SetState C D a k y s))" unfolding SetState_def snd_case
    by (rule with_getOrNew [OF assms]) (auto simp: Object_SetState_logged)
qed

lemma GetCode_view: "fst (GetCode C D a s) = (case accountView C D s a of None \<Rightarrow> [] | Some acc \<Rightarrow> vCode acc)"
proof -
  obtain r s1 where g: "getStateObject C D a s = (r, s1)" by fastforce
  note * = getStateObject_view [OF g]
  show ?thesis
  proof (cases r)
    case (Some obj)
    obtain c s2 where c: "Object_Code C D a obj s1 = (c, s2)" by fastforce
    show ?thesis using Code_silent(1) [OF _ c] *(4) [OF Some] Some g c by (simp add: GetCode_def)
  qed (use g *(3) in \<open>simp add: GetCode_def\<close>)
qed

lemma SetCode_logged:
  assumes "viewOK C (view C D s)" "objCode (fst (getOrNewStateObject C D a s)) = fst (GetCode C D a s)"
  shows "logged C D s (snd (SetCode C D a c s))"
  unfolding SetCode_def prod.case_distrib [of snd]
proof (rule with_getOrNew [OF assms(1)])
  fix obj s1 assume "gm_get (stateObjects s1) a = Some obj" "viewOK C (view C D s1)" and g: "getOrNewStateObject C D a s = (obj, s1)"
  then show "logged C D s1 (snd (Object_SetCode a (keccak256 C c) c obj s1))"
    using getOrNew_logged(4) [OF g assms(1)] assms(2) by (intro Object_SetCode_logged) (simp_all add: GetCode_view)
qed

lemma flag_write_logged:
  assumes "gm_get (stateObjects s) a = Some obj" "viewOK C (view C D s)"
  shows "\<not> selfDestructed obj \<Longrightarrow> logged C D s (updObject a (\<lambda>obj. obj\<lparr> selfDestructed := True \<rparr>) (appendJournal (selfDestructChange a) s))"
    and "\<not> newContract obj \<Longrightarrow> logged C D s (updObject a (\<lambda>obj. obj\<lparr> newContract := True \<rparr>) (appendJournal (createContractChange a) s))"
proof -
  note acc = live_view [OF assms(1), of C D]
  have self: "(objView C D s a obj)\<lparr> vDestructed := False \<rparr> = objView C D s a obj" if "\<not> selfDestructed obj"
    using that by (simp add: objView_def)
  have new: "(objView C D s a obj)\<lparr> vNewContract := False \<rparr> = objView C D s a obj" if "\<not> newContract obj"
    using that by (simp add: objView_def)
  show "logged C D s (updObject a (\<lambda>obj. obj\<lparr> selfDestructed := True \<rparr>) (appendJournal (selfDestructChange a) s))" if "\<not> selfDestructed obj"
    by (rule logged_write [OF assms refl]) (use viewOK_code [OF assms(2) acc] self [OF that] in \<open>auto intro!: undo_account [OF acc]\<close>)
  show "logged C D s (updObject a (\<lambda>obj. obj\<lparr> newContract := True \<rparr>) (appendJournal (createContractChange a) s))" if "\<not> newContract obj"
    by (rule logged_write [OF assms refl]) (use viewOK_code [OF assms(2) acc] new [OF that] in \<open>auto intro!: undo_account [OF acc]\<close>)
qed

lemma with_getStateObject:
  assumes "viewOK C (view C D s)" "\<And>s1. silent C D s s1 \<Longrightarrow> getStateObject C D a s = (None, s1) \<Longrightarrow> logged C D s1 (f s1)"
    and "\<And>obj s1. gm_get (stateObjects s1) a = Some obj \<Longrightarrow> viewOK C (view C D s1) \<Longrightarrow> logged C D s1 (g obj s1)"
  shows "logged C D s (case getStateObject C D a s of (None, s) \<Rightarrow> f s | (Some obj, s) \<Rightarrow> g obj s)"
proof -
  obtain r s1 where get: "getStateObject C D a s = (r, s1)" by fastforce
  note * = getStateObject_view [OF get] and sil = silent_getStateObject [OF get]
  have "viewOK C (view C D s1)" using *(1) assms(1) by simp
  then show ?thesis using logged_trans [OF logged_silent [OF sil assms(1)]] assms(2) [OF sil] assms(3) [of s1] *(4) get
    by (cases r) simp_all
qed

lemma SelfDestruct_logged:
  assumes "viewOK C (view C D s)" shows "logged C D s (snd (SelfDestruct C D a s))"
proof -
  have "logged C D s1 (let s = if accBalance (objData obj) \<noteq> 0 then snd (Object_SetBalance a 0 obj s1) else s1
      in if \<not> selfDestructed obj then updObject a (\<lambda>obj. obj\<lparr> selfDestructed := True \<rparr>) (appendJournal (selfDestructChange a) s) else s)"
    if live: "gm_get (stateObjects s1) a = Some obj" "viewOK C (view C D s1)" for obj s1
  proof -
    let ?s = "if accBalance (objData obj) \<noteq> 0 then snd (Object_SetBalance a 0 obj s1) else s1"
    have l: "logged C D s1 ?s" using Object_SetBalance_logged [OF live] logged_refl [OF live(2)] by simp
    let ?obj = "if accBalance (objData obj) \<noteq> 0 then setBalance 0 obj else obj"
    have obj': "gm_get (stateObjects ?s) a = Some ?obj" "selfDestructed ?obj = selfDestructed obj"
      using live(1) by (simp_all add: Object_SetBalance_def Let_def get_updObject appendJournal_def setBalance_def)
    show ?thesis using flag_write_logged(1) [OF obj'(1) logged_OK [OF l]] obj'(2) l logged_trans [OF l] by (simp add: Let_def)
  qed
  then have "logged C D s (case getStateObject C D a s of (None, s) \<Rightarrow> s
      | (Some obj, s1) \<Rightarrow> (let s = if accBalance (objData obj) \<noteq> 0 then snd (Object_SetBalance a 0 obj s1) else s1
          in if \<not> selfDestructed obj then updObject a (\<lambda>obj. obj\<lparr> selfDestructed := True \<rparr>) (appendJournal (selfDestructChange a) s) else s))"
    by (intro with_getStateObject [OF assms]) (auto simp: silent_def assms intro: logged_refl)
  then show ?thesis by (auto simp: SelfDestruct_def Let_def split: prod.splits option.splits if_splits)
qed

lemma SelfDestruct6780_logged:
  assumes "viewOK C (view C D s)" shows "logged C D s (snd (SelfDestruct6780 C D a s))"
proof -
  have "logged C D s (case getStateObject C D a s of (None, s) \<Rightarrow> s
      | (Some obj, s) \<Rightarrow> if newContract obj then snd (SelfDestruct C D a s) else s)"
    by (rule with_getStateObject [OF assms]) (auto simp: SelfDestruct_logged silent_def assms intro: logged_refl)
  then show ?thesis by (auto simp: SelfDestruct6780_def split: prod.splits option.splits if_splits)
qed

lemma CreateContract_logged:
  assumes "viewOK C (view C D s)" shows "logged C D s (snd (CreateContract C D a s))"
proof -
  have comm: "appendJournal e (updObject a f s1) = updObject a f (appendJournal e s1)" for e f s1
    by (simp add: appendJournal_def updObject_def setStateObject_def split: option.split)
  have "logged C D s (case getStateObject C D a s of (None, s) \<Rightarrow> s
      | (Some obj, s) \<Rightarrow> if newContract obj then s
          else updObject a (\<lambda>obj. obj\<lparr> newContract := True \<rparr>) (appendJournal (createContractChange a) s))"
    by (rule with_getStateObject [OF assms]) (auto simp: flag_write_logged silent_def assms intro: logged_refl)
  then show ?thesis by (auto simp: CreateContract_def comm split: prod.splits option.splits if_splits)
qed

lemma other_ops_logged:
  assumes "viewOK C (view C D s)"
  shows "logged C D s (SetTransientState a k x s)" "logged C D s (AddRefund g s)" "g \<le> refund s \<Longrightarrow> logged C D s (snd (SubRefund g s))"
    "logged C D s (AddLog l s)" "logged C D s (AddPreimage h p s)"
proof -
  have ok: "viewOK C ((view C D s)\<lparr> vTransient := t \<rparr>)" "viewOK C ((view C D s)\<lparr> vRefund := r \<rparr>)"
    "viewOK C ((view C D s)\<lparr> vLogs := ls, vLogSize := n \<rparr>)" for t r ls n
    using assms by (simp_all add: viewOK_def)
  show "logged C D s (SetTransientState a k x s)"
  proof (cases "GetTransientState a k s = x")
    case False
    then show ?thesis using assms ok
      by (intro logged_entry [where e = "transientStorageChange a k (GetTransientState a k s)"])
        (simp_all add: SetTransientState_def setTransientState_def appendJournal_def Transient_Get_Set GetTransientState_def)
  qed (simp add: SetTransientState_def logged_refl assms)
  show "logged C D s (AddRefund g s)" using assms ok
    by (intro logged_entry [where e = "refundChange (refund s)"]) (simp_all add: AddRefund_def appendJournal_def Let_def)
  show "logged C D s (snd (SubRefund g s))" if "g \<le> refund s" using assms ok that
    by (intro logged_entry [where e = "refundChange (refund s)"]) (simp_all add: SubRefund_def appendJournal_def Let_def not_less)
  show "logged C D s (AddLog l s)" using assms ok
    by (intro logged_entry [where e = "addLogChange (thash s)"])
      (auto simp: AddLog_def appendJournal_def Let_def update_conv' fun_eq_iff)
  show "logged C D s (AddPreimage h p s)"
    by (rule logged_silent [OF _ assms]) (simp add: silent_def AddPreimage_def split: option.split)
qed

text \<open>The access list.\<close>

lemma AddAddress_logged:
  assumes "viewOK C (view C D s)" shows "logged C D s (AddAddressToAccessList a s)"
proof (cases "gm_get (alAddresses (accList s)) a")
  case None
  let ?A = "gm_get (alAddresses (accList s))" and ?s = "AddAddressToAccessList a s"
  have v: "view C D ?s = (view C D s)\<lparr> vAddresses := ?A(a \<mapsto> - 1) \<rparr>" and j: "sdbJournal ?s = journal_append (accessListAddAccountChange a) (sdbJournal s)"
    "thash ?s = thash s" "txIndex ?s = txIndex s"
    using None by (simp_all add: AddAddressToAccessList_def AddAddress_def appendJournal_def update_conv' fun_upd_def)
  show ?thesis
  proof (rule logged_entry [OF j _ assms])
    show "undo C (accessListAddAccountChange a) (view C D ?s) = Some (view C D s)"
      unfolding v using None by (simp add: fun_upd_idem)
    show "viewOK C (view C D ?s)" unfolding v using assms by (auto simp: viewOK_def)
  qed
qed (simp add: AddAddressToAccessList_def AddAddress_def logged_refl assms)

text \<open>A slot of an address without slots, and one of an address with some.\<close>

lemma AddSlot_new_logged:
  assumes ok: "viewOK C (view C D s)" and i: "gm_get (alAddresses (accList s)) a = Some (- 1)"
  shows "logged C D s (appendJournal (accessListAddSlotChange a slot)
    (s\<lparr> accList := (accList s)\<lparr> alAddresses := gm_put a (int (length (alSlots (accList s)))) (alAddresses (accList s)),
      alSlots := alSlots (accList s) @ [[(slot, ())]] \<rparr> \<rparr>))" (is "logged C D s ?s")
proof (rule logged_entry)
  let ?A = "gm_get (alAddresses (accList s))" and ?S = "map (\<lambda>m. fst ` set m) (alSlots (accList s))"
  have v: "view C D ?s = (view C D s)\<lparr> vAddresses := ?A(a \<mapsto> int (length ?S)), vSlots := ?S @ [{slot}] \<rparr>"
    by (simp add: appendJournal_def update_conv' fun_upd_def)
  show "undo C (accessListAddSlotChange a slot) (view C D ?s) = Some (view C D s)"
    unfolding v using i by (simp add: nth_append map_upd_triv)
  show "viewOK C (view C D ?s)" unfolding v using ok by (auto simp: viewOK_def) fastforce+
qed (simp_all add: appendJournal_def ok)

lemma AddSlot_more_logged:
  assumes ok: "viewOK C (view C D s)" and i: "gm_get (alAddresses (accList s)) a = Some i" "0 \<le> i" "nat i < length (alSlots (accList s))"
    and slot: "gm_get (alSlots (accList s) ! nat i) slot = None"
  shows "logged C D s (appendJournal (accessListAddSlotChange a slot)
    (s\<lparr> accList := (accList s)\<lparr> alSlots := (alSlots (accList s))[nat i := gm_put slot () (alSlots (accList s) ! nat i)] \<rparr> \<rparr>))"
    (is "logged C D s ?s")
proof (rule logged_entry)
  let ?S = "map (\<lambda>m. fst ` set m) (alSlots (accList s))" and ?m = "fst ` set (alSlots (accList s) ! nat i)"
  have ins: "fst ` set (gm_put slot () (alSlots (accList s) ! nat i)) = insert slot ?m" by (simp add: dom_map_of_conv_image_fst [symmetric] update_conv')
  then have v: "view C D ?s = (view C D s)\<lparr> vSlots := ?S[nat i := insert slot ?m] \<rparr>"
    by (simp add: appendJournal_def map_update)
  have "slot \<notin> ?m" using slot by (simp add: map_of_eq_None_iff)
  moreover have "?m \<noteq> {}" using ok i(3) by (auto simp: viewOK_def) (metis image_eqI image_is_empty nth_mem set_empty)
  ultimately have "insert slot ?m - {slot} = ?m" "?m \<noteq> {}" by auto
  moreover have "?S[nat i := ?m] = ?S" using i(3) by (metis list_update_id nth_map)
  ultimately show "undo C (accessListAddSlotChange a slot) (view C D ?s) = Some (view C D s)"
    unfolding v using i by simp
  have "{} \<notin> set (?S[nat i := insert slot ?m])" using ok set_update_subset_insert [of ?S "nat i" "insert slot ?m"] by (auto simp: viewOK_def)
  then show "viewOK C (view C D ?s)" unfolding v using ok by (auto simp: viewOK_def)
qed (simp_all add: appendJournal_def ok)

lemma AddSlot_logged:
  assumes ok: "viewOK C (view C D s)" and run: "AddSlotToAccessList a slot s = (Inr (), s')"
  shows "logged C D s s'"
proof (cases "gm_get (alAddresses (accList s)) a")
  case None
  let ?s1 = "AddAddressToAccessList a s"
  have l: "logged C D s ?s1" by (rule AddAddress_logged [OF ok])
  have i: "gm_get (alAddresses (accList ?s1)) a = Some (- 1)"
    using None by (simp add: AddAddressToAccessList_def AddAddress_def appendJournal_def update_conv')
  have "s' = appendJournal (accessListAddSlotChange a slot)
    (?s1\<lparr> accList := (accList ?s1)\<lparr> alAddresses := gm_put a (int (length (alSlots (accList ?s1)))) (alAddresses (accList ?s1)),
      alSlots := alSlots (accList ?s1) @ [[(slot, ())]] \<rparr> \<rparr>)"
    using run None by (auto simp: AddSlotToAccessList_def AddSlot_def AddAddressToAccessList_def AddAddress_def appendJournal_def Let_def)
  then show ?thesis using logged_trans [OF l AddSlot_new_logged [OF logged_OK [OF l] i, of slot]] by simp
next
  case (Some i)
  show ?thesis
  proof (cases "i = - 1")
    case True
    then show ?thesis using run Some AddSlot_new_logged [OF ok, of a slot]
      by (auto simp: AddSlotToAccessList_def AddSlot_def Let_def)
  next
    case False
    then show ?thesis using run Some AddSlot_more_logged [OF ok Some, of slot] logged_refl [OF ok]
      by (auto simp: AddSlotToAccessList_def AddSlot_def Let_def split: if_splits)
  qed
qed

lemma reads_silent:
  "silent C D s (snd (Exist C D a s))" "silent C D s (snd (GetCode C D a s))" "silent C D s (snd (GetState C D a k s))"
proof -
  obtain r s1 where g: "getStateObject C D a s = (r, s1)" by fastforce
  note sil = silent_getStateObject [OF g] and live = getStateObject_view(4) [OF g]
  show "silent C D s (snd (Exist C D a s))" using sil g by (simp add: Exist_def)
  show "silent C D s (snd (GetCode C D a s))"
  proof (cases r)
    case (Some obj)
    obtain c s2 where c: "Object_Code C D a obj s1 = (c, s2)" by fastforce
    show ?thesis using silent_trans [OF sil Code_silent(2) [OF _ c]] live Some g c by (simp add: GetCode_def)
  qed (use sil g in \<open>simp add: GetCode_def\<close>)
  show "silent C D s (snd (GetState C D a k s))"
  proof (cases r)
    case (Some obj)
    obtain c s2 where c: "GetCommittedState D a k obj s1 = (c, s2)" by fastforce
    show ?thesis using silent_trans [OF sil GetCommittedState_silent(2) [OF _ c]] live Some g c
      by (auto simp: GetState_def getState_def split: option.split)
  qed (use sil g in \<open>simp add: GetState_def\<close>)
qed

lemma Exist_view: "fst (Exist C D a s) \<longleftrightarrow> accountView C D s a \<noteq> None"
proof -
  obtain r s1 where g: "getStateObject C D a s = (r, s1)" by fastforce
  show ?thesis using getStateObject_view(3,4) [OF g] g by (cases r) (auto simp: Exist_def)
qed

lemma op_logged:
  assumes "viewOK C (view C D s)" "allowedOp C D op s" "runOp C D op s = (Inr (), s')" "op \<noteq> OpSnapshot" "\<And>i. op \<noteq> OpRevert i"
  shows "logged C D s s'"
proof (cases op)
  case (OpCreateAccount a)
  then show ?thesis using assms createObject_logged(1) by (auto simp: CreateAccount_def Exist_view)
next
  case (OpCreateContract a)
  then show ?thesis using assms(3) CreateContract_logged [OF assms(1), of a] by simp
next
  case (OpSubRefund g)
  then have "g \<le> refund s" using assms(3) by (auto simp: SubRefund_def Let_def appendJournal_def split: if_splits)
  then show ?thesis using assms(3) other_ops_logged(3) [OF assms(1), of g] OpSubRefund by simp
next
  case (OpAddSlot a slot)
  then show ?thesis using assms(3) AddSlot_logged [OF assms(1)] by simp
qed (use assms in \<open>auto intro: balance_ops_logged SetCode_logged SelfDestruct_logged SelfDestruct6780_logged other_ops_logged
    AddAddress_logged logged_silent reads_silent\<close>)

end
