(* ===== verification/State_Revert.thy ===== *)
theory State_Revert
  imports State_Journal
begin

text \<open>
  The journal restores the state: whatever a call does after a snapshot, nested snapshots and reverts included, reverting to the snapshot
  gives back the abstract state of the snapshot. The same holds for every snapshot of a transaction.
\<close>

section \<open>Reverting\<close>

lemma revertEntries_chain:
  assumes "chain C es (view C D s) v0"
  shows "\<exists>s'. revertEntries C D es s = (Inr (), s') \<and> view C D s' = v0 \<and> entries (sdbJournal s') = entries (sdbJournal s) \<and>
    validRevisions (sdbJournal s') = validRevisions (sdbJournal s) \<and> nextRevisionId (sdbJournal s') = nextRevisionId (sdbJournal s) \<and>
    (marked (dirties (sdbJournal s)) (pre @ rev es) \<longrightarrow> marked (dirties (sdbJournal s')) pre)"
  using assms
proof (induction es arbitrary: s)
  case (Cons e es)
  then obtain v' where v': "undo C e (view C D s) = Some v'" "chain C es v' v0" by auto
  obtain s1 where s1: "revertEntry C D e s = (Inr (), s1)" "view C D s1 = v'" "sdbJournal s1 = sdbJournal s"
    using undo_step [OF v'(1)] by blast
  let ?s2 = "s1\<lparr> sdbJournal := undirty e (sdbJournal s1) \<rparr>"
  have "chain C es (view C D ?s2) v0" using v'(2) s1(2) by simp
  from Cons.IH [OF this] s1 marked_undirty [of "sdbJournal s" "pre @ rev es" e] show ?case by auto
qed simp

lemma journal_revert_chain:
  assumes "entries (sdbJournal s) = pre @ es" "chain C (rev es) (view C D s) v0"
  obtains s' where "journal_revert C D (length pre) s = (Inr (), s')" "view C D s' = v0" "entries (sdbJournal s') = pre"
    "validRevisions (sdbJournal s') = validRevisions (sdbJournal s)" "nextRevisionId (sdbJournal s') = nextRevisionId (sdbJournal s)"
    "marked (dirties (sdbJournal s)) (entries (sdbJournal s)) \<Longrightarrow> marked (dirties (sdbJournal s')) pre"
proof -
  obtain s1 where "revertEntries C D (rev es) s = (Inr (), s1)" "view C D s1 = v0" "entries (sdbJournal s1) = entries (sdbJournal s)"
    "validRevisions (sdbJournal s1) = validRevisions (sdbJournal s)" "nextRevisionId (sdbJournal s1) = nextRevisionId (sdbJournal s)"
    "marked (dirties (sdbJournal s)) (pre @ rev (rev es)) \<longrightarrow> marked (dirties (sdbJournal s1)) pre"
    using revertEntries_chain [OF assms(2), of pre] by blast
  with assms(1) show thesis
    by (intro that [of "s1\<lparr> sdbJournal := (sdbJournal s1)\<lparr> entries := pre \<rparr> \<rparr>"]) (simp_all add: journal_revert_def)
qed

text \<open>The binary search finds the first index of a monotone predicate.\<close>

lemma searchFrom_less:
  "i < j \<Longrightarrow> searchFrom f i j = (if f ((i + j) div 2) then searchFrom f i ((i + j) div 2) else searchFrom f ((i + j) div 2 + 1) j)"
  by (subst searchFrom.simps) (simp add: Let_def)

lemma searchFrom_first:
  assumes "i \<le> p" "p \<le> j" "\<And>k. k < p \<Longrightarrow> \<not> f k" "\<And>k. p \<le> k \<Longrightarrow> k < j \<Longrightarrow> f k"
  shows "searchFrom f i j = p"
  using assms
proof (induction "j - i" arbitrary: i j rule: less_induct)
  case less
  show ?case
  proof (cases "i < j")
    case True
    let ?h = "(i + j) div 2"
    have h: "i \<le> ?h" "?h < j" using True by auto
    show ?thesis
    proof (cases "f ?h")
      case fh: True
      then have "p \<le> ?h" using less.prems(3) [of ?h] by (meson not_le)
      then show ?thesis using less.hyps [of ?h i] h fh less.prems True by (simp only: searchFrom_less) simp
    next
      case fh: False
      then have "?h < p" using less.prems(4) [of ?h] h by (meson not_le)
      then show ?thesis using less.hyps [of j "?h + 1"] h fh less.prems True by (simp only: searchFrom_less) simp
    qed
  next
    case False
    then show ?thesis using less.prems(1,2) by (subst searchFrom.simps) (simp del: searchFrom.simps)
  qed
qed

lemma searchFrom_range: "i \<le> j \<Longrightarrow> searchFrom f i j \<le> j"
proof (induction "j - i" arbitrary: i j rule: less_induct)
  case less
  show ?case
  proof (cases "i < j")
    case True
    then have "searchFrom f i ((i + j) div 2) \<le> (i + j) div 2" "searchFrom f ((i + j) div 2 + 1) j \<le> j"
      by (intro less.hyps; simp)+
    moreover have "(i + j) div 2 \<le> j" using True by simp
    ultimately show ?thesis using True by (simp add: searchFrom_less)
  qed (use less.prems in \<open>simp add: searchFrom.simps\<close>)
qed

text \<open>The identifiers of the snapshots ascend, so the search finds the snapshot.\<close>

definition revsOK :: "journal \<Rightarrow> bool" where
  "revsOK j \<longleftrightarrow> sorted_wrt (<) (map revId (validRevisions j)) \<and> sorted (map journalIndex (validRevisions j)) \<and>
     (\<forall>r \<in> set (validRevisions j). revId r < nextRevisionId j \<and> journalIndex r \<le> length (entries j))"

lemma Search_revision:
  assumes "sorted_wrt (<) (map revId revs)" "p < length revs" "revId (revs ! p) = revid"
  shows "Search (length revs) (\<lambda>i. revid \<le> revId (revs ! i)) = p"
  unfolding Search_def
proof (rule searchFrom_first)
  show "\<not> revid \<le> revId (revs ! k)" if "k < p" for k
    using sorted_wrt_nth_less [OF assms(1) that] assms(2,3) that by simp
  show "revid \<le> revId (revs ! k)" if "p \<le> k" "k < length revs" for k
    using sorted_wrt_nth_less [OF assms(1), of p k] assms(3) that by (cases "p = k") auto
qed (use assms in auto)

lemma RevertToSnapshot_found:
  assumes "sorted_wrt (<) (map revId (validRevisions (sdbJournal s)))" "validRevisions (sdbJournal s) = revs @ r # rest"
    and "journal_revert C D (journalIndex r) s = (Inr (), s')"
  shows "RevertToSnapshot C D (revId r) s = (Inr (), s'\<lparr> sdbJournal := (sdbJournal s')\<lparr> validRevisions := revs \<rparr> \<rparr>)"
  using Search_revision [OF assms(1), of "length revs" "revId r"] assms(2,3) by (simp add: RevertToSnapshot_def)

lemma RevertToSnapshot_known:
  assumes "RevertToSnapshot C D revid s = (Inr (), s')"
  obtains revs r rest where "validRevisions (sdbJournal s) = revs @ r # rest" "revId r = revid"
proof -
  let ?revs = "validRevisions (sdbJournal s)"
  define idx where "idx = Search (length ?revs) (\<lambda>i. revid \<le> revId (?revs ! i))"
  have le: "idx \<le> length ?revs" unfolding idx_def Search_def
    using searchFrom_range [of 0 "length ?revs"] by simp
  have "idx \<noteq> length ?revs" "revId (?revs ! idx) = revid"
    using assms unfolding RevertToSnapshot_def Let_def idx_def [symmetric] by (auto split: if_splits)
  then show thesis using le by (intro that [OF id_take_nth_drop]) auto
qed

section \<open>Since a snapshot\<close>

text \<open>What holds between a snapshot of the state \<open>s\<close> and a later state of the same call: the journal has grown by entries that lead back
  to the snapshot, and the revisions taken since lie above it.\<close>

definition revsAbove :: "journal \<Rightarrow> journal \<Rightarrow> revision list \<Rightarrow> bool" where
  "revsAbove j j2 later \<longleftrightarrow> sorted_wrt (<) (map revId later) \<and> sorted (map journalIndex later) \<and>
     (\<forall>r \<in> set later. nextRevisionId j < revId r \<and> revId r < nextRevisionId j2 \<and>
        length (entries j) \<le> journalIndex r \<and> journalIndex r \<le> length (entries j2))"

definition since :: "crypto \<Rightarrow> reader \<Rightarrow> StateDB \<Rightarrow> StateDB \<Rightarrow> bool" where
  "since C D s s2 \<longleftrightarrow>
     (let j = sdbJournal s; j2 = sdbJournal s2 in
      viewOK C (view C D s2) \<and> nextRevisionId j < nextRevisionId j2 \<and>
      (marked (dirties j) (entries j) \<longrightarrow> marked (dirties j2) (entries j2)) \<and>
      (\<exists>es later. entries j2 = entries j @ es \<and> chain C (rev es) (view C D s2) (view C D s) \<and> revsAbove j j2 later \<and>
         validRevisions j2 = validRevisions j @ \<lparr> revId = nextRevisionId j, journalIndex = length (entries j) \<rparr> # later))"

lemma sinceE:
  assumes "since C D s s2"
  obtains es later where "viewOK C (view C D s2)" "nextRevisionId (sdbJournal s) < nextRevisionId (sdbJournal s2)"
    "marked (dirties (sdbJournal s)) (entries (sdbJournal s)) \<longrightarrow> marked (dirties (sdbJournal s2)) (entries (sdbJournal s2))"
    "entries (sdbJournal s2) = entries (sdbJournal s) @ es" "chain C (rev es) (view C D s2) (view C D s)"
    "revsAbove (sdbJournal s) (sdbJournal s2) later"
    "validRevisions (sdbJournal s2) = validRevisions (sdbJournal s) @
      \<lparr> revId = nextRevisionId (sdbJournal s), journalIndex = length (entries (sdbJournal s)) \<rparr> # later"
  using assms unfolding since_def Let_def by blast

lemma since_snapshot: "viewOK C (view C D s) \<Longrightarrow> StateDB_Snapshot s = (revid, s1) \<Longrightarrow> since C D s s1"
  by (auto simp: since_def revsAbove_def StateDB_Snapshot_def journal_snapshot_def)

lemma since_logged:
  assumes "since C D s s2" "logged C D s2 s3"
  shows "since C D s s3"
proof -
  obtain es' where l: "viewOK C (view C D s3)" "entries (sdbJournal s3) = entries (sdbJournal s2) @ es'"
    "chain C (rev es') (view C D s3) (view C D s2)" "validRevisions (sdbJournal s3) = validRevisions (sdbJournal s2)"
    "nextRevisionId (sdbJournal s3) = nextRevisionId (sdbJournal s2)"
    "marked (dirties (sdbJournal s2)) (entries (sdbJournal s2)) \<longrightarrow> marked (dirties (sdbJournal s3)) (entries (sdbJournal s3))"
    using assms(2) by (auto simp: logged_def)
  obtain es later where *: "nextRevisionId (sdbJournal s) < nextRevisionId (sdbJournal s2)"
    "marked (dirties (sdbJournal s)) (entries (sdbJournal s)) \<longrightarrow> marked (dirties (sdbJournal s2)) (entries (sdbJournal s2))"
    "entries (sdbJournal s2) = entries (sdbJournal s) @ es" "chain C (rev es) (view C D s2) (view C D s)"
    "revsAbove (sdbJournal s) (sdbJournal s2) later"
    "validRevisions (sdbJournal s2) = validRevisions (sdbJournal s) @
      \<lparr> revId = nextRevisionId (sdbJournal s), journalIndex = length (entries (sdbJournal s)) \<rparr> # later"
    using sinceE [OF assms(1)] by metis
  have "chain C (rev (es @ es')) (view C D s3) (view C D s)" using l(3) *(4) by (auto simp: chain_append)
  moreover have "revsAbove (sdbJournal s) (sdbJournal s3) later" using *(5) l(2,5) by (fastforce simp: revsAbove_def)
  ultimately show ?thesis using * l unfolding since_def Let_def by auto
qed

lemma since_Snapshot:
  assumes "since C D s s2" "StateDB_Snapshot s2 = (revid, s3)"
  shows "since C D s s3"
  using assms(1)
proof (rule sinceE)
  fix es later
  let ?r = "\<lparr> revId = nextRevisionId (sdbJournal s2), journalIndex = length (entries (sdbJournal s2)) \<rparr>"
  assume *: "viewOK C (view C D s2)" "nextRevisionId (sdbJournal s) < nextRevisionId (sdbJournal s2)"
    "marked (dirties (sdbJournal s)) (entries (sdbJournal s)) \<longrightarrow> marked (dirties (sdbJournal s2)) (entries (sdbJournal s2))"
    "entries (sdbJournal s2) = entries (sdbJournal s) @ es" "chain C (rev es) (view C D s2) (view C D s)"
    "revsAbove (sdbJournal s) (sdbJournal s2) later"
    "validRevisions (sdbJournal s2) = validRevisions (sdbJournal s) @
      \<lparr> revId = nextRevisionId (sdbJournal s), journalIndex = length (entries (sdbJournal s)) \<rparr> # later"
  have s3: "s3 = s2\<lparr> sdbJournal := (sdbJournal s2)\<lparr> nextRevisionId := nextRevisionId (sdbJournal s2) + 1,
      validRevisions := validRevisions (sdbJournal s2) @ [?r] \<rparr> \<rparr>"
    using assms(2) by (auto simp: StateDB_Snapshot_def journal_snapshot_def)
  have "revsAbove (sdbJournal s) (sdbJournal s3) (later @ [?r])"
    using *(2,4,6) by (auto simp: s3 revsAbove_def sorted_wrt_append less_Suc_eq)
  then show "since C D s s3" using * unfolding since_def Let_def by (simp add: s3)
qed

lemma sorted_revisions:
  assumes "revsOK (sdbJournal s)" "revsAbove (sdbJournal s) j2 later"
  shows "sorted_wrt (<) (map revId (validRevisions (sdbJournal s) @ \<lparr> revId = nextRevisionId (sdbJournal s), journalIndex = n \<rparr> # later))"
  using assms by (fastforce simp: revsOK_def revsAbove_def sorted_wrt_append)

text \<open>A revert inside the call goes back to a state since the snapshot.\<close>

lemma since_Revert:
  assumes "revsOK (sdbJournal s)" "since C D s s2" "nextRevisionId (sdbJournal s) < revid" "RevertToSnapshot C D revid s2 = (Inr (), s3)"
  shows "since C D s s3"
  using assms(2)
proof (rule sinceE)
  fix es later
  let ?n = "length (entries (sdbJournal s))"
  let ?b = "\<lparr> revId = nextRevisionId (sdbJournal s), journalIndex = ?n \<rparr>"
  assume *: "viewOK C (view C D s2)" "nextRevisionId (sdbJournal s) < nextRevisionId (sdbJournal s2)"
    "marked (dirties (sdbJournal s)) (entries (sdbJournal s)) \<longrightarrow> marked (dirties (sdbJournal s2)) (entries (sdbJournal s2))"
    "entries (sdbJournal s2) = entries (sdbJournal s) @ es" "chain C (rev es) (view C D s2) (view C D s)"
    "revsAbove (sdbJournal s) (sdbJournal s2) later" "validRevisions (sdbJournal s2) = validRevisions (sdbJournal s) @ ?b # later"
  obtain revs r rest where r: "validRevisions (sdbJournal s2) = revs @ r # rest" "revId r = revid"
    using RevertToSnapshot_known [OF assms(4)] by blast
  have "r \<in> set later"
  proof -
    have "r \<in> set (validRevisions (sdbJournal s)) \<or> r = ?b \<or> r \<in> set later"
      using arg_cong [OF r(1), of set] unfolding *(7) by auto
    then show ?thesis using assms(1,3) r(2) by (auto simp: revsOK_def)
  qed
  then obtain l1 l2 where l: "later = l1 @ r # l2" by (meson split_list)
  define k where "k = journalIndex r - ?n"
  have k: "journalIndex r = length (entries (sdbJournal s) @ take k es)" "k \<le> length es"
    using *(4,6) l by (auto simp: revsAbove_def k_def)
  obtain w where w: "chain C (rev (drop k es)) (view C D s2) w" "chain C (rev (take k es)) w (view C D s)"
    using *(5) by (metis append_take_drop_id chain_append rev_append)
  obtain s' where s': "journal_revert C D (journalIndex r) s2 = (Inr (), s')" "view C D s' = w"
    "entries (sdbJournal s') = entries (sdbJournal s) @ take k es" "nextRevisionId (sdbJournal s') = nextRevisionId (sdbJournal s2)"
    "marked (dirties (sdbJournal s2)) (entries (sdbJournal s2)) \<Longrightarrow> marked (dirties (sdbJournal s')) (entries (sdbJournal s'))"
    using journal_revert_chain [of s2 "entries (sdbJournal s) @ take k es" "drop k es" C D w] *(4) w(1) k(1) by auto
  have s3: "s3 = s'\<lparr> sdbJournal := (sdbJournal s')\<lparr> validRevisions := validRevisions (sdbJournal s) @ ?b # l1 \<rparr> \<rparr>"
    using RevertToSnapshot_found [OF _ _ s'(1), of "validRevisions (sdbJournal s) @ ?b # l1" l2] sorted_revisions [OF assms(1) *(6)]
      *(7) l r(2) assms(4) by auto
  have "revsAbove (sdbJournal s) (sdbJournal s3) l1"
    using *(6) k(1) by (auto simp: l s3 s'(3,4) revsAbove_def sorted_wrt_append)
  then show "since C D s s3"
    using w(2) chain_OK [OF w(1) *(1)] *(2,3) s' unfolding since_def Let_def by (auto simp: s3)
qed

lemma since_runs:
  assumes "runs C D (nextRevisionId (sdbJournal s)) s2 ops s3" "since C D s s2" "revsOK (sdbJournal s)"
  shows "since C D s s3"
  using assms(1,2)
proof (induction s2 ops s3 rule: runs.induct)
  case (cons op s2 s1 ops s')
  have "since C D s s1"
  proof (cases "op = OpSnapshot \<or> (\<exists>i. op = OpRevert i)")
    case True
    then show ?thesis using cons.hyps(1,3) cons.prems since_Snapshot [OF cons.prems] since_Revert [OF assms(3) cons.prems]
      by (auto simp: prod_eq_iff)
  next
    case False
    have "viewOK C (view C D s2)" using cons.prems by (simp add: since_def Let_def)
    from op_logged [OF this cons.hyps(2,3)] False since_logged [OF cons.prems] show ?thesis by blast
  qed
  then show ?case by (rule cons.IH)
qed

lemma since_restored:
  assumes "since C D s s2" "revsOK (sdbJournal s)"
  obtains s3 where "RevertToSnapshot C D (nextRevisionId (sdbJournal s)) s2 = (Inr (), s3)" "view C D s3 = view C D s"
    "entries (sdbJournal s3) = entries (sdbJournal s)" "validRevisions (sdbJournal s3) = validRevisions (sdbJournal s)"
    "marked (dirties (sdbJournal s)) (entries (sdbJournal s)) \<longrightarrow> marked (dirties (sdbJournal s3)) (entries (sdbJournal s))"
  using assms(1)
proof (rule sinceE)
  fix es later
  let ?b = "\<lparr> revId = nextRevisionId (sdbJournal s), journalIndex = length (entries (sdbJournal s)) \<rparr>"
  assume *: "marked (dirties (sdbJournal s)) (entries (sdbJournal s)) \<longrightarrow> marked (dirties (sdbJournal s2)) (entries (sdbJournal s2))"
    "entries (sdbJournal s2) = entries (sdbJournal s) @ es" "chain C (rev es) (view C D s2) (view C D s)"
    "revsAbove (sdbJournal s) (sdbJournal s2) later" "validRevisions (sdbJournal s2) = validRevisions (sdbJournal s) @ ?b # later"
  obtain s' where s': "journal_revert C D (journalIndex ?b) s2 = (Inr (), s')" "view C D s' = view C D s"
    "entries (sdbJournal s') = entries (sdbJournal s)"
    "marked (dirties (sdbJournal s2)) (entries (sdbJournal s2)) \<Longrightarrow> marked (dirties (sdbJournal s')) (entries (sdbJournal s'))"
    using journal_revert_chain [OF *(2,3)] by auto
  have "RevertToSnapshot C D (nextRevisionId (sdbJournal s)) s2 =
      (Inr (), s'\<lparr> sdbJournal := (sdbJournal s')\<lparr> validRevisions := validRevisions (sdbJournal s) \<rparr> \<rparr>)"
    using RevertToSnapshot_found [OF _ *(5) s'(1)] sorted_revisions [OF assms(2) *(4)] *(5) by simp
  from that [OF this] show thesis using s' *(1) by simp
qed

section \<open>Inside a transaction\<close>

text \<open>An account has no write of the transaction.\<close>

definition cleanAt :: "sview \<Rightarrow> address \<Rightarrow> bool" where
  "cleanAt v a \<longleftrightarrow> (\<forall>acc. vAccounts v a = Some acc \<longrightarrow> vState acc = vCommitted acc \<and> \<not> vDestructed acc)"

text \<open>What holds inside a transaction that started in the abstract state \<open>v0\<close>: the whole journal leads back to it.\<close>

definition txOK :: "crypto \<Rightarrow> reader \<Rightarrow> sview \<Rightarrow> StateDB \<Rightarrow> bool" where
  "txOK C D v0 s \<longleftrightarrow> viewOK C (view C D s) \<and> revsOK (sdbJournal s) \<and> marked (dirties (sdbJournal s)) (entries (sdbJournal s)) \<and>
     chain C (rev (entries (sdbJournal s))) (view C D s) v0"

lemma txOK_logged: "txOK C D v0 s \<Longrightarrow> logged C D s s' \<Longrightarrow> txOK C D v0 s'"
  by (fastforce simp: txOK_def logged_def revsOK_def chain_append)

lemma txOK_Snapshot: "txOK C D v0 s \<Longrightarrow> txOK C D v0 (snd (StateDB_Snapshot s))"
  by (auto simp: txOK_def revsOK_def StateDB_Snapshot_def journal_snapshot_def sorted_wrt_append less_Suc_eq)

lemma txOK_Revert:
  assumes "txOK C D v0 s" "RevertToSnapshot C D revid s = (Inr (), s')"
  shows "txOK C D v0 s'"
proof -
  have *: "viewOK C (view C D s)" "revsOK (sdbJournal s)" "marked (dirties (sdbJournal s)) (entries (sdbJournal s))"
    "chain C (rev (entries (sdbJournal s))) (view C D s) v0" using assms(1) by (auto simp: txOK_def)
  obtain revs r rest where r: "validRevisions (sdbJournal s) = revs @ r # rest" "revId r = revid"
    using RevertToSnapshot_known [OF assms(2)] by blast
  let ?k = "journalIndex r" and ?es = "entries (sdbJournal s)"
  have k: "length (take ?k ?es) = ?k" using *(2) r(1) by (auto simp: revsOK_def)
  obtain w where w: "chain C (rev (drop ?k ?es)) (view C D s) w" "chain C (rev (take ?k ?es)) w v0"
    using *(4) by (metis append_take_drop_id chain_append rev_append)
  obtain s1 where s1: "journal_revert C D ?k s = (Inr (), s1)" "view C D s1 = w" "entries (sdbJournal s1) = take ?k ?es"
    "nextRevisionId (sdbJournal s1) = nextRevisionId (sdbJournal s)" "marked (dirties (sdbJournal s1)) (take ?k ?es)"
    using journal_revert_chain [of s "take ?k ?es" "drop ?k ?es" C D w] w(1) *(3) k by auto
  have s': "s' = s1\<lparr> sdbJournal := (sdbJournal s1)\<lparr> validRevisions := revs \<rparr> \<rparr>"
    using RevertToSnapshot_found [OF _ r(1) s1(1)] *(2) assms(2) r(2) by (simp add: revsOK_def)
  have "revsOK (sdbJournal s')" using *(2) r(1) k by (auto simp: revsOK_def s' s1(3,4) sorted_wrt_append)
  then show ?thesis using w(2) chain_OK [OF w(1) *(1)] s1 by (simp add: txOK_def s')
qed

lemma txOK_op:
  assumes "txOK C D v0 s" "allowedOp C D op s" "runOp C D op s = (Inr (), s')"
  shows "txOK C D v0 s'"
proof (cases "op = OpSnapshot \<or> (\<exists>i. op = OpRevert i)")
  case True
  then show ?thesis using assms txOK_Snapshot [OF assms(1)] txOK_Revert [OF assms(1)] by auto
next
  case False
  then show ?thesis using op_logged [OF _ assms(2,3)] txOK_logged [OF assms(1)] assms(1) by (auto simp: txOK_def)
qed

lemma undo_untouched: "undo C e v = Some v' \<Longrightarrow> dirtied e \<noteq> Some a \<Longrightarrow> cleanAt v' a \<Longrightarrow> cleanAt v a"
  by (cases e) (auto simp: onAccount_def cleanAt_def split: option.splits if_splits)

lemma chain_untouched:
  "chain C es v v0 \<Longrightarrow> \<forall>e \<in> set es. dirtied e \<noteq> Some a \<Longrightarrow> cleanAt v0 a \<Longrightarrow> cleanAt v a"
  by (induction es arbitrary: v) (auto intro: undo_untouched)

lemma marked_untouched: "marked m es \<Longrightarrow> gm_get m a = None \<Longrightarrow> \<forall>e \<in> set es. dirtied e \<noteq> Some a"
  by (auto simp: marked_def markOf_def dirtyCount_def Let_def filter_empty_conv split: if_splits)

end
