(* ===== verification/Spec2Isabelle.thy ===== *)
theory Spec2Isabelle
  imports Finality Frequency Fork_Id Election Preparation Validator_Changes State_Revert
begin

text \<open>
  Verification library for the consensus engine of the node, Parlia with the Chiliz forks, and the parts of the node it stands on: the chain
  configuration, the RLP codec, the header rules, the fork identifiers and the state of a block.

  \<^bold>\<open>The program and its model.\<close> A node receives headers, checks them against its chain configuration and against the snapshot of the validator
  set at the parent, and executes the block; a validator prepares, fills and seals a header of its own. Every theory models one part, in the
  order in which the parts use each other.

  \<^item> \<open>Prelude\<close>: Go's integers (\<open>u64\<close> wraps, \<open>big.Int\<close> is \<open>int\<close>), results with errors, steps with state and errors, Go maps as association
    lists with the locale \<open>keyed_store\<close> as their contract, byte strings.
  \<^item> \<open>Params\<close>, \<open>Networks\<close> (\<open>params/config.go\<close>): fork predicates, order and compatibility checks, rule sets, built-in networks. C1 to C3: the
    order check implies the order of activation, the rewind loop ends and decides, the built-in networks pass.
  \<^item> \<open>Rlp_Encode\<close>, \<open>Rlp_Decode\<close>, \<open>Rlp_Roundtrip\<close>, \<open>Rlp_Canonical\<close> (\<open>rlp/\<close>): the encoder buffer, the decoder stream and the codecs derived from a
    type. C4 to C7: the encoder writes the textbook encoding, decoding inverts it, only canonical input is accepted, decoding ends.
  \<^item> \<open>Chain_Types\<close>, \<open>Header_Codec\<close> (\<open>core/types\<close>): headers, votes, their encodings and the bytes that are signed. C8 to C10.
  \<^item> \<open>Lru\<close> (\<open>common/lru\<close>): the cache of recent snapshots and signers, with the locale \<open>value_cache\<close> for its clients.
  \<^item> \<open>Extra_Data\<close> (\<open>parlia.go\<close>, \<open>snapshot.go\<close>): layout of the extra data, its writers and parsers. C14 to C16: round trips, and the Snake8 decision.
  \<^item> \<open>Snapshot\<close>, \<open>Recents\<close>, \<open>Sig_Cache\<close>, \<open>Turns\<close> (\<open>snapshot.go\<close>): the validator snapshot and the application of headers. C11 to C13, C17 to C21: the
    window of recent signers, the exact check of the signer, application in batches, independence of the signature cache,
    well-formed snapshots, fair turns, proposal windows and the next change of validators.
  \<^item> \<open>Timing\<close>, \<open>Frequency\<close> (\<open>parlia.go\<close>, \<open>ramanujanfork.go\<close>, \<open>snapshot.go\<close>): back-off, block times and stake frequencies. C22 to C25.
  \<^item> \<open>Header_Rules\<close> (\<open>consensus/misc\<close>): gas limit, base fee and blob fee. C26 and C27.
  \<^item> \<open>Engine\<close>, \<open>Snapshot_Search\<close>, \<open>Acceptance\<close> (\<open>parlia.go\<close>): the state of the engine, the search for a snapshot through caches, database and
    checkpoints, and the verification of headers. C28 to C30: the search ends, gives the snapshot that applying every header from genesis
    gives, and an accepted header obeys the rules relative to it.
  \<^item> \<open>Voting\<close>, \<open>Finality\<close> (\<open>parlia.go\<close>): votes, attestations and finality, with the locale \<open>quorum_votes\<close>. C31 and C32: quorums overlap, and
    justified and finalized blocks never move back.
  \<^item> \<open>Fork_Id\<close> (\<open>core/forkid\<close>): checksums of the fork schedule and the compatibility filter. C33.
  \<^item> \<open>Election\<close> (\<open>feynmanfork.go\<close>): the election by voting power, with the heap of the standard library verified in the locale \<open>heap_order\<close>. C34.
  \<^item> \<open>Preparation\<close> (\<open>parlia.go\<close>, \<open>lubanFork.go\<close>, \<open>bohrFork.go\<close>): preparing and sealing a header, and the check of the epoch data. C35: what a
    producer writes is accepted.
  \<^item> \<open>State_Db\<close>, \<open>State_View\<close> (\<open>core/state\<close>): accounts, storage, access list, transient storage, the journal that undoes changes, and the end of a
    transaction; the abstract view of a state, and that reading and caching do not change it.

  \<^bold>\<open>Conventions.\<close> A nil pointer is \<open>None\<close>, a Go panic is the error \<open>Panic\<close>, and a loop that has not ended within its fuel gives
  \<open>NoReturn\<close>. What is not part of the repository, or is reached through an interface only, is a parameter: the cryptographic primitives (\<open>crypto\<close>), the
  chain of headers (\<open>chain_reader\<close>), the answers of contracts (\<open>contracts\<close>), the random numbers of \<open>math/rand\<close>, the clock, and the reader of the state
  below (\<open>reader\<close>). The hypotheses on them are collected in \<open>soundChain\<close> (headers are found under their hashes and the chain is closed under parents) and
  \<open>engineOK\<close> (what the caches and the database hold is what the reference computation gives, which every operation keeps).

  \<^bold>\<open>Fuel.\<close> The walk back to a snapshot has fuel for every block number below it, and C28 shows that it is enough. The decoder has fuel for the
  length of its input and the depth of the type, and C7 shows the same for it. The loop of the blob fee has fuel for its
  terms, with the proof in C27. The normalisation of frequencies is bounded in the code.

  \<^bold>\<open>Not modelled.\<close> The EVM and its precompiles, tries, roots and the commit of a state, transaction pools, the peer-to-peer and RPC layers, and the
  insertion of blocks with reorganisations: each is a system of its own, and the engine reaches it only through the interfaces above. The
  system transactions that the engine adds to a block need the EVM. Goroutines, channels and locks: a call is one step. Metrics and logs.
  The JSON form of a stored snapshot, the ABI codec and the embedded byte code of contracts: data formats of other projects.
\<close>

end
